(* ===== verification/Prelude.thy ===== *)
theory Prelude
  imports Main "HOL-Library.Word"
begin

text \<open>
  What every component of the development shares: the C integer types as words, the ways a
  C routine of the repository can fail to return normally, little-endian codecs between bytes
  and 16/32-bit words (both machines of the repository are little-endian and overlay packed
  structs on byte buffers), and overwriting part of a buffer (\<open>splice\<close>). The named
  collections \<open>codec_simps\<close> and \<open>buf_simps\<close> gather the facts the component
  proofs pass to the simplifier.
\<close>

unbundle bit_operations_syntax

section \<open>C types and failures\<close>

type_synonym u8 = "8 word"
type_synonym u16 = "16 word"
type_synonym u32 = "32 word"
type_synonym u64 = "64 word"
type_synonym bytes = "u8 list"

text \<open>
  \<open>Panic\<close> is a call of \<open>panic\<close> (print, then hang), \<open>Halted\<close> a bare call of
  \<open>_halt\<close>, and \<open>Undef\<close> an access outside a C object, for which C promises nothing.
\<close>

datatype fault = Panic string | Halted | Undef

definition nl :: string where "nl = [CHR 0x0A]"

text \<open>String literals: the characters as bytes, and the C object with its final 0.\<close>

definition ascii :: "string \<Rightarrow> bytes" where
  "ascii cs = map (\<lambda>c. of_nat (of_char c)) cs"

definition cstr :: "string \<Rightarrow> bytes" where
  "cstr cs = ascii cs @ [0]"

type_synonym 'a res = "fault + 'a"

named_theorems codec_simps "little-endian codecs"
named_theorems buf_simps "buffers: reading, overwriting, lengths"

text \<open>A read of one element through a pointer to an object of known extent.\<close>

definition rd_at :: "'a list \<Rightarrow> nat \<Rightarrow> 'a option" where
  "rd_at xs i = (if i < length xs then Some (xs ! i) else None)"

lemma rd_at_Some [buf_simps, simp]: "i < length xs \<Longrightarrow> rd_at xs i = Some (xs ! i)"
  by (simp add: rd_at_def)

lemma rd_at_None [buf_simps, simp]: "length xs \<le> i \<Longrightarrow> rd_at xs i = None"
  by (simp add: rd_at_def)

lemma rd_at_eq_Some_iff: "rd_at xs i = Some x \<longleftrightarrow> i < length xs \<and> x = xs ! i"
  by (auto simp: rd_at_def)

section \<open>Arithmetic\<close>

lemma mult_add_inj:
  fixes n :: nat
  assumes "k < n" "k' < n"
  shows "a * n + k = b * n + k' \<longleftrightarrow> a = b \<and> k = k'"
proof -
  have "(x * n + y) div n = x" "(x * n + y) mod n = y" if "y < n" for x y
    using that by simp_all
  then show ?thesis using assms by metis
qed

lemma unat_of_nat_small: "n < 2 ^ LENGTH('a) \<Longrightarrow> unat (of_nat n :: 'a::len word) = n"
  by (simp add: unsigned_of_nat take_bit_nat_eq_self)

section \<open>Overwriting part of a buffer\<close>

definition splice :: "nat \<Rightarrow> 'a list \<Rightarrow> 'a list \<Rightarrow> 'a list" where
  "splice n ys xs = take n xs @ ys @ drop (n + length ys) xs"

lemma length_splice [buf_simps, simp]:
  "n + length ys \<le> length xs \<Longrightarrow> length (splice n ys xs) = length xs"
  by (simp add: splice_def)

lemma splice_nth_in [buf_simps]:
  "n + length ys \<le> length xs \<Longrightarrow> n \<le> i \<Longrightarrow> i < n + length ys
   \<Longrightarrow> splice n ys xs ! i = ys ! (i - n)"
  by (auto simp: splice_def nth_append min_def)

lemma splice_nth_below [buf_simps]:
  "n + length ys \<le> length xs \<Longrightarrow> i < n \<Longrightarrow> splice n ys xs ! i = xs ! i"
  by (simp add: splice_def nth_append)

lemma splice_nth_above [buf_simps]:
  "n + length ys \<le> length xs \<Longrightarrow> n + length ys \<le> i \<Longrightarrow> splice n ys xs ! i = xs ! i"
  by (auto simp: splice_def nth_append min_def)
     (metis add.commute add_leD1 le_add_diff_inverse2 diff_diff_left le_antisym add_diff_cancel_left')

text \<open>The \<open>n\<close> elements of a buffer from offset \<open>o\<close> on.\<close>

definition chunk :: "nat \<Rightarrow> nat \<Rightarrow> 'a list \<Rightarrow> 'a list" where
  "chunk off n xs = take n (drop off xs)"

lemma length_chunk [buf_simps, simp]: "off + n \<le> length xs \<Longrightarrow> length (chunk off n xs) = n"
  by (simp add: chunk_def)

lemma chunk_nth [buf_simps, simp]:
  "i < n \<Longrightarrow> off + n \<le> length xs \<Longrightarrow> chunk off n xs ! i = xs ! (off + i)"
  by (simp add: chunk_def)

lemma chunk_splice_same [buf_simps, simp]:
  "n + length ys \<le> length xs \<Longrightarrow> m = length ys \<Longrightarrow> chunk n m (splice n ys xs) = ys"
  by (simp add: chunk_def splice_def)

lemma chunk_splice_other [buf_simps]:
  assumes "n + length ys \<le> length xs" "off + m \<le> length xs"
    and "off + m \<le> n \<or> n + length ys \<le> off"
  shows "chunk off m (splice n ys xs) = chunk off m xs"
  using assms
  by (intro nth_equalityI) (auto simp: splice_nth_below splice_nth_above)

lemma chunk_update_other [buf_simps]:
  assumes "off + m \<le> length xs" "k < off \<or> off + m \<le> k"
  shows "chunk off m (xs[k := v]) = chunk off m xs"
  using assms by (intro nth_equalityI) (auto simp: nth_list_update)

lemma chunk_update_in [buf_simps]:
  assumes "off + m \<le> length xs" "off \<le> k" "k < off + m"
  shows "chunk off m (xs[k := v]) = (chunk off m xs)[k - off := v]"
  using assms by (intro nth_equalityI) (auto simp: nth_list_update)

section \<open>Little-endian words\<close>

definition le16 :: "u8 \<Rightarrow> u8 \<Rightarrow> u16" where
  "le16 b0 b1 = ucast b0 OR push_bit 8 (ucast b1)"

definition le32 :: "u8 \<Rightarrow> u8 \<Rightarrow> u8 \<Rightarrow> u8 \<Rightarrow> u32" where
  "le32 b0 b1 b2 b3 =
     ucast b0 OR push_bit 8 (ucast b1) OR push_bit 16 (ucast b2) OR push_bit 24 (ucast b3)"

text \<open>Byte \<open>i\<close> of a word in memory, least significant first.\<close>

definition byte_of :: "nat \<Rightarrow> 'a::len word \<Rightarrow> u8" where
  "byte_of i w = ucast (drop_bit (8 * i) w)"

definition bytes16 :: "u16 \<Rightarrow> bytes" where
  "bytes16 w = [byte_of 0 w, byte_of 1 w]"

definition bytes32 :: "u32 \<Rightarrow> bytes" where
  "bytes32 w = [byte_of 0 w, byte_of 1 w, byte_of 2 w, byte_of 3 w]"

lemma length_bytes16 [codec_simps, simp]: "length (bytes16 w) = 2"
  by (simp add: bytes16_def)

lemma length_bytes32 [codec_simps, simp]: "length (bytes32 w) = 4"
  by (simp add: bytes32_def)

lemma le16_bytes [codec_simps, simp]: "le16 (byte_of 0 w) (byte_of 1 w) = w"
proof (rule bit_word_eqI)
  fix n assume "n < LENGTH(16)"
  then show "bit (le16 (byte_of 0 w) (byte_of 1 w)) n = bit w n"
    by (auto simp: le16_def byte_of_def bit_simps)
qed

lemma le32_bytes [codec_simps, simp]:
  "le32 (byte_of 0 w) (byte_of 1 w) (byte_of 2 w) (byte_of 3 w) = w"
proof (rule bit_word_eqI)
  fix n assume "n < LENGTH(32)"
  then show "bit (le32 (byte_of 0 w) (byte_of 1 w) (byte_of 2 w) (byte_of 3 w)) n = bit w n"
    by (cases "n < 8"; cases "n < 16"; cases "n < 24") (auto simp: le32_def byte_of_def bit_simps)
qed

lemma le16_bytes_Suc: "le16 (byte_of 0 w) (byte_of (Suc 0) w) = w"
  using le16_bytes[of w] by simp

lemma le32_bytes_Suc:
  "le32 (byte_of 0 w) (byte_of (Suc 0) w) (byte_of (Suc (Suc 0)) w) (byte_of (Suc (Suc (Suc 0))) w) = w"
  using le32_bytes[of w] by (simp add: numeral_eq_Suc)

lemma byte_of_le16 [codec_simps, simp]:
  "byte_of 0 (le16 a b) = a" "byte_of (Suc 0) (le16 a b) = b"
  by (rule bit_word_eqI; auto simp: byte_of_def le16_def bit_simps dest: bit_imp_le_length)+

lemma byte_of_le32 [codec_simps, simp]:
  "byte_of 0 (le32 a b c d) = a" "byte_of (Suc 0) (le32 a b c d) = b"
  "byte_of (Suc (Suc 0)) (le32 a b c d) = c" "byte_of (Suc (Suc (Suc 0))) (le32 a b c d) = d"
  "byte_of 2 (le32 a b c d) = c" "byte_of 3 (le32 a b c d) = d"
  by (rule bit_word_eqI; auto simp: byte_of_def le32_def bit_simps dest: bit_imp_le_length)+

lemma le32_inject [codec_simps]:
  "le32 a b c d = le32 a' b' c' d' \<longleftrightarrow> a = a' \<and> b = b' \<and> c = c' \<and> d = d'"
  by (metis byte_of_le32)

text \<open>Fields of a packed struct laid over a byte buffer.\<close>

definition u16_at :: "bytes \<Rightarrow> nat \<Rightarrow> u16" where
  "u16_at bs off = le16 (bs ! off) (bs ! (off + 1))"

definition u32_at :: "bytes \<Rightarrow> nat \<Rightarrow> u32" where
  "u32_at bs off = le32 (bs ! off) (bs ! (off + 1)) (bs ! (off + 2)) (bs ! (off + 3))"

lemma bytes32_u32_at [codec_simps]:
  "off + 4 \<le> length bs \<Longrightarrow> bytes32 (u32_at bs off) = chunk off 4 bs"
  by (rule nth_equalityI)
     (auto simp: bytes32_def u32_at_def less_Suc_eq numeral_eq_Suc)

lemma bytes16_u16_at [codec_simps]:
  "off + 2 \<le> length bs \<Longrightarrow> bytes16 (u16_at bs off) = chunk off 2 bs"
  by (rule nth_equalityI)
     (auto simp: bytes16_def u16_at_def less_Suc_eq numeral_eq_Suc)

section \<open>A buffer of bytes as a buffer of words\<close>

definition words_of_bytes :: "bytes \<Rightarrow> u32 list" where
  "words_of_bytes bs = map (\<lambda>j. u32_at bs (4 * j)) [0..<length bs div 4]"

definition bytes_of_words :: "u32 list \<Rightarrow> bytes" where
  "bytes_of_words ws = concat (map bytes32 ws)"

lemma length_words_of_bytes [codec_simps, simp]: "length (words_of_bytes bs) = length bs div 4"
  by (simp add: words_of_bytes_def)

lemma words_of_bytes_nth [codec_simps, simp]:
  "j < length bs div 4 \<Longrightarrow> words_of_bytes bs ! j = u32_at bs (4 * j)"
  by (simp add: words_of_bytes_def)

lemma length_bytes_of_words [codec_simps, simp]: "length (bytes_of_words ws) = 4 * length ws"
  by (induction ws) (auto simp: bytes_of_words_def)

lemma bytes_of_words_Cons [codec_simps]: "bytes_of_words (w # ws) = bytes32 w @ bytes_of_words ws"
  by (simp add: bytes_of_words_def)

lemma u32_at_bytes_of_words [codec_simps]:
  "j < length ws \<Longrightarrow> u32_at (bytes_of_words ws) (4 * j) = ws ! j"
proof (induction ws arbitrary: j)
  case Nil
  then show ?case by simp
next
  case (Cons w ws)
  show ?case
  proof (cases j)
    case 0
    then show ?thesis
      by (simp add: bytes_of_words_Cons u32_at_def nth_append bytes32_def numeral_eq_Suc)
         (metis One_nat_def le32_bytes numeral_2_eq_2 numeral_3_eq_3)
  next
    case (Suc k)
    with Cons have "u32_at (bytes_of_words ws) (4 * k) = ws ! k" by simp
    with Suc show ?thesis
      by (simp add: bytes_of_words_Cons u32_at_def nth_append add.commute)
  qed
qed

lemma words_bytes_roundtrip [codec_simps, simp]: "words_of_bytes (bytes_of_words ws) = ws"
  by (rule nth_equalityI) (auto simp: u32_at_bytes_of_words)

lemma bytes_words_roundtrip [codec_simps]:
  "length bs = 4 * n \<Longrightarrow> bytes_of_words (words_of_bytes bs) = bs"
proof (induction n arbitrary: bs)
  case 0
  then show ?case by (simp add: bytes_of_words_def words_of_bytes_def)
next
  case (Suc n)
  have len: "length bs div 4 = Suc n" using Suc.prems by simp
  have ws: "words_of_bytes bs = u32_at bs 0 # words_of_bytes (drop 4 bs)"
  proof (rule nth_equalityI)
    show "length (words_of_bytes bs) = length (u32_at bs 0 # words_of_bytes (drop 4 bs))"
      using Suc.prems by simp
    fix i assume i: "i < length (words_of_bytes bs)"
    show "words_of_bytes bs ! i = (u32_at bs 0 # words_of_bytes (drop 4 bs)) ! i"
    proof (cases i)
      case 0
      then show ?thesis using len by simp
    next
      case (Suc k)
      then have "k < n" using i len by simp
      then show ?thesis
        using Suc.prems \<open>i = Suc k\<close> \<open>length bs = 4 * Suc n\<close>
        by (simp add: u32_at_def add.commute add.left_commute)
    qed
  qed
  have "bytes_of_words (words_of_bytes (drop 4 bs)) = drop 4 bs"
    using Suc.prems by (intro Suc.IH) simp
  then show ?case
    using Suc.prems
    by (simp add: ws bytes_of_words_Cons bytes32_u32_at chunk_def)
qed

end
