(* ===== verification/Cstring.thy ===== *)
theory Cstring
  imports Prelude "HOL-Library.Sublist"
begin

text \<open>
  The string and memory routines of \<open>src/pi-src/string.c\<close> and \<open>src/pi-src/memset.c\<close>.
  A pointer argument is the list of the bytes of the object it points to; running past the end
  of an object is the value \<open>None\<close>. Both string routines stop at a byte 0 or at a byte
  0xff (the padding the install program appends to names), so a C string of this program is
  \<open>str_of\<close> of its buffer.
\<close>

definition is_term :: "u8 \<Rightarrow> bool" where
  "is_term c \<longleftrightarrow> c = 0 \<or> c = 0xff"

definition str_of :: "bytes \<Rightarrow> bytes" where
  "str_of bs = takeWhile (\<lambda>c. \<not> is_term c) bs"

section \<open>strncpy\<close>

text \<open>The copying loop from index \<open>i\<close> on: the index it stops at, and the destination.\<close>

function strncpy_loop :: "bytes \<Rightarrow> bytes \<Rightarrow> nat \<Rightarrow> nat \<Rightarrow> (nat \<times> bytes) option" where
  "strncpy_loop dst src n i =
     (if i < n then
        (case rd_at src i of
           None \<Rightarrow> None
         | Some c \<Rightarrow>
             if c \<noteq> 0 \<and> c \<noteq> 0xff then
               (if i < length dst then strncpy_loop (dst[i := c]) src n (Suc i) else None)
             else Some (i, dst))
      else Some (i, dst))"
  by pat_completeness auto
termination
  by (relation "measure (\<lambda>(dst, src, n, i). n - i)") auto

declare strncpy_loop.simps [simp del]

definition strncpy :: "bytes \<Rightarrow> bytes \<Rightarrow> u32 \<Rightarrow> bytes option" where
  "strncpy dst src n =
     (if n = 0 then Some dst
      else case strncpy_loop dst src (unat n) 0 of
          None \<Rightarrow> None
        | Some (i, dst') \<Rightarrow>
            if i = unat n
            then (if unat n - 1 < length dst' then Some (dst'[unat n - 1 := 0]) else None)
            else (if i < length dst' then Some (dst'[i := 0]) else None))"

lemma strncpy_loop_spec:
  assumes "n \<le> length dst" "n \<le> length src \<or> length (str_of src) < length src" "i \<le> n"
    and "i \<le> length (str_of src)"
  shows "strncpy_loop dst src n i =
    (let k = min n (length (str_of src))
     in Some (k, take i dst @ chunk i (k - i) src @ drop k dst))"
  using assms
proof (induction dst src n i rule: strncpy_loop.induct)
  case (1 dst src n i)
  let ?L = "length (str_of src)"
  show ?case
  proof (cases "i < n \<and> i < ?L")
    case True
    then have i_src: "i < length src"
      by (metis str_of_def length_takeWhile_le order.strict_trans2)
    have nt: "src ! i \<noteq> 0 \<and> src ! i \<noteq> 0xff"
      using True nth_mem[of i "str_of src"] set_takeWhileD[of "str_of src ! i" "\<lambda>c. \<not> is_term c" src]
      by (metis str_of_def is_term_def takeWhile_nth)
    have IH: "strncpy_loop (dst[i := src ! i]) src n (Suc i) =
      (let k = min n ?L in Some (k, take (Suc i) (dst[i := src ! i]) @
         chunk (Suc i) (k - Suc i) src @ drop k (dst[i := src ! i])))"
      using "1.IH"[of "src ! i"] "1.prems" True i_src nt by simp
    have tk: "take (Suc i) (dst[i := src ! i]) = take i dst @ [src ! i]"
      using True "1.prems" by (simp add: take_Suc_conv_app_nth)
    have ck: "chunk i (min n ?L - i) src = src ! i # chunk (Suc i) (min n ?L - Suc i) src"
      using True i_src by (auto simp: chunk_def Cons_nth_drop_Suc[symmetric] take_Cons' min_def)
    show ?thesis
      using True i_src nt IH tk ck "1.prems"
      by (subst strncpy_loop.simps) (simp add: Let_def)
  next
    case False
    show ?thesis
    proof (cases "i < n")
      case i_n: True
      then have iL: "i = ?L" using False "1.prems" by simp
      then have i_src: "i < length src" using i_n "1.prems" by linarith
      then have "is_term (src ! i)"
        using nth_length_takeWhile[of "\<lambda>c. \<not> is_term c" src] iL by (simp add: str_of_def)
      then show ?thesis
        using i_n i_src iL by (subst strncpy_loop.simps) (auto simp: is_term_def Let_def chunk_def)
    next
      case False
      then show ?thesis
        using "1.prems" by (subst strncpy_loop.simps) (simp add: Let_def chunk_def min_def)
    qed
  qed
qed

text \<open>
  What \<open>strncpy\<close> leaves in the destination: the string, cut to \<open>n - 1\<close> bytes when it
  fills the field, one terminator, and the rest of the destination as it was.
\<close>

definition strncpy_result :: "bytes \<Rightarrow> bytes \<Rightarrow> nat \<Rightarrow> bytes" where
  "strncpy_result dst src n =
     (let s = take (n - 1) (str_of src) in s @ [0] @ drop (Suc (length s)) dst)"

lemma take_str_of: "k \<le> length (str_of src) \<Longrightarrow> take k src = take k (str_of src)"
  by (metis str_of_def append_eq_conv_conj takeWhile_dropWhile_id take_append diff_is_0_eq
      take_eq_Nil append_Nil2)

lemma strncpy_loop_start:
  assumes "n \<le> length dst" "n \<le> length src \<or> length (str_of src) < length src"
  shows "strncpy_loop dst src n 0 =
    (let k = min n (length (str_of src)) in Some (k, take k (str_of src) @ drop k dst))"
  using assms by (simp add: strncpy_loop_spec chunk_def take_str_of Let_def)

lemma str_of_terminated:
  assumes "\<forall>c \<in> set s. \<not> is_term c"
  shows "str_of (s @ 0 # t) = s"
  using assms by (simp add: str_of_def is_term_def takeWhile_append)

lemma str_of_no_term: "c \<in> set (str_of bs) \<Longrightarrow> \<not> is_term c"
  by (auto simp: str_of_def dest: set_takeWhileD)

lemma strncpy_result_eq:
  assumes n: "n \<noteq> 0" "unat n \<le> length dst"
    and src: "unat n \<le> length src \<or> length (str_of src) < length src"
  shows "strncpy dst src n = Some (strncpy_result dst src (unat n))"
proof -
  define m L where "m = unat n" and "L = length (str_of src)"
  have m: "0 < m" "m \<le> length dst" using n by (auto simp: m_def unat_gt_0)
  have loop: "strncpy_loop dst src m 0 =
      Some (min m L, take (min m L) (str_of src) @ drop (min m L) dst)"
    using strncpy_loop_start[of m dst src] n src by (simp add: m_def L_def Let_def)
  show ?thesis
  proof (cases "m \<le> L")
    case True
    then have "(take m (str_of src) @ drop m dst)[m - 1 := 0] =
        take (m - 1) (str_of src) @ 0 # drop m dst"
      using m by (intro nth_equalityI)
        (auto simp: L_def nth_list_update nth_append nth_Cons' min_def,
         metis diff_Suc_less length_greater_0_conv not_le)
    then show ?thesis
      using True m loop n(1)
      by (auto simp: strncpy_def strncpy_result_def Let_def m_def[symmetric] L_def min_def)
  next
    case False
    then have "(str_of src @ drop L dst)[L := 0] = str_of src @ 0 # drop (Suc L) dst"
      using m by (simp add: list_update_append L_def flip: Cons_nth_drop_Suc)
    then show ?thesis
      using False m loop n(1)
      by (simp add: strncpy_def strncpy_result_def Let_def m_def[symmetric] L_def min_def)
  qed
qed

text \<open>
  With a source that is terminated (by 0 or 0xff) or at least \<open>n\<close> bytes long and a
  destination of at least \<open>n\<close> bytes, \<open>strncpy\<close> never leaves its buffers, keeps the
  destination's length, always terminates what it copied, and copies the source string cut to
  \<open>n - 1\<close> bytes; the destination from byte \<open>n\<close> on is untouched.
\<close>

theorem strncpy_correct:
  assumes "n \<noteq> 0" "unat n \<le> length dst"
    and "unat n \<le> length src \<or> length (str_of src) < length src"
  shows "\<exists>out. strncpy dst src n = Some out \<and> length out = length dst
    \<and> str_of out = take (unat n - 1) (str_of src)
    \<and> drop (unat n) out = drop (unat n) dst"
proof -
  let ?s = "take (unat n - 1) (str_of src)"
  have n: "0 < unat n" using assms(1) by (simp add: unat_gt_0)
  have ls: "length ?s \<le> unat n - 1" by simp
  have out: "strncpy_result dst src (unat n) = ?s @ 0 # drop (Suc (length ?s)) dst"
    by (simp add: strncpy_result_def Let_def)
  have "str_of (?s @ 0 # drop (Suc (length ?s)) dst) = ?s"
    by (rule str_of_terminated) (auto dest: in_set_takeD str_of_no_term)
  moreover have "drop (unat n) (?s @ 0 # drop (Suc (length ?s)) dst) = drop (unat n) dst"
    using ls n by (auto simp: drop_Cons' simp del: length_take)
  moreover have "length (?s @ 0 # drop (Suc (length ?s)) dst) = length dst"
    using ls n assms(2) by (auto simp del: length_take)
  ultimately show ?thesis using strncpy_result_eq[OF assms] out by metis
qed

theorem strncpy_correct_witness:
  "\<exists>out. strncpy [9,9,9,9] [65,66,0] 4 = Some out \<and> length out = length ([9,9,9,9] :: bytes)
    \<and> str_of out = take (unat (4::u32) - 1) (str_of [65,66,0])
    \<and> drop (unat (4::u32)) out = drop (unat (4::u32)) [9,9,9,9]"
  by (rule strncpy_correct) (simp_all add: str_of_def is_term_def)

section \<open>strncmp\<close>

function strncmp_loop :: "bytes \<Rightarrow> bytes \<Rightarrow> nat \<Rightarrow> nat \<Rightarrow> int option" where
  "strncmp_loop str1 str2 n i =
     (if i < n then
        (case rd_at str1 i of None \<Rightarrow> None | Some a \<Rightarrow>
           if a = 0 then Some 0 else
           (case rd_at str2 i of None \<Rightarrow> None | Some b \<Rightarrow>
              if b = 0 \<or> a = 0xff \<or> b = 0xff then Some 0
              else if a \<noteq> b then Some (-1)
              else strncmp_loop str1 str2 n (Suc i)))
      else Some 0)"
  by pat_completeness auto
termination
  by (relation "measure (\<lambda>(s1, s2, n, i). n - i)") auto

declare strncmp_loop.simps [simp del]

definition strncmp :: "bytes \<Rightarrow> bytes \<Rightarrow> u32 \<Rightarrow> int option" where
  "strncmp str1 str2 n = strncmp_loop str1 str2 (unat n) 0"

text \<open>What the loop decides: one string, read up to its terminator, continues the other.\<close>

definition same_prefix :: "bytes \<Rightarrow> bytes \<Rightarrow> bool" where
  "same_prefix s t \<longleftrightarrow> prefix (str_of s) (str_of t) \<or> prefix (str_of t) (str_of s)"

lemma same_prefix_simps [simp]:
  "same_prefix [] t" "same_prefix s []"
  "same_prefix (a # s) (b # t) \<longleftrightarrow> is_term a \<or> is_term b \<or> a = b \<and> same_prefix s t"
  by (auto simp: same_prefix_def str_of_def)

lemma same_prefix_sym: "same_prefix s t = same_prefix t s"
  by (auto simp: same_prefix_def)

lemma strncmp_loop_spec:
  "n \<le> length s1 \<Longrightarrow> n \<le> length s2 \<Longrightarrow> strncmp_loop s1 s2 n i =
     Some (if same_prefix (chunk i (n - i) s1) (chunk i (n - i) s2) then 0 else -1)"
proof (induction s1 s2 n i rule: strncmp_loop.induct)
  case (1 s1 s2 n i)
  show ?case
  proof (cases "i < n")
    case True
    have c: "chunk i (n - i) s = s ! i # chunk (Suc i) (n - Suc i) s" if "n \<le> length s" for s :: bytes
      using True that
      by (auto simp: chunk_def Cons_nth_drop_Suc[symmetric] take_Cons')
    show ?thesis
      using True "1.prems" "1.IH"[of "s1 ! i" "s2 ! i"]
      by (subst strncmp_loop.simps) (auto simp: c is_term_def)
  next
    case False
    then show ?thesis by (subst strncmp_loop.simps) (simp add: chunk_def)
  qed
qed

text \<open>
  C31: on two buffers of at least \<open>n\<close> bytes \<open>strncmp\<close> never leaves them, and returns 0
  exactly when one of the two strings, cut to \<open>n\<close> bytes, is a prefix of the other: unlike the C
  library's function it takes a name and any extension of it for equal.
\<close>

theorem strncmp_prefix:
  assumes "unat n \<le> length s1" "unat n \<le> length s2"
  shows "strncmp s1 s2 n =
    Some (if prefix (str_of (take (unat n) s1)) (str_of (take (unat n) s2))
           \<or> prefix (str_of (take (unat n) s2)) (str_of (take (unat n) s1)) then 0 else -1)"
  using strncmp_loop_spec[OF assms, of 0]
  by (simp add: strncmp_def chunk_def same_prefix_def)

theorem strncmp_prefix_witness:
  "strncmp [70,79,79,0] [70,79,79,66] 4 =
    Some (if prefix (str_of (take (unat (4::u32)) [70,79,79,0])) (str_of (take (unat (4::u32)) [70,79,79,66]))
           \<or> prefix (str_of (take (unat (4::u32)) [70,79,79,66])) (str_of (take (unat (4::u32)) [70,79,79,0]))
          then 0 else -1)"
  by (rule strncmp_prefix) simp_all

lemma strncmp_same_prefix:
  "unat n \<le> length s1 \<Longrightarrow> unat n \<le> length s2 \<Longrightarrow>
   strncmp s1 s2 n = Some (if same_prefix (take (unat n) s1) (take (unat n) s2) then 0 else -1)"
  using strncmp_loop_spec[of "unat n" s1 s2 0] by (simp add: strncmp_def chunk_def)

section \<open>memset\<close>

text \<open>The word loop and the byte loop that finishes a length not divisible by the word size.\<close>

fun memset_words :: "bytes \<Rightarrow> u32 \<Rightarrow> nat \<Rightarrow> nat \<Rightarrow> bytes option" where
  "memset_words p buf i 0 = Some p"
| "memset_words p buf i (Suc k) =
     (if 4 * i + 4 \<le> length p then memset_words (splice (4 * i) (bytes32 buf) p) buf (Suc i) k
      else None)"

fun memset_bytes :: "bytes \<Rightarrow> u8 \<Rightarrow> nat \<Rightarrow> nat \<Rightarrow> bytes option" where
  "memset_bytes p b i 0 = Some p"
| "memset_bytes p b i (Suc k) =
     (if i < length p then memset_bytes (p[i := b]) b (Suc i) k else None)"

definition memset :: "bytes \<Rightarrow> u32 \<Rightarrow> u32 \<Rightarrow> bytes option" where
  "memset ptr b len =
     (let buf = le32 (ucast b) (ucast b) (ucast b) (ucast b); n = unat len div 4
      in case memset_words ptr buf 0 n of
           None \<Rightarrow> None
         | Some p \<Rightarrow> memset_bytes p (ucast b) (4 * n) (unat len - 4 * n))"

lemma memset_words_spec:
  "4 * i + 4 * k \<le> length p \<Longrightarrow> memset_words p (le32 b b b b) i k =
     Some (splice (4 * i) (replicate (4 * k) b) p)"
proof (induction k arbitrary: p i)
  case 0
  then show ?case by (simp add: splice_def)
next
  case (Suc k)
  let ?p = "splice (4 * i) (bytes32 (le32 b b b b)) p"
  have b4: "bytes32 (le32 b b b b) = replicate 4 b"
    by (simp add: bytes32_def numeral_eq_Suc)
  have "splice (4 * Suc i) (replicate (4 * k) b) ?p = splice (4 * i) (replicate (4 * Suc k) b) p"
    using Suc.prems
    by (intro nth_equalityI) (auto simp: b4 splice_def nth_append min_def)
  then show ?case using Suc by simp
qed

lemma memset_bytes_spec:
  "i + k \<le> length p \<Longrightarrow> memset_bytes p b i k = Some (splice i (replicate k b) p)"
proof (induction k arbitrary: p i)
  case 0
  then show ?case by (simp add: splice_def)
next
  case (Suc k)
  have "splice (Suc i) (replicate k b) (p[i := b]) = splice i (replicate (Suc k) b) p"
    using Suc.prems
    by (intro nth_equalityI) (auto simp: splice_def nth_append nth_list_update nth_Cons' min_def)
  then show ?case using Suc by simp
qed

text \<open>
  \<open>memset\<close> on a buffer of at least \<open>len\<close> bytes writes exactly the first
  \<open>len\<close> bytes, each with the low byte of its argument, whether or not the length is a
  multiple of the word size.
\<close>

theorem memset_correct:
  assumes "unat len \<le> length p"
  shows "memset p b len = Some (replicate (unat len) (ucast b) @ drop (unat len) p)"
proof -
  define n where "n = unat len div 4"
  have le: "4 * n \<le> unat len" by (simp add: n_def)
  let ?p = "splice 0 (replicate (4 * n) (ucast b :: u8)) p"
  have w: "memset_words p (le32 (ucast b) (ucast b) (ucast b) (ucast b)) 0 n = Some ?p"
    using memset_words_spec[of 0 n p "ucast b"] le assms by simp
  have "memset_bytes ?p (ucast b) (4 * n) (unat len - 4 * n) =
      Some (splice (4 * n) (replicate (unat len - 4 * n) (ucast b)) ?p)"
    using le assms by (intro memset_bytes_spec) simp
  also have "splice (4 * n) (replicate (unat len - 4 * n) (ucast b :: u8)) ?p =
      replicate (unat len) (ucast b) @ drop (unat len) p"
    using le assms by (intro nth_equalityI) (auto simp: splice_def nth_append min_def)
  finally show ?thesis using w by (simp add: memset_def Let_def n_def)
qed

theorem memset_correct_witness:
  "memset [1,2,3,4,5,6] 0x107 5 =
     Some (replicate (unat (5::u32)) (ucast (0x107::u32)) @ drop (unat (5::u32)) [1,2,3,4,5,6])"
  by (rule memset_correct) simp

end
