(* ===== verification/Fat32_Layout.thy ===== *)
theory Fat32_Layout
  imports Prelude
begin

text \<open>
  The on-disk structures of \<open>src/pi-src/fat32.h\<close>: the packed structs as records, read from
  (and, for directory records, written to) the bytes of a 512-byte sector at the offsets the C
  layout gives their fields; the macros over directory attributes and cluster numbers; a sector
  of 16 directory records as a byte buffer whose records are read and overwritten in place.
\<close>

section \<open>Constants and macros\<close>

definition SD_SECTOR_SIZE :: nat where "SD_SECTOR_SIZE = 512"

definition FAT32_ROOT_CLUSTER_NO :: u32 where "FAT32_ROOT_CLUSTER_NO = 2"

definition FAT32_TERMINAL_CLUSTER_NO :: u32 where
  "FAT32_TERMINAL_CLUSTER_NO = drop_bit 4 (- 1)"

definition CLUSTER_NO :: "u32 \<Rightarrow> u32" where
  "CLUSTER_NO m = FAT32_TERMINAL_CLUSTER_NO AND m"

definition IS_RO :: "u8 \<Rightarrow> bool" where "IS_RO a \<longleftrightarrow> a AND push_bit 0 1 \<noteq> 0"
definition IS_HIDDEN :: "u8 \<Rightarrow> bool" where "IS_HIDDEN a \<longleftrightarrow> a AND push_bit 1 1 \<noteq> 0"
definition IS_SYSTEM :: "u8 \<Rightarrow> bool" where "IS_SYSTEM a \<longleftrightarrow> a AND push_bit 2 1 \<noteq> 0"
definition IS_VOLID :: "u8 \<Rightarrow> bool" where "IS_VOLID a \<longleftrightarrow> a AND push_bit 3 1 \<noteq> 0"
definition IS_DIR :: "u8 \<Rightarrow> bool" where "IS_DIR a \<longleftrightarrow> a AND push_bit 4 1 \<noteq> 0"
definition IS_ARCHIVE :: "u8 \<Rightarrow> bool" where "IS_ARCHIVE a \<longleftrightarrow> a AND push_bit 5 1 \<noteq> 0"
definition IS_LFN :: "u8 \<Rightarrow> bool" where "IS_LFN a \<longleftrightarrow> a = 0x0f"

lemma FAT32_TERMINAL_val: "FAT32_TERMINAL_CLUSTER_NO = 0x0FFFFFFF"
  by (simp add: FAT32_TERMINAL_CLUSTER_NO_def mask_eq_decr_exp)

lemma terminal_eq_mask: "FAT32_TERMINAL_CLUSTER_NO = mask 28"
  unfolding FAT32_TERMINAL_val by (rule sym, subst mask_eq_exp_minus_1) simp

lemma CLUSTER_NO_take_bit: "CLUSTER_NO m = take_bit 28 m"
  by (simp add: CLUSTER_NO_def terminal_eq_mask take_bit_eq_mask and.commute)

lemma CLUSTER_NO_idem [simp]: "CLUSTER_NO (CLUSTER_NO m) = CLUSTER_NO m"
  by (simp add: CLUSTER_NO_take_bit)

lemma CLUSTER_NO_less: "CLUSTER_NO m < 0x10000000"
  using take_bit_nat_less_exp[of 28 "unat m"]
  by (simp add: CLUSTER_NO_take_bit word_less_nat_alt unsigned_take_bit_eq)

lemma CLUSTER_NO_id: "m < 0x10000000 \<Longrightarrow> CLUSTER_NO m = m"
  by (rule unsigned_word_eqI [where ?'a = nat])
     (simp add: CLUSTER_NO_take_bit word_less_nat_alt unsigned_take_bit_eq take_bit_nat_eq_self)

lemma CLUSTER_NO_not_minus_1: "CLUSTER_NO m \<noteq> - 1"
  using CLUSTER_NO_less[of m] by auto

lemma CLUSTER_NO_minus_1 [simp]: "CLUSTER_NO (- 1) = 0x0FFFFFFF"
  by (simp add: CLUSTER_NO_def FAT32_TERMINAL_val)

section \<open>Packed structs\<close>

record partition_entry =
  boot_flag :: u8
  chs_begin :: bytes
  type_code :: u8
  chs_end :: bytes
  lba_begin :: u32
  num_sectors :: u32

record mbr =
  boot_code :: bytes
  partitions :: "partition_entry list"
  mbr_magic1 :: u8
  mbr_magic2 :: u8

record volume_id =
  bytes_per_sector :: u16
  sectors_per_cluster :: u8
  num_reserved_sectors :: u16
  num_fats :: u8
  sectors_per_fat :: u32
  root_dir_first_cluster :: u32
  magic1 :: u8
  magic2 :: u8

record fat_volume_data =
  fat_begin_lba :: u32
  cluster_begin_lba :: u32
  vd_sectors_per_cluster :: u8
  vd_root_dir_first_cluster :: u32

record dir_record =
  dir_name :: bytes
  dir_attr :: u8
  pad1 :: bytes
  dir_first_cluster_high :: u16
  pad2 :: bytes
  dir_first_cluster_low :: u16
  dir_file_size :: u32

definition IS_TERMINAL :: "dir_record \<Rightarrow> bool" where
  "IS_TERMINAL dr \<longleftrightarrow> dir_name dr ! 0 = 0"

definition decode_partition :: "bytes \<Rightarrow> partition_entry" where
  "decode_partition bs =
     \<lparr>boot_flag = bs ! 0, chs_begin = chunk 1 3 bs, type_code = bs ! 4,
      chs_end = chunk 5 3 bs, lba_begin = u32_at bs 8, num_sectors = u32_at bs 12\<rparr>"

definition decode_mbr :: "bytes \<Rightarrow> mbr" where
  "decode_mbr bs =
     \<lparr>boot_code = chunk 0 446 bs,
      partitions = map (\<lambda>i. decode_partition (chunk (446 + 16 * i) 16 bs)) [0..<4],
      mbr_magic1 = bs ! 510, mbr_magic2 = bs ! 511\<rparr>"

definition decode_volume_id :: "bytes \<Rightarrow> volume_id" where
  "decode_volume_id bs =
     \<lparr>bytes_per_sector = u16_at bs 11, sectors_per_cluster = bs ! 13,
      num_reserved_sectors = u16_at bs 14, num_fats = bs ! 16,
      sectors_per_fat = u32_at bs 36, root_dir_first_cluster = u32_at bs 44,
      magic1 = bs ! 510, magic2 = bs ! 511\<rparr>"

definition decode_dir_record :: "bytes \<Rightarrow> dir_record" where
  "decode_dir_record bs =
     \<lparr>dir_name = chunk 0 11 bs, dir_attr = bs ! 11, pad1 = chunk 12 8 bs,
      dir_first_cluster_high = u16_at bs 20, pad2 = chunk 22 4 bs,
      dir_first_cluster_low = u16_at bs 26, dir_file_size = u32_at bs 28\<rparr>"

definition encode_dir_record :: "dir_record \<Rightarrow> bytes" where
  "encode_dir_record dr =
     dir_name dr @ [dir_attr dr] @ pad1 dr @ bytes16 (dir_first_cluster_high dr) @ pad2 dr
     @ bytes16 (dir_first_cluster_low dr) @ bytes32 (dir_file_size dr)"

text \<open>The field widths the packed struct fixes.\<close>

definition wf_dir_record :: "dir_record \<Rightarrow> bool" where
  "wf_dir_record dr \<longleftrightarrow> length (dir_name dr) = 11 \<and> length (pad1 dr) = 8 \<and> length (pad2 dr) = 4"

lemma wf_decode_dir_record: "length bs = 32 \<Longrightarrow> wf_dir_record (decode_dir_record bs)"
  by (simp add: wf_dir_record_def decode_dir_record_def)

lemma length_encode_dir_record: "wf_dir_record dr \<Longrightarrow> length (encode_dir_record dr) = 32"
  by (simp add: wf_dir_record_def encode_dir_record_def)

lemma chunk_append:
  "length xs = off \<Longrightarrow> length ys = n \<Longrightarrow> chunk off n (xs @ ys @ zs) = ys"
  by (simp add: chunk_def)

lemma decode_encode_dir_record:
  assumes "wf_dir_record dr"
  shows "decode_dir_record (encode_dir_record dr) = dr"
proof -
  obtain n a p1 h p2 l sz where dr: "dr = \<lparr>dir_name = n, dir_attr = a, pad1 = p1,
      dir_first_cluster_high = h, pad2 = p2, dir_first_cluster_low = l, dir_file_size = sz\<rparr>"
    by (cases dr)
  have len: "length n = 11" "length p1 = 8" "length p2 = 4"
    using assms by (simp_all add: dr wf_dir_record_def)
  let ?bs = "n @ [a] @ p1 @ bytes16 h @ p2 @ bytes16 l @ bytes32 sz"
  have "chunk 0 11 ?bs = n" "chunk 12 8 ?bs = p1" "chunk 22 4 ?bs = p2" "?bs ! 11 = a"
    using len by (simp_all add: chunk_def nth_append)
  moreover have "u16_at ?bs 20 = h" "u16_at ?bs 26 = l" "u32_at ?bs 28 = sz"
    using len by (simp_all add: u16_at_def u32_at_def nth_append bytes16_def bytes32_def
        le32_bytes_Suc le16_bytes_Suc numeral_eq_Suc)
  ultimately show ?thesis
    by (simp add: dr encode_dir_record_def decode_dir_record_def)
qed

lemma encode_decode_dir_record:
  assumes "length bs = 32"
  shows "encode_dir_record (decode_dir_record bs) = bs"
proof -
  have two: "bytes16 (u16_at bs off) = chunk off 2 bs" if "off + 2 \<le> 32" for off
    using that assms by (simp add: bytes16_u16_at)
  have four: "bytes32 (u32_at bs 28) = chunk 28 4 bs"
    using assms by (simp add: bytes32_u32_at)
  have one: "[bs ! 11] = chunk 11 1 bs"
    using assms by (intro nth_equalityI) auto
  have app: "chunk off m bs @ chunk (off + m) n bs = chunk off (m + n) bs" for off m n
    by (simp add: chunk_def take_add add.commute)
  have "encode_dir_record (decode_dir_record bs) =
      chunk 0 11 bs @ chunk 11 1 bs @ chunk 12 8 bs @ chunk 20 2 bs @ chunk 22 4 bs
      @ chunk 26 2 bs @ chunk 28 4 bs"
    by (simp add: encode_dir_record_def decode_dir_record_def two four one)
  also have "\<dots> = chunk 0 32 bs"
    using app[of 26 2 4] app[of 22 4 6] app[of 20 2 10] app[of 12 8 12] app[of 11 1 20]
      app[of 0 11 21] by simp
  also have "\<dots> = bs" using assms by (simp add: chunk_def)
  finally show ?thesis .
qed

text \<open>
  The packed directory record is a faithful overlay of its 32 bytes: a record written to disk
  and read back is the same record, field by field, and 32 bytes read as a record and written
  back are the same bytes.
\<close>

theorem dir_record_roundtrip:
  assumes "wf_dir_record dr" "length bs = 32"
  shows "decode_dir_record (encode_dir_record dr) = dr
    \<and> encode_dir_record (decode_dir_record bs) = bs"
  using assms by (simp add: decode_encode_dir_record encode_decode_dir_record)

theorem dir_record_roundtrip_witness:
  "let dr = \<lparr>dir_name = replicate 11 65, dir_attr = 0x20,
      pad1 = replicate 8 0, dir_first_cluster_high = 1, pad2 = replicate 4 0,
      dir_first_cluster_low = 2, dir_file_size = 3\<rparr>; bs = replicate 32 7
   in decode_dir_record (encode_dir_record dr) = dr
    \<and> encode_dir_record (decode_dir_record bs) = bs"
  unfolding Let_def by (rule dir_record_roundtrip) (simp_all add: wf_dir_record_def)

section \<open>A directory sector\<close>

text \<open>
  The routines keep a directory sector in an array \<open>records\<close> of 16 records overlaid on the 512
  bytes read from disk: \<open>rec_at\<close> is \<open>records[i]\<close>, \<open>set_rec\<close> writes one record back
  and \<open>mark_terminal\<close> clears the first byte of a record.
\<close>

definition records_per_sector :: nat where "records_per_sector = 16"

definition rec_at :: "bytes \<Rightarrow> nat \<Rightarrow> dir_record" where
  "rec_at buf i = decode_dir_record (chunk (32 * i) 32 buf)"

definition set_rec :: "bytes \<Rightarrow> nat \<Rightarrow> dir_record \<Rightarrow> bytes" where
  "set_rec buf i dr = splice (32 * i) (encode_dir_record dr) buf"

definition mark_terminal :: "bytes \<Rightarrow> nat \<Rightarrow> bytes" where
  "mark_terminal buf i = buf[32 * i := 0]"

lemma wf_rec_at [buf_simps]: "length buf = 512 \<Longrightarrow> i < 16 \<Longrightarrow> wf_dir_record (rec_at buf i)"
  by (simp add: rec_at_def wf_decode_dir_record)

lemma length_set_rec [buf_simps]:
  "length buf = 512 \<Longrightarrow> i < 16 \<Longrightarrow> wf_dir_record dr \<Longrightarrow> length (set_rec buf i dr) = 512"
  by (simp add: set_rec_def length_encode_dir_record)

lemma length_mark_terminal [buf_simps, simp]: "length (mark_terminal buf i) = length buf"
  by (simp add: mark_terminal_def)

lemma rec_at_set_rec [buf_simps]:
  assumes "length buf = 512" "i < 16" "j < 16" "wf_dir_record dr"
  shows "rec_at (set_rec buf i dr) j = (if i = j then dr else rec_at buf j)"
proof (cases "i = j")
  case True
  then show ?thesis
    using assms by (simp add: rec_at_def set_rec_def length_encode_dir_record decode_encode_dir_record)
next
  case False
  then have "32 * j + 32 \<le> 32 * i \<or> 32 * i + 32 \<le> 32 * j" by linarith
  then show ?thesis
    using False assms
    by (simp add: rec_at_def set_rec_def chunk_splice_other length_encode_dir_record)
qed

lemma rec_at_mark_terminal_other [buf_simps]:
  assumes "length buf = 512" "i < 16" "j < 16" "i \<noteq> j"
  shows "rec_at (mark_terminal buf i) j = rec_at buf j"
proof -
  have "32 * i < 32 * j \<or> 32 * j + 32 \<le> 32 * i" using assms by linarith
  then show ?thesis using assms by (simp add: rec_at_def mark_terminal_def chunk_update_other)
qed

lemma terminal_mark_terminal [buf_simps]:
  assumes "length buf = 512" "i < 16"
  shows "IS_TERMINAL (rec_at (mark_terminal buf i) i)"
  using assms
  by (simp add: IS_TERMINAL_def rec_at_def mark_terminal_def chunk_update_in decode_dir_record_def)

lemma attr_mark_terminal [buf_simps]:
  assumes "length buf = 512" "i < 16"
  shows "dir_attr (rec_at (mark_terminal buf i) i) = dir_attr (rec_at buf i)"
  using assms
  by (simp add: rec_at_def mark_terminal_def chunk_update_in decode_dir_record_def)

text \<open>The first cluster of a record, put together from its two halves by overlaying.\<close>

definition first_cluster :: "dir_record \<Rightarrow> u32" where
  "first_cluster dr =
     ucast (dir_first_cluster_low dr) OR push_bit 16 (ucast (dir_first_cluster_high dr))"

definition low_half :: "u32 \<Rightarrow> u16" where "low_half c = ucast c"
definition high_half :: "u32 \<Rightarrow> u16" where "high_half c = ucast (drop_bit 16 c)"

lemma first_cluster_halves:
  assumes "dir_first_cluster_low dr = low_half c" "dir_first_cluster_high dr = high_half c"
  shows "first_cluster dr = c"
proof (rule bit_word_eqI)
  fix n assume "n < LENGTH(32)"
  then show "bit (first_cluster dr) n = bit c n"
    by (auto simp: first_cluster_def assms low_half_def high_half_def bit_simps)
qed

end
