(* ===== verification/Block_Device.thy ===== *)
theory Block_Device
  imports Prelude
begin

text \<open>
  The interface between the FAT32 code and the SD driver: the two function pointers
  \<open>fat32_init\<close> receives (\<open>readsector\<close> and \<open>writesector\<close>) as state-passing functions of
  the device, and the contract \<open>block_device\<close> the FAT32 code relies on. A read returns the
  C result, the new contents of the caller's buffer and the device; a write the C result and the
  device. The contract speaks of single sectors (the FAT32 code always passes \<open>num = 1\<close>), of the
  sectors \<open>good\<close> the device can address, and of the abstract disk \<open>view\<close>.
\<close>

type_synonym 'd read_fn = "'d \<Rightarrow> u32 \<Rightarrow> bytes \<Rightarrow> u32 \<Rightarrow> int \<times> bytes \<times> 'd"
type_synonym 'd write_fn = "'d \<Rightarrow> bytes \<Rightarrow> u32 \<Rightarrow> u32 \<Rightarrow> int \<times> 'd"

locale block_device =
  fixes rd :: "'d read_fn"
    and wr :: "'d write_fn"
    and view :: "'d \<Rightarrow> u32 \<Rightarrow> bytes"
    and good :: "u32 \<Rightarrow> bool"
    and invar :: "'d \<Rightarrow> bool"
  assumes rd_data: "invar d \<Longrightarrow> good lba \<Longrightarrow> length buf = 512 \<Longrightarrow>
      fst (snd (rd d lba buf 1)) = view d lba"
    and rd_view: "invar d \<Longrightarrow> good lba \<Longrightarrow> length buf = 512 \<Longrightarrow>
      view (snd (snd (rd d lba buf 1))) = view d"
    and rd_invar: "invar d \<Longrightarrow> good lba \<Longrightarrow> length buf = 512 \<Longrightarrow>
      invar (snd (snd (rd d lba buf 1)))"
    and wr_view: "invar d \<Longrightarrow> good lba \<Longrightarrow> length buf = 512 \<Longrightarrow>
      view (snd (wr d buf lba 1)) = (view d)(lba := buf)"
    and wr_invar: "invar d \<Longrightarrow> good lba \<Longrightarrow> length buf = 512 \<Longrightarrow>
      invar (snd (wr d buf lba 1))"
    and view_length: "invar d \<Longrightarrow> good lba \<Longrightarrow> length (view d lba) = 512"
begin

lemmas device_laws = rd_data rd_view rd_invar wr_view wr_invar view_length

lemma read_after_write:
  assumes "invar d" "good lba" "length buf = 512" "length buf' = 512"
  shows "fst (snd (rd (snd (wr d buf lba 1)) lba buf' 1)) = buf"
  using assms by (simp add: device_laws)

lemma read_after_other_write:
  assumes "invar d" "good lba" "good lba'" "lba \<noteq> lba'" "length buf = 512" "length buf' = 512"
  shows "fst (snd (rd (snd (wr d buf lba' 1)) lba buf' 1)) = view d lba"
  using assms by (simp add: device_laws)

end

section \<open>A disk in memory\<close>

text \<open>
  The least device with the contract, a function from sector numbers to sectors; the witnesses of
  the FAT32 properties run on it. The SD driver is shown to keep the contract where it is modelled.
\<close>

definition ram_read :: "(u32 \<Rightarrow> bytes) read_fn" where
  "ram_read d lba buf num = (512, d lba, d)"

definition ram_write :: "(u32 \<Rightarrow> bytes) write_fn" where
  "ram_write d buf lba num = (512, d(lba := buf))"

definition ram_invar :: "(u32 \<Rightarrow> bytes) \<Rightarrow> bool" where
  "ram_invar d \<longleftrightarrow> (\<forall>lba. length (d lba) = 512)"

interpretation ram: block_device ram_read ram_write "\<lambda>d. d" "\<lambda>lba. True" ram_invar
  by unfold_locales (auto simp: ram_read_def ram_write_def ram_invar_def)

end
