(* ===== verification/Fat32_Table.thy ===== *)
theory Fat32_Table
  imports Fat32_Layout Block_Device
begin

text \<open>
  The FAT half of \<open>src/pi-src/fat32.c\<close>: the static variables of the file as a record, the
  in-memory copy of the table, following a chain, finding, marking and linking free clusters,
  and writing the dirty table sector back to disk.

  The table lives in the memory that starts at the linker symbol \<open>kernel_end\<close>, which belongs to
  no C object. It is modelled as the 2^30 32-bit words of the 32-bit address space counted from
  there: \<open>FAT[k]\<close> is the word at \<open>ucast k :: 30 word\<close>, because the address arithmetic
  of the CPU wraps at 2^32 bytes. The model keeps that memory apart from the other statics.
\<close>

section \<open>State\<close>

type_synonym widx = "30 word"

record 'd fs =
  readsector :: "'d read_fn"
  writesector :: "'d write_fn"
  did_init :: bool
  partitions_in_use :: u8
  chosen_partition :: nat
  boot_sector :: bytes
  all_vol_ids :: "bytes list"
  vol_data :: "fat_volume_data list"
  mem :: "widx \<Rightarrow> u32"
  FAT_end :: widx
  dev :: 'd

definition fat_at :: "'d fs \<Rightarrow> u32 \<Rightarrow> u32" where
  "fat_at s k = mem s (ucast k)"

definition fat_set :: "'d fs \<Rightarrow> u32 \<Rightarrow> u32 \<Rightarrow> 'd fs" where
  "fat_set s k v = s\<lparr>mem := (mem s)(ucast k := v)\<rparr>"

text \<open>The \<open>n\<close> words from word \<open>a\<close> on, as the bytes a sector transfer moves.\<close>

definition mem_bytes :: "'d fs \<Rightarrow> widx \<Rightarrow> nat \<Rightarrow> bytes" where
  "mem_bytes s a n = bytes_of_words (map (\<lambda>j. mem s (a + of_nat j)) [0..<n])"

definition mem_store :: "'d fs \<Rightarrow> widx \<Rightarrow> bytes \<Rightarrow> 'd fs" where
  "mem_store s a bs =
     s\<lparr>mem := (\<lambda>x. let j = unat (x - a); ws = words_of_bytes bs
                    in if j < length ws then ws ! j else mem s x)\<rparr>"

text \<open>Words stored away from the end of the address space.\<close>

lemma mem_store_range:
  assumes "unat a + n \<le> 2 ^ 30" "length bs = 4 * n"
  shows "mem (mem_store s a bs) x =
    (if unat a \<le> unat x \<and> unat x < unat a + n then u32_at bs (4 * (unat x - unat a)) else mem s x)"
proof -
  have w: "length (words_of_bytes bs) = n" using assms(2) by simp
  have "unat (x - a) = (if unat a \<le> unat x then unat x - unat a else unat x + 2 ^ 30 - unat a)"
    by (simp add: unat_sub_if_size word_size)
  then show ?thesis
    using assms by (auto simp: mem_store_def Let_def w)
qed

text \<open>The volume data of the chosen partition, and the field the directory loops bound by.\<close>

definition cur_vol :: "'d fs \<Rightarrow> fat_volume_data" where
  "cur_vol s = vol_data s ! chosen_partition s"

definition cur_vol_id :: "'d fs \<Rightarrow> volume_id" where
  "cur_vol_id s = decode_volume_id (all_vol_ids s ! chosen_partition s)"

text \<open>Everything but the memory and the device: no routine after \<open>fat32_init\<close> changes it.\<close>

definition statics where
  "statics s = (readsector s, writesector s, did_init s, partitions_in_use s,
     chosen_partition s, boot_sector s, all_vol_ids s, vol_data s, FAT_end s)"

named_theorems frame_simps "what the FAT32 operations leave alone"

lemma statics_upd [frame_simps, simp]:
  "statics (s\<lparr>mem := m\<rparr>) = statics s" "statics (s\<lparr>dev := d\<rparr>) = statics s"
  "statics (fat_set s k v) = statics s" "statics (mem_store s a bs) = statics s"
  by (simp_all add: statics_def fat_set_def mem_store_def)

lemma statics_eqD:
  assumes "statics s' = statics s"
  shows "readsector s' = readsector s" "writesector s' = writesector s"
    "did_init s' = did_init s" "chosen_partition s' = chosen_partition s"
    "all_vol_ids s' = all_vol_ids s" "vol_data s' = vol_data s" "FAT_end s' = FAT_end s"
    "cur_vol s' = cur_vol s" "cur_vol_id s' = cur_vol_id s"
  using assms by (simp_all add: statics_def cur_vol_def cur_vol_id_def)

section \<open>Sector transfers\<close>

definition write_sector :: "'d fs \<Rightarrow> bytes \<Rightarrow> u32 \<Rightarrow> 'd fs" where
  "write_sector s buf lba = s\<lparr>dev := snd (writesector s (dev s) buf lba 1)\<rparr>"

definition read_sector :: "'d fs \<Rightarrow> u32 \<Rightarrow> bytes \<Rightarrow> bytes \<times> 'd fs" where
  "read_sector s lba buf =
     (let (r, buf', d) = readsector s (dev s) lba buf 1 in (buf', s\<lparr>dev := d\<rparr>))"

lemma write_sector_frame [frame_simps, simp]:
  "statics (write_sector s buf lba) = statics s" "mem (write_sector s buf lba) = mem s"
  "fat_at (write_sector s buf lba) = fat_at s"
  by (simp_all add: write_sector_def fat_at_def fun_eq_iff)

lemma read_sector_frame [frame_simps, simp]:
  "statics (snd (read_sector s lba buf)) = statics s"
  "mem (snd (read_sector s lba buf)) = mem s"
  "fat_at (snd (read_sector s lba buf)) = fat_at s"
  by (simp_all add: read_sector_def fat_at_def fun_eq_iff split: prod.split)

section \<open>The table operations\<close>

definition fat32_next_cluster :: "'d fs \<Rightarrow> u32 \<Rightarrow> u32 res" where
  "fat32_next_cluster s cur_cluster_no =
     (if \<not> did_init s then Inl (Panic (''Attempted to read FAT before fat32 initialization.'' @ nl))
      else Inr (CLUSTER_NO (fat_at s cur_cluster_no)))"

text \<open>
  The scan runs a pointer from \<open>FAT + 2\<close> until it equals \<open>FAT_end\<close>; the pointer wraps with the
  address space, so it meets \<open>FAT_end\<close> after at most 2^30 steps.
\<close>

lemma word_dist_step:
  fixes e p :: "'a::len word"
  assumes "p \<noteq> e"
  shows "unat (e - (p + 1)) < unat (e - p)"
proof -
  have "e - p \<noteq> 0" using assms by simp
  then have "unat (e - p - 1) = unat (e - p) - 1" by (rule unat_minus_one)
  moreover have "0 < unat (e - p)" using \<open>e - p \<noteq> 0\<close> by (simp add: unat_gt_0)
  ultimately show ?thesis by (simp add: algebra_simps)
qed

function find_free_from :: "'d fs \<Rightarrow> widx \<Rightarrow> u32" where
  "find_free_from s p =
     (if p = FAT_end s then - 1
      else if mem s p = 0 then ucast p
      else find_free_from s (p + 1))"
  by pat_completeness auto

termination
  by (relation "measure (\<lambda>(s, p). unat (FAT_end s - p))") (auto intro: word_dist_step)

declare find_free_from.simps [simp del]

definition find_free_local_cluster :: "'d fs \<Rightarrow> u32 res" where
  "find_free_local_cluster s =
     (if \<not> did_init s
      then Inl (Panic (''Attempted to inspect the filesystem before initialization.'' @ nl))
      else Inr (find_free_from s 2))"

definition cluster_no_to_lba :: "'d fs \<Rightarrow> u32 \<Rightarrow> u32" where
  "cluster_no_to_lba s cluster_no =
     cluster_begin_lba (cur_vol s)
     + (cluster_no - vd_root_dir_first_cluster (cur_vol s)) * ucast (vd_sectors_per_cluster (cur_vol s))"

definition words_per_sector :: u32 where "words_per_sector = 128"

text \<open>Writing the 128 words of the table sector an entry belongs to.\<close>

definition flush_entry :: "'d fs \<Rightarrow> u32 \<Rightarrow> 'd fs" where
  "flush_entry s index_in_fat =
     (let sector_in_fat = index_in_fat div words_per_sector
      in write_sector s (mem_bytes s (ucast (sector_in_fat * words_per_sector)) 128)
           (sector_in_fat + fat_begin_lba (cur_vol s)))"

definition blank_sector :: bytes where "blank_sector = replicate 512 0"

definition alloc_free_local_cluster :: "'d fs \<Rightarrow> (u32 \<times> 'd fs) res" where
  "alloc_free_local_cluster s =
     (case find_free_local_cluster s of
        Inl f \<Rightarrow> Inl f
      | Inr out \<Rightarrow>
          (let s1 = fat_set s (CLUSTER_NO out) (CLUSTER_NO (- 1));
               s2 = flush_entry s1 (CLUSTER_NO out);
               s3 = write_sector s2 blank_sector (cluster_no_to_lba s2 (CLUSTER_NO out))
           in Inr (out, s3)))"

definition fat32_point_fat :: "'d fs \<Rightarrow> u32 \<Rightarrow> u32 \<Rightarrow> 'd fs" where
  "fat32_point_fat s prev next_no =
     flush_entry (fat_set s prev next_no) (CLUSTER_NO prev)"

lemma flush_entry_frame [frame_simps, simp]:
  "statics (flush_entry s k) = statics s" "mem (flush_entry s k) = mem s"
  "fat_at (flush_entry s k) = fat_at s"
  by (simp_all add: flush_entry_def Let_def)

lemma fat32_point_fat_frame [frame_simps, simp]:
  "statics (fat32_point_fat s p n) = statics s"
  "mem (fat32_point_fat s p n) = (mem s)(ucast p := n)"
  by (simp_all add: fat32_point_fat_def) (simp add: fat_set_def)

end
