(* ===== verification/Fat32_Alloc.thy ===== *)
theory Fat32_Alloc
  imports Fat32_Table
begin

text \<open>
  Cluster chains of \<open>src/pi-src/fat32.c\<close>: what finding a free cluster, marking it, linking it and
  building a whole file do to the table in memory. The contract \<open>link_table\<close> says what linking
  one entry promises to the code that builds and follows chains; it is interpreted on
  \<open>fat32_point_fat\<close>.
\<close>

section \<open>Chains\<close>

text \<open>\<open>chain nx cs\<close>: following \<open>nx\<close> from the head visits exactly \<open>cs\<close> and then ends.\<close>

fun chain :: "(u32 \<Rightarrow> u32) \<Rightarrow> u32 list \<Rightarrow> bool" where
  "chain nx [] \<longleftrightarrow> False"
| "chain nx [c] \<longleftrightarrow> nx c = FAT32_TERMINAL_CLUSTER_NO"
| "chain nx (c # d # cs) \<longleftrightarrow> nx c = d \<and> chain nx (d # cs)"

lemma chain_cong:
  "(\<And>c. c \<in> set cs \<Longrightarrow> nx c = nx' c) \<Longrightarrow> chain nx cs = chain nx' cs"
  by (induction nx cs rule: chain.induct) auto

lemma chain_snoc:
  assumes "chain nx (cs @ [p])" "p \<notin> set cs" "nx' p = c"
    and "nx' c = FAT32_TERMINAL_CLUSTER_NO" "\<And>k. k \<in> set cs \<Longrightarrow> nx' k = nx k"
  shows "chain nx' (cs @ [p, c])"
  using assms
proof (induction cs)
  case Nil
  then show ?case by simp
next
  case (Cons a cs)
  have "chain nx (cs @ [p])" using Cons.prems(1) by (cases cs) auto
  then have IH: "chain nx' (cs @ [p, c])" using Cons by simp
  show ?case
  proof (cases cs)
    case Nil
    then show ?thesis using Cons.prems IH by simp
  next
    case (Cons b bs)
    then show ?thesis using \<open>chain nx ((a # cs) @ [p])\<close> IH
      \<open>\<And>k. k \<in> set (a # cs) \<Longrightarrow> nx' k = nx k\<close> by simp
  qed
qed

definition next_of :: "'d fs \<Rightarrow> u32 \<Rightarrow> u32" where
  "next_of s k = CLUSTER_NO (fat_at s k)"

lemma fat32_next_cluster_ok: "did_init s \<Longrightarrow> fat32_next_cluster s c = Inr (next_of s c)"
  by (simp add: fat32_next_cluster_def next_of_def)

locale link_table =
  fixes get :: "'s \<Rightarrow> u32 \<Rightarrow> u32"
    and point :: "'s \<Rightarrow> u32 \<Rightarrow> u32 \<Rightarrow> 's"
    and valid :: "u32 \<Rightarrow> bool"
  assumes get_point_same: "valid k \<Longrightarrow> get (point s k v) k = CLUSTER_NO v"
    and get_point_other: "valid k \<Longrightarrow> valid j \<Longrightarrow> j \<noteq> k \<Longrightarrow> get (point s k v) j = get s j"
begin

lemma chain_point_other:
  assumes "chain (get s) cs" "valid k" "k \<notin> set cs" "\<And>c. c \<in> set cs \<Longrightarrow> valid c"
  shows "chain (get (point s k v)) cs"
proof -
  have "get s c = get (point s k v) c" if "c \<in> set cs" for c
    using that assms by (metis get_point_other)
  then show ?thesis using assms(1) chain_cong[of cs "get s" "get (point s k v)"] by blast
qed

lemma chain_extend:
  assumes "chain (get s) (cs @ [p])" "distinct (cs @ [p, c])"
    and "get s c = FAT32_TERMINAL_CLUSTER_NO" "CLUSTER_NO c = c"
    and "\<And>k. k \<in> set (cs @ [p, c]) \<Longrightarrow> valid k"
  shows "chain (get (point s p c)) (cs @ [p, c])"
proof (rule chain_snoc)
  show "chain (get s) (cs @ [p])" "p \<notin> set cs" using assms by auto
  show "get (point s p c) p = c" using assms by (simp add: get_point_same)
  show "get (point s p c) c = FAT32_TERMINAL_CLUSTER_NO"
    using assms by (subst get_point_other) auto
  show "get (point s p c) k = get s k" if "k \<in> set cs" for k
    using that assms by (intro get_point_other) auto
qed

end

text \<open>Entries the CPU addresses without wrapping.\<close>

definition idx_ok :: "u32 \<Rightarrow> bool" where "idx_ok k \<longleftrightarrow> k < 0x40000000"

lemma unat_ucast_idx: "idx_ok k \<Longrightarrow> unat (ucast k :: widx) = unat k"
  by (simp add: idx_ok_def word_less_nat_alt unsigned_ucast_eq take_bit_nat_eq_self)

lemma ucast_idx_inj: "idx_ok j \<Longrightarrow> idx_ok k \<Longrightarrow> (ucast j :: widx) = ucast k \<longleftrightarrow> j = k"
  by (metis unat_ucast_idx unsigned_word_eqI)

lemma fat_at_set:
  "idx_ok j \<Longrightarrow> idx_ok k \<Longrightarrow> fat_at (fat_set s k v) j = (if j = k then v else fat_at s j)"
  by (simp add: fat_at_def fat_set_def ucast_idx_inj)

lemma fat_at_point:
  "idx_ok j \<Longrightarrow> idx_ok k \<Longrightarrow> fat_at (fat32_point_fat s k v) j = (if j = k then v else fat_at s j)"
  by (simp add: fat32_point_fat_def fat_at_set)

interpretation fat_links: link_table next_of fat32_point_fat idx_ok
  by unfold_locales (simp_all add: next_of_def fat_at_point)

section \<open>Finding a free cluster\<close>

definition free_clusters :: "'d fs \<Rightarrow> u32 set" where
  "free_clusters s = {c. 2 \<le> c \<and> unat c < unat (FAT_end s) \<and> fat_at s c = 0}"

lemma find_free_from_spec:
  assumes "p \<le> FAT_end s"
  shows "(find_free_from s p = - 1 \<and> (\<forall>q. p \<le> q \<and> q < FAT_end s \<longrightarrow> mem s q \<noteq> 0))
    \<or> (\<exists>q. find_free_from s p = ucast q \<and> p \<le> q \<and> q < FAT_end s \<and> mem s q = 0
          \<and> (\<forall>q'. p \<le> q' \<and> q' < q \<longrightarrow> mem s q' \<noteq> 0))"
  using assms
proof (induction s p rule: find_free_from.induct)
  case (1 s p)
  show ?case
  proof (cases "p = FAT_end s \<or> mem s p = 0")
    case True
    then show ?thesis
      using "1.prems" by (subst (1 2) find_free_from.simps) (auto simp: order.order_iff_strict)
  next
    case False
    then have less: "p < FAT_end s" using "1.prems" by (simp add: order.strict_iff_order)
    then have step: "p + 1 \<le> FAT_end s" by (rule inc_le)
    have succ: "q = p \<or> p + 1 \<le> q" if "p \<le> q" for q
      using that by (metis inc_le order.order_iff_strict)
    have le: "p \<le> q" if "p + 1 \<le> q" for q
    proof -
      have "p \<noteq> - 1" using less by auto
      then have "1 + p \<noteq> 0" by (metis add.commute add_eq_0_iff minus_minus)
      then show ?thesis using that by (simp add: word_le_nat_alt unatSuc add.commute)
    qed
    have eq: "find_free_from s p = find_free_from s (p + 1)"
      using False by (subst find_free_from.simps) simp
    show ?thesis
      using "1.IH"[OF _ _ step] False le succ unfolding eq by metis
  qed
qed

lemma find_free_spec:
  assumes "2 \<le> unat (FAT_end s)"
  shows "find_free_from s 2 = - 1 \<and> free_clusters s = {}
    \<or> find_free_from s 2 \<in> free_clusters s \<and> (\<forall>c \<in> free_clusters s. find_free_from s 2 \<le> c)"
proof -
  have le: "2 \<le> FAT_end s" using assms by (simp add: word_le_nat_alt)
  have idx: "2 \<le> (ucast c :: widx) \<and> (ucast c :: widx) < FAT_end s \<and> mem s (ucast c) = 0
      \<and> unat (ucast c :: widx) = unat c" if "c \<in> free_clusters s" for c
  proof -
    have "idx_ok c"
      using that unsigned_less[of "FAT_end s", where ?'a = nat]
      by (auto simp: free_clusters_def idx_ok_def word_less_nat_alt)
    then show ?thesis
      using that by (auto simp: free_clusters_def unat_ucast_idx word_le_nat_alt word_less_nat_alt
          fat_at_def)
  qed
  consider (none) "find_free_from s 2 = - 1" "\<forall>q. 2 \<le> q \<and> q < FAT_end s \<longrightarrow> mem s q \<noteq> 0"
    | (some) q where "find_free_from s 2 = ucast q" "2 \<le> q" "q < FAT_end s" "mem s q = 0"
        "\<forall>q'. 2 \<le> q' \<and> q' < q \<longrightarrow> mem s q' \<noteq> 0"
    using find_free_from_spec[OF le] by blast
  then show ?thesis
  proof cases
    case none
    then show ?thesis using idx by (auto simp: free_clusters_def)
  next
    case some
    have q: "unat (ucast q :: u32) = unat q"
      by (simp add: unsigned_ucast_eq take_bit_nat_eq_self order.strict_trans[OF unsigned_less])
    have rt: "ucast (ucast q :: u32) = q" by (rule ucast_up_ucast_id) (simp add: is_up)
    have in_free: "ucast q \<in> free_clusters s"
      using some(2-4) rt q
      by (simp add: free_clusters_def fat_at_def word_le_nat_alt word_less_nat_alt)
    have "ucast q \<le> c" if "c \<in> free_clusters s" for c
      using idx[OF that] some(5) q by (metis word_le_nat_alt not_le word_less_nat_alt)
    then show ?thesis using some(1) in_free by simp
  qed
qed

text \<open>
  On an initialised filesystem \<open>find_free_local_cluster\<close> never panics, and returns the
  least cluster number from 2 on, below the end of the in-memory table, whose entry is 0; it
  returns -1 exactly when there is none.
\<close>

theorem find_free_local_cluster_least:
  assumes "did_init s" "2 \<le> unat (FAT_end s)"
  shows "find_free_local_cluster s = Inr (- 1) \<and> free_clusters s = {}
    \<or> (\<exists>c \<in> free_clusters s. find_free_local_cluster s = Inr c \<and> (\<forall>c' \<in> free_clusters s. c \<le> c'))"
  using find_free_spec[OF assms(2)] assms(1) by (auto simp: find_free_local_cluster_def)

theorem find_free_local_cluster_least_witness:
  "let s = \<lparr>readsector = ram_read, writesector = ram_write, did_init = True,
      partitions_in_use = 1, chosen_partition = 0, boot_sector = [], all_vol_ids = [], vol_data = [],
      mem = (\<lambda>x. if x = 3 then 0 else 7), FAT_end = 5, dev = (\<lambda>_. [])\<rparr> in
    find_free_local_cluster s = Inr (- 1) \<and> free_clusters s = {}
    \<or> (\<exists>c \<in> free_clusters s. find_free_local_cluster s = Inr c \<and> (\<forall>c' \<in> free_clusters s. c \<le> c'))"
  unfolding Let_def by (rule find_free_local_cluster_least) simp_all

section \<open>Marking and linking free clusters\<close>

text \<open>
  The table is usable: initialised, with at least the two reserved entries, and small enough that
  no entry's number needs the top four bits or is the end-of-chain mark itself.
\<close>

definition table_ok :: "'d fs \<Rightarrow> bool" where
  "table_ok s \<longleftrightarrow> did_init s \<and> 2 \<le> unat (FAT_end s) \<and> unat (FAT_end s) \<le> 0x0FFFFFFF"

definition in_table :: "'d fs \<Rightarrow> u32 \<Rightarrow> bool" where
  "in_table s c \<longleftrightarrow> 2 \<le> c \<and> unat c < unat (FAT_end s)"

lemma table_ok_statics: "statics s' = statics s \<Longrightarrow> table_ok s' = table_ok s"
  by (frule statics_eqD(3), drule statics_eqD(7)) (simp add: table_ok_def)

lemma in_table_statics: "statics s' = statics s \<Longrightarrow> in_table s' c = in_table s c"
  by (drule statics_eqD(7)) (simp add: in_table_def)

lemma free_in_table: "c \<in> free_clusters s \<Longrightarrow> in_table s c"
  by (simp add: free_clusters_def in_table_def)

lemma in_tableD:
  assumes "table_ok s" "in_table s c"
  shows "idx_ok c" "CLUSTER_NO c = c" "c \<noteq> 0" "c \<noteq> FAT32_TERMINAL_CLUSTER_NO" "c \<noteq> - 1"
    "c < 0x0FFFFFFF"
proof -
  show less: "c < 0x0FFFFFFF"
    using assms by (auto simp: table_ok_def in_table_def word_less_nat_alt)
  then show "idx_ok c" "CLUSTER_NO c = c"
    by (auto simp: idx_ok_def word_less_nat_alt intro!: CLUSTER_NO_id)
  show "c \<noteq> 0" using assms by (auto simp: in_table_def)
  show "c \<noteq> FAT32_TERMINAL_CLUSTER_NO" "c \<noteq> - 1"
    using less by (auto simp: FAT32_TERMINAL_val)
qed

lemma in_table_ucast_inj:
  "table_ok s \<Longrightarrow> in_table s c \<Longrightarrow> in_table s d \<Longrightarrow> (ucast c :: widx) = ucast d \<longleftrightarrow> c = d"
  by (simp add: ucast_idx_inj in_tableD)

lemma free_clusters_update:
  assumes "table_ok s" "statics s' = statics s" "mem s' = (mem s)(ucast c := v)" "in_table s c" "v \<noteq> 0"
  shows "free_clusters s' = free_clusters s - {c}"
proof -
  have "fat_at s' d = (if d = c then v else fat_at s d)" if "in_table s d" for d
    using assms in_table_ucast_inj[OF assms(1) that assms(4)] by (auto simp: fat_at_def)
  then show ?thesis
    using assms(5) statics_eqD(7)[OF assms(2)] by (auto simp: free_clusters_def in_table_def split: if_splits)
qed

lemma alloc_cluster_spec:
  assumes "table_ok s" "free_clusters s \<noteq> {}"
  shows "\<exists>c s'. alloc_free_local_cluster s = Inr (c, s') \<and> c \<in> free_clusters s
    \<and> (\<forall>d \<in> free_clusters s. c \<le> d)
    \<and> statics s' = statics s \<and> mem s' = (mem s)(ucast c := FAT32_TERMINAL_CLUSTER_NO)"
proof -
  have ok: "did_init s" "2 \<le> unat (FAT_end s)" using assms(1) by (simp_all add: table_ok_def)
  define c where "c = find_free_from s 2"
  have c: "c \<in> free_clusters s" "\<forall>d \<in> free_clusters s. c \<le> d"
    using find_free_spec[OF ok(2)] assms(2) by (auto simp: c_def)
  then have cc: "CLUSTER_NO c = c"
    using assms(1) by (blast intro: in_tableD free_in_table)
  show ?thesis
    using ok c cc
    by (simp add: alloc_free_local_cluster_def find_free_local_cluster_def c_def[symmetric] Let_def
        FAT32_TERMINAL_val) (simp add: fat_set_def)
qed

fun alloc_chain :: "nat \<Rightarrow> u32 \<Rightarrow> 'd fs \<Rightarrow> 'd fs res" where
  "alloc_chain 0 prev_cluster s = Inr s"
| "alloc_chain (Suc num) prev_cluster s =
     (case alloc_free_local_cluster s of
        Inl f \<Rightarrow> Inl f
      | Inr (allocd, s1) \<Rightarrow>
          alloc_chain num allocd (fat32_point_fat s1 (CLUSTER_NO prev_cluster) (CLUSTER_NO allocd)))"

text \<open>
  The directory record is filled in before and after the first allocation; the remaining clusters
  are linked one by one. Reading \<open>name\<close> past its object and \<open>--num_clusters\<close> on the least
  \<open>int\<close> are undefined in C.
\<close>

definition alloc_local_file_at ::
  "'d fs \<Rightarrow> dir_record \<Rightarrow> int \<Rightarrow> bytes \<Rightarrow> (u32 \<times> dir_record \<times> 'd fs) res" where
  "alloc_local_file_at s dr num_clusters name =
     (if length name < 11 \<or> num_clusters = - (2 ^ 31) then Inl Undef
      else
        let dr1 = dr\<lparr>dir_name := take 11 name\<rparr> in
        case alloc_free_local_cluster s of
          Inl f \<Rightarrow> Inl f
        | Inr (allocd, s1) \<Rightarrow>
            let dr2 = dr1\<lparr>dir_first_cluster_low := low_half allocd,
                          dir_first_cluster_high := high_half allocd, dir_attr := 0\<rparr> in
            case alloc_chain (nat (num_clusters - 1)) allocd s1 of
              Inl f \<Rightarrow> Inl f
            | Inr s2 \<Rightarrow> Inr (allocd, dr2, s2))"

lemma alloc_chain_spec:
  assumes "table_ok s" "n \<le> card (free_clusters s)"
    and "chain (next_of s) (pre @ [prev])" "distinct (pre @ [prev])"
    and "\<And>k. k \<in> set (pre @ [prev]) \<Longrightarrow> in_table s k \<and> k \<notin> free_clusters s"
  shows "\<exists>cs s'. alloc_chain n prev s = Inr s' \<and> length cs = n \<and> distinct cs
    \<and> set cs \<subseteq> free_clusters s \<and> chain (next_of s') (pre @ prev # cs)
    \<and> (\<forall>x. x \<notin> ucast ` set (prev # cs) \<longrightarrow> mem s' x = mem s x)
    \<and> free_clusters s' = free_clusters s - set cs \<and> statics s' = statics s
    \<and> (\<forall>e \<in> set cs. \<forall>d \<in> free_clusters s'. e \<le> d)"
  using assms
proof (induction n arbitrary: s pre prev)
  case 0
  then show ?case by (intro exI[of _ "[]"] exI[of _ s]) simp
next
  case (Suc n)
  note tok = Suc.prems(1)
  have prev: "in_table s prev" "prev \<notin> free_clusters s" using Suc.prems(5) by auto
  have "free_clusters s \<noteq> {}" using Suc.prems(2) by auto
  then obtain c s1 where a: "alloc_free_local_cluster s = Inr (c, s1)" and c: "c \<in> free_clusters s"
    and least: "\<forall>d \<in> free_clusters s. c \<le> d"
    and s1: "statics s1 = statics s" "mem s1 = (mem s)(ucast c := FAT32_TERMINAL_CLUSTER_NO)"
    using alloc_cluster_spec[OF tok] by metis
  define s2 where "s2 = fat32_point_fat s1 prev c"
  have ct: "in_table s c" using c by (rule free_in_table)
  note cD = in_tableD[OF tok ct] and prevD = in_tableD[OF tok prev(1)]
  have s2: "statics s2 = statics s" "mem s2 = (mem s1)(ucast prev := c)"
    by (simp_all add: s2_def s1)
  have tok2: "table_ok s2" and tok1: "table_ok s1"
    using table_ok_statics[OF s2(1)] table_ok_statics[OF s1(1)] tok by simp_all
  have f1: "free_clusters s1 = free_clusters s - {c}"
    using free_clusters_update[OF tok s1 ct] by (simp add: FAT32_TERMINAL_val)
  have f2: "free_clusters s2 = free_clusters s - {c}"
    using free_clusters_update[OF tok1 _ s2(2) _ cD(3)] s2(1) s1(1) prev f1
      in_table_statics[OF s1(1)] by auto
  have idx: "idx_ok k" if "k \<in> set (pre @ [prev, c])" for k
    using that Suc.prems(5) in_tableD(1)[OF tok] cD(1) by auto
  have dist: "distinct (pre @ [prev, c])" using Suc.prems(4,5) c by auto
  have n1: "next_of s1 k = next_of s k" if "k \<in> set (pre @ [prev])" for k
  proof -
    have "(ucast k :: widx) \<noteq> ucast c"
      using that dist idx[of k] cD(1) by (subst ucast_idx_inj) auto
    then show ?thesis by (simp add: next_of_def fat_at_def s1)
  qed
  have ch1: "chain (next_of s1) (pre @ [prev])"
    using Suc.prems(3) chain_cong[of "pre @ [prev]" "next_of s1" "next_of s"] n1 by blast
  have ce: "next_of s1 c = FAT32_TERMINAL_CLUSTER_NO"
    by (simp add: next_of_def fat_at_def s1 FAT32_TERMINAL_val CLUSTER_NO_id)
  have ch2: "chain (next_of s2) ((pre @ [prev]) @ [c])"
    using fat_links.chain_extend[OF ch1 dist ce cD(2) idx] by (simp add: s2_def)
  have card: "n \<le> card (free_clusters s2)"
    using Suc.prems(2) c by (simp add: f2)
  have inv2: "in_table s2 k \<and> k \<notin> free_clusters s2" if "k \<in> set ((pre @ [prev]) @ [c])" for k
    using that Suc.prems(5) ct c by (auto simp: f2 in_table_statics[OF s2(1)])
  obtain cs s' where r: "alloc_chain n c s2 = Inr s'" "length cs = n" "distinct cs"
    "set cs \<subseteq> free_clusters s2" "chain (next_of s') ((pre @ [prev]) @ c # cs)"
    "\<forall>x. x \<notin> ucast ` set (c # cs) \<longrightarrow> mem s' x = mem s2 x"
    "free_clusters s' = free_clusters s2 - set cs" "statics s' = statics s2"
    "\<forall>e \<in> set cs. \<forall>d \<in> free_clusters s'. e \<le> d"
    using Suc.IH[OF tok2 card ch2 _ inv2] dist by auto
  have "alloc_chain (Suc n) prev s = Inr s'"
    using a r(1) by (simp add: prevD(2) cD(2) s2_def)
  moreover have "distinct (c # cs)" "set (c # cs) \<subseteq> free_clusters s"
    using r f2 c by auto
  moreover have "\<forall>x. x \<notin> ucast ` set (prev # c # cs) \<longrightarrow> mem s' x = mem s x"
    using r(6) by (auto simp: s2 s1)
  moreover have "\<forall>e \<in> set (c # cs). \<forall>d \<in> free_clusters s'. e \<le> d"
    using r(7,9) f2 least by auto
  ultimately show ?case
    using r f2 s2(1) by (intro exI[of _ "c # cs"] exI[of _ s']) auto
qed

lemma alloc_local_file_at_spec:
  assumes "table_ok s" "1 \<le> num" "nat num \<le> card (free_clusters s)" "11 \<le> length name"
  shows "\<exists>c cs dr' s'. alloc_local_file_at s dr num name = Inr (c, dr', s')
    \<and> length (c # cs) = nat num \<and> distinct (c # cs) \<and> set (c # cs) \<subseteq> free_clusters s
    \<and> chain (next_of s') (c # cs)
    \<and> (\<forall>x. x \<notin> ucast ` set (c # cs) \<longrightarrow> mem s' x = mem s x)
    \<and> free_clusters s' = free_clusters s - set (c # cs) \<and> statics s' = statics s
    \<and> (\<forall>e \<in> set (c # cs). \<forall>d \<in> free_clusters s'. e \<le> d) \<and> (\<forall>d \<in> free_clusters s. c \<le> d)
    \<and> dr' = dr\<lparr>dir_name := take 11 name, dir_first_cluster_low := low_half c,
               dir_first_cluster_high := high_half c, dir_attr := 0\<rparr>"
proof -
  have "free_clusters s \<noteq> {}" using assms(2,3) by auto
  then obtain c s1 where a: "alloc_free_local_cluster s = Inr (c, s1)" and c: "c \<in> free_clusters s"
    and least: "\<forall>d \<in> free_clusters s. c \<le> d"
    and s1: "statics s1 = statics s" "mem s1 = (mem s)(ucast c := FAT32_TERMINAL_CLUSTER_NO)"
    using alloc_cluster_spec[OF assms(1)] by metis
  have ct: "in_table s c" using c by (rule free_in_table)
  have f1: "free_clusters s1 = free_clusters s - {c}"
    using free_clusters_update[OF assms(1) s1 ct] by (simp add: FAT32_TERMINAL_val)
  have tok1: "table_ok s1" using table_ok_statics[OF s1(1)] assms(1) by simp
  have ch: "chain (next_of s1) ([] @ [c])"
    by (simp add: next_of_def fat_at_def s1 FAT32_TERMINAL_val CLUSTER_NO_id)
  have n: "nat (num - 1) \<le> card (free_clusters s1)"
    using assms(2,3) c by (simp add: f1)
  have inv: "in_table s1 k \<and> k \<notin> free_clusters s1" if "k \<in> set ([] @ [c])" for k
    using that ct by (simp add: f1 in_table_statics[OF s1(1)])
  obtain cs s' where r: "alloc_chain (nat (num - 1)) c s1 = Inr s'" "length cs = nat (num - 1)"
    "distinct cs" "set cs \<subseteq> free_clusters s1" "chain (next_of s') ([] @ c # cs)"
    "\<forall>x. x \<notin> ucast ` set (c # cs) \<longrightarrow> mem s' x = mem s1 x"
    "free_clusters s' = free_clusters s1 - set cs" "statics s' = statics s1"
    "\<forall>e \<in> set cs. \<forall>d \<in> free_clusters s'. e \<le> d"
    using alloc_chain_spec[OF tok1 n ch _ inv] by auto
  have "alloc_local_file_at s dr num name = Inr (c, dr\<lparr>dir_name := take 11 name,
      dir_first_cluster_low := low_half c, dir_first_cluster_high := high_half c,
      dir_attr := 0\<rparr>, s')"
    using a r(1) assms(2,4) by (simp add: alloc_local_file_at_def Let_def)
  moreover have "\<forall>e \<in> set (c # cs). \<forall>d \<in> free_clusters s'. e \<le> d"
    using r(7,9) f1 least by auto
  ultimately show ?thesis
    using r f1 s1 c least assms(2) by (intro exI[of _ c] exI[of _ cs]) auto
qed

end
