(* ===== verification/Fat32_Disk.thy ===== *)
theory Fat32_Disk
  imports Fat32_Alloc
begin

text \<open>
  What the table operations of \<open>src/pi-src/fat32.c\<close> do to the disk, over any device that keeps
  the \<open>block_device\<close> contract: the table sector an operation touches is written through, other
  table sectors and the data area keep what they held (but for the first sector of a newly
  allocated cluster, which is cleared), and clusters map to disjoint ranges of sectors.
\<close>

section \<open>Geometry of a mounted volume\<close>

definition fat_sectors :: "'d fs \<Rightarrow> nat" where
  "fat_sectors s = (unat (FAT_end s) + 127) div 128"

definition spc :: "'d fs \<Rightarrow> nat" where
  "spc s = unat (vd_sectors_per_cluster (cur_vol s))"

text \<open>
  The layout every FAT32 volume has: the table before the data area, the root directory at cluster
  2, the whole data area addressable with 32-bit sector numbers, and the two copies of the
  sectors-per-cluster field the code keeps equal.
\<close>

definition geometry_ok :: "'d fs \<Rightarrow> bool" where
  "geometry_ok s \<longleftrightarrow> table_ok s
     \<and> vd_root_dir_first_cluster (cur_vol s) = FAT32_ROOT_CLUSTER_NO
     \<and> sectors_per_cluster (cur_vol_id s) = vd_sectors_per_cluster (cur_vol s)
     \<and> 0 < spc s
     \<and> unat (fat_begin_lba (cur_vol s)) + fat_sectors s \<le> unat (cluster_begin_lba (cur_vol s))
     \<and> unat (cluster_begin_lba (cur_vol s)) + (unat (FAT_end s) - 2) * spc s < 2 ^ 32"

text \<open>The sectors of the volume the routines may touch: the table and the data area.\<close>

definition volume_lbas :: "'d fs \<Rightarrow> u32 set" where
  "volume_lbas s = {lba. unat (fat_begin_lba (cur_vol s)) \<le> unat lba
     \<and> unat lba < unat (cluster_begin_lba (cur_vol s)) + (unat (FAT_end s) - 2) * spc s}"

lemma geometry_statics:
  assumes "statics s' = statics s"
  shows "geometry_ok s' = geometry_ok s" "volume_lbas s' = volume_lbas s" "spc s' = spc s"
    "fat_sectors s' = fat_sectors s" "cluster_no_to_lba s' c = cluster_no_to_lba s c"
  using statics_eqD[OF assms] table_ok_statics[OF assms]
  by (simp_all add: geometry_ok_def volume_lbas_def spc_def fat_sectors_def cluster_no_to_lba_def)

lemma unat_lba:
  assumes "geometry_ok s" "in_table s c" "k < spc s"
  shows "unat (cluster_no_to_lba s c + of_nat k) =
           unat (cluster_begin_lba (cur_vol s)) + (unat c - 2) * spc s + k"
    and "unat (cluster_begin_lba (cur_vol s)) + (unat c - 2) * spc s + k
           < unat (cluster_begin_lba (cur_vol s)) + (unat (FAT_end s) - 2) * spc s"
proof -
  let ?b = "unat (cluster_begin_lba (cur_vol s))"
  have c: "2 \<le> unat c" "unat c < unat (FAT_end s)"
    using assms(2) by (simp_all add: in_table_def word_le_nat_alt)
  have "(unat c - 2) * spc s + spc s = (unat c - 2 + 1) * spc s" by (simp add: algebra_simps)
  also have "\<dots> \<le> (unat (FAT_end s) - 2) * spc s" using c by (intro mult_le_mono1) linarith
  finally have m: "(unat c - 2) * spc s + spc s \<le> (unat (FAT_end s) - 2) * spc s" .
  then show less: "?b + (unat c - 2) * spc s + k < ?b + (unat (FAT_end s) - 2) * spc s"
    using assms(3) by linarith
  have w: "?b + (unat (FAT_end s) - 2) * spc s < 2 ^ 32" using assms(1) by (simp add: geometry_ok_def)
  have eq: "cluster_no_to_lba s c + of_nat k = of_nat (?b + (unat c - 2) * spc s + k)"
    using assms(1) c(1)
    by (simp add: cluster_no_to_lba_def geometry_ok_def FAT32_ROOT_CLUSTER_NO_def spc_def of_nat_diff)
  then show "unat (cluster_no_to_lba s c + of_nat k) = ?b + (unat c - 2) * spc s + k"
    unfolding eq using less w by (intro unat_of_nat_small) simp
qed

lemma lba_inj:
  assumes "geometry_ok s" "in_table s c" "in_table s c'" "k < spc s" "k' < spc s"
  shows "cluster_no_to_lba s c + of_nat k = cluster_no_to_lba s c' + of_nat k'
      \<longleftrightarrow> c = c' \<and> k = k'"
proof -
  note l = unat_lba[OF assms(1,2,4)] and l' = unat_lba[OF assms(1,3,5)]
  have "(unat c - 2) * spc s + k = (unat c' - 2) * spc s + k' \<longleftrightarrow> unat c - 2 = unat c' - 2 \<and> k = k'"
    using assms(4,5) by (rule mult_add_inj)
  then show ?thesis
    using l l' assms(2,3)
    by (auto simp: word_unat_eq_iff in_table_def word_le_nat_alt)
qed

lemma lba_data_area:
  assumes "geometry_ok s" "in_table s c" "k < spc s"
  shows "cluster_begin_lba (cur_vol s) \<le> cluster_no_to_lba s c + of_nat k"
    "cluster_no_to_lba s c + of_nat k \<in> volume_lbas s"
  using unat_lba[OF assms] assms(1) by (auto simp: word_le_nat_alt volume_lbas_def geometry_ok_def)

text \<open>
  A small mounted volume on the in-memory disk, for witnesses: a table of 130 entries at sectors
  40 and 41, clusters of two sectors from sector 50 on; \<open>demo0\<close> is freshly formatted, with an
  empty root directory of one cluster.
\<close>

definition demo_vol :: fat_volume_data where
  "demo_vol = \<lparr>fat_begin_lba = 40, cluster_begin_lba = 50, vd_sectors_per_cluster = 2,
     vd_root_dir_first_cluster = 2\<rparr>"

definition demo_fs :: "(u32 \<Rightarrow> bytes) \<Rightarrow> (widx \<Rightarrow> u32) \<Rightarrow> (u32 \<Rightarrow> bytes) fs" where
  "demo_fs d m = \<lparr>readsector = ram_read, writesector = ram_write, did_init = True,
     partitions_in_use = 1, chosen_partition = 0, boot_sector = replicate 512 0,
     all_vol_ids = [(replicate 512 0)[12 := 2, 13 := 2], replicate 512 0, replicate 512 0, replicate 512 0],
     vol_data = [demo_vol, demo_vol, demo_vol, demo_vol], mem = m, FAT_end = 130, dev = d\<rparr>"

definition demo0 :: "(u32 \<Rightarrow> bytes) fs" where
  "demo0 = demo_fs (\<lambda>_. replicate 512 0) (\<lambda>x. if x = 2 then 0x0FFFFFFF else 0)"

lemma demo_table_ok: "table_ok (demo_fs d m)"
  by (simp add: table_ok_def demo_fs_def)

lemma demo_in_table: "in_table (demo_fs d m) c \<longleftrightarrow> 2 \<le> c \<and> c < 130"
  by (simp add: in_table_def demo_fs_def word_less_nat_alt)

lemma demo_spc: "spc (demo_fs d m) = 2"
  by (simp add: spc_def cur_vol_def demo_fs_def demo_vol_def)

lemma demo_geometry_ok: "geometry_ok (demo_fs d m)"
  by (simp add: geometry_ok_def demo_table_ok demo_spc)
     (simp add: demo_fs_def cur_vol_def cur_vol_id_def demo_vol_def decode_volume_id_def
        fat_sectors_def FAT32_ROOT_CLUSTER_NO_def)

text \<open>
  C30: on a volume with the usual layout \<open>cluster_no_to_lba\<close> sends the sectors of different
  clusters to different disk sectors, all inside the data area (so never into the table), with no
  32-bit overflow.
\<close>

theorem cluster_no_to_lba_injective:
  assumes "geometry_ok s" "in_table s c" "in_table s c'" "k < spc s" "k' < spc s"
  shows "(cluster_no_to_lba s c + of_nat k = cluster_no_to_lba s c' + of_nat k'
      \<longleftrightarrow> c = c' \<and> k = k')
    \<and> unat (cluster_no_to_lba s c + of_nat k) =
        unat (cluster_begin_lba (cur_vol s)) + (unat c - 2) * spc s + k
    \<and> cluster_no_to_lba s c + of_nat k \<in> volume_lbas s"
  using lba_inj[OF assms] lba_data_area[OF assms(1,2,4)] unat_lba(1)[OF assms(1,2,4)] by simp

theorem cluster_no_to_lba_injective_witness:
  "(cluster_no_to_lba demo0 7 + of_nat 1 = cluster_no_to_lba demo0 8 + of_nat 0
      \<longleftrightarrow> (7 :: u32) = 8 \<and> (1 :: nat) = 0)
    \<and> unat (cluster_no_to_lba demo0 7 + of_nat 1) =
        unat (cluster_begin_lba (cur_vol demo0)) + (unat (7 :: u32) - 2) * spc demo0 + 1
    \<and> cluster_no_to_lba demo0 7 + of_nat 1 \<in> volume_lbas demo0"
  unfolding demo0_def
  by (rule cluster_no_to_lba_injective) (simp_all add: demo_geometry_ok demo_in_table demo_spc)

section \<open>Write-through\<close>

definition attached ::
  "'d read_fn \<Rightarrow> 'd write_fn \<Rightarrow> ('d \<Rightarrow> bool) \<Rightarrow> (u32 \<Rightarrow> bool) \<Rightarrow> 'd fs \<Rightarrow> bool" where
  "attached rd wr invar good s \<longleftrightarrow>
     geometry_ok s \<and> readsector s = rd \<and> writesector s = wr \<and> invar (dev s)
     \<and> (\<forall>lba \<in> volume_lbas s. good lba)"

text \<open>The copy of table sector \<open>i\<close> in memory and the sector on disk hold the same bytes.\<close>

definition mirrored :: "('d \<Rightarrow> u32 \<Rightarrow> bytes) \<Rightarrow> 'd fs \<Rightarrow> nat \<Rightarrow> bool" where
  "mirrored view s i \<longleftrightarrow>
     view (dev s) (fat_begin_lba (cur_vol s) + of_nat i) = mem_bytes s (of_nat (128 * i)) 128"

lemma length_mem_bytes [buf_simps, simp]: "length (mem_bytes s a n) = 4 * n"
  by (simp add: mem_bytes_def)

lemma fat_lba:
  assumes "geometry_ok s" "i < fat_sectors s"
  shows "unat (fat_begin_lba (cur_vol s) + of_nat i) = unat (fat_begin_lba (cur_vol s)) + i"
    and "fat_begin_lba (cur_vol s) + of_nat i \<in> volume_lbas s"
    and "unat (fat_begin_lba (cur_vol s)) + i < unat (cluster_begin_lba (cur_vol s))"
proof -
  let ?f = "fat_begin_lba (cur_vol s)" and ?b = "cluster_begin_lba (cur_vol s)"
  show lt: "unat ?f + i < unat ?b" using assms by (simp add: geometry_ok_def)
  then have "unat ?f + i < 2 ^ 32" using unsigned_less[of ?b, where ?'a = nat] by simp
  then have "unat (of_nat (unat ?f + i) :: u32) = unat ?f + i" by (intro unat_of_nat_small) simp
  then show eq: "unat (?f + of_nat i) = unat ?f + i" by simp
  show "?f + of_nat i \<in> volume_lbas s" using eq lt by (simp add: volume_lbas_def)
qed

lemma fat_sector_of:
  assumes "geometry_ok s" "in_table s c"
  shows "unat c div 128 < fat_sectors s"
    and "c div words_per_sector + fat_begin_lba (cur_vol s)
           = fat_begin_lba (cur_vol s) + of_nat (unat c div 128)"
    and "ucast (c div words_per_sector * words_per_sector) = (of_nat (128 * (unat c div 128)) :: widx)"
proof -
  have c: "unat c < unat (FAT_end s)" using assms(2) by (simp add: in_table_def)
  then have "unat c div 128 \<le> (unat (FAT_end s) - 1) div 128" by (intro div_le_mono) simp
  also have "(unat (FAT_end s) - 1) div 128 < (unat (FAT_end s) + 127) div 128" using c by linarith
  finally show "unat c div 128 < fat_sectors s" by (simp add: fat_sectors_def)
  let ?q = "unat c div 128"
  have "unat (c div words_per_sector) = ?q" by (simp add: words_per_sector_def unat_div)
  then have d: "c div words_per_sector = of_nat ?q" by (metis of_nat_unat ucast_id)
  then show "c div words_per_sector + fat_begin_lba (cur_vol s)
      = fat_begin_lba (cur_vol s) + of_nat ?q" by simp
  have m: "c div words_per_sector * words_per_sector = of_nat (128 * ?q)"
    unfolding d by (simp add: words_per_sector_def)
  have "128 * ?q < 2 ^ LENGTH(32)" using unsigned_less[of c, where ?'a = nat] by simp
  then have "unat (c div words_per_sector * words_per_sector) = 128 * ?q"
    unfolding m by (rule unat_of_nat_small)
  then show "ucast (c div words_per_sector * words_per_sector) = (of_nat (128 * ?q) :: widx)"
    by (metis of_nat_unat)
qed

text \<open>Changing one table entry leaves every other sector of the table as it was.\<close>

lemma mem_bytes_other:
  assumes "in_table s c" "table_ok s" "i \<noteq> unat c div 128" "i < fat_sectors s"
    and "\<And>x. x \<noteq> ucast c \<Longrightarrow> mem s' x = mem s x"
  shows "mem_bytes s' (of_nat (128 * i)) 128 = mem_bytes s (of_nat (128 * i)) 128"
proof -
  have "mem s' (of_nat (128 * i) + of_nat j) = mem s (of_nat (128 * i) + of_nat j)" if "j < 128" for j
  proof (rule assms(5))
    have "(unat (FAT_end s) + 127) div 128 \<le> (0x0FFFFFFF + 127) div 128"
      using assms(2) by (intro div_le_mono) (simp add: table_ok_def)
    then have fs: "128 * i + j < 2 ^ LENGTH(30)"
      using assms(4) that by (simp add: fat_sectors_def)
    have "unat (of_nat (128 * i + j) :: widx) = 128 * i + j" using fs by (rule unat_of_nat_small)
    moreover have "unat (ucast c :: widx) = unat c"
      using in_tableD(1)[OF assms(2,1)] by (rule unat_ucast_idx)
    moreover have "128 * i + j \<noteq> unat c" using assms(3) that by auto
    ultimately have "(of_nat (128 * i + j) :: widx) \<noteq> ucast c" by metis
    then show "(of_nat (128 * i) + of_nat j :: widx) \<noteq> ucast c" by simp
  qed
  then show ?thesis
    by (auto simp: mem_bytes_def intro!: arg_cong [where f = bytes_of_words])
qed

context block_device
begin

lemma write_sector_attached:
  assumes "attached rd wr invar good s" "lba \<in> volume_lbas s" "length buf = 512"
  shows "view (dev (write_sector s buf lba)) = (view (dev s))(lba := buf)"
    and "attached rd wr invar good (write_sector s buf lba)"
proof -
  have g: "good lba" "invar (dev s)" "writesector s = wr" using assms by (auto simp: attached_def)
  then show "view (dev (write_sector s buf lba)) = (view (dev s))(lba := buf)"
    using assms(3) by (simp add: write_sector_def wr_view)
  have st: "statics (write_sector s buf lba) = statics s" by simp
  show "attached rd wr invar good (write_sector s buf lba)"
    using assms(1) statics_eqD(1,2)[OF st] geometry_statics(1,2)[OF st] g assms(3)
    by (simp add: attached_def) (simp add: write_sector_def wr_invar)
qed

lemma read_sector_attached:
  assumes "attached rd wr invar good s" "lba \<in> volume_lbas s" "length buf = 512"
  shows "fst (read_sector s lba buf) = view (dev s) lba"
    and "view (dev (snd (read_sector s lba buf))) = view (dev s)"
    and "attached rd wr invar good (snd (read_sector s lba buf))"
    and "length (view (dev s) lba) = 512"
proof -
  have g: "good lba" "invar (dev s)" "readsector s = rd" using assms by (auto simp: attached_def)
  show "fst (read_sector s lba buf) = view (dev s) lba"
    "view (dev (snd (read_sector s lba buf))) = view (dev s)"
    using g assms(3) by (simp_all add: read_sector_def split_beta rd_data rd_view)
  show "length (view (dev s) lba) = 512" using g by (simp add: view_length)
  have st: "statics (snd (read_sector s lba buf)) = statics s" by simp
  show "attached rd wr invar good (snd (read_sector s lba buf))"
    using assms(1) statics_eqD(1,2)[OF st] geometry_statics(1,2)[OF st] g assms(3)
    by (simp add: attached_def) (simp add: read_sector_def split_beta rd_invar)
qed

lemma flush_entry_attached:
  assumes "attached rd wr invar good s" "in_table s c"
  shows "view (dev (flush_entry s c)) =
      (view (dev s))(fat_begin_lba (cur_vol s) + of_nat (unat c div 128) :=
                       mem_bytes s (of_nat (128 * (unat c div 128))) 128)"
    and "attached rd wr invar good (flush_entry s c)"
proof -
  have g: "geometry_ok s" using assms by (simp add: attached_def)
  note f = fat_sector_of[OF g assms(2)]
  note w = write_sector_attached[OF assms(1) fat_lba(2)[OF g f(1)], of "mem_bytes s (of_nat (128 * (unat c div 128))) 128"]
  show "view (dev (flush_entry s c)) =
      (view (dev s))(fat_begin_lba (cur_vol s) + of_nat (unat c div 128) :=
                       mem_bytes s (of_nat (128 * (unat c div 128))) 128)"
    "attached rd wr invar good (flush_entry s c)"
    using w unfolding flush_entry_def Let_def f(2,3) by simp_all
qed

end

text \<open>
  What a table operation may do to the disk: the data sectors of clusters outside \<open>C\<close> keep their
  contents, and a table sector that agreed with memory still does.
\<close>

definition disk_step :: "('d \<Rightarrow> u32 \<Rightarrow> bytes) \<Rightarrow> u32 set \<Rightarrow> 'd fs \<Rightarrow> 'd fs \<Rightarrow> bool" where
  "disk_step view C s s' \<longleftrightarrow> statics s' = statics s
     \<and> (\<forall>d k. in_table s d \<and> d \<notin> C \<and> k < spc s \<longrightarrow>
          view (dev s') (cluster_no_to_lba s d + of_nat k) = view (dev s) (cluster_no_to_lba s d + of_nat k))
     \<and> (\<forall>i < fat_sectors s. mirrored view s i \<longrightarrow> mirrored view s' i)"

lemma disk_step_refl [simp]: "disk_step view C s s"
  by (simp add: disk_step_def)

lemma disk_step_data:
  "disk_step view C s s' \<Longrightarrow> in_table s d \<Longrightarrow> d \<notin> C \<Longrightarrow> k < spc s \<Longrightarrow>
    view (dev s') (cluster_no_to_lba s d + of_nat k) = view (dev s) (cluster_no_to_lba s d + of_nat k)"
  by (simp add: disk_step_def)

lemma disk_step_trans:
  assumes "disk_step view C s s'" "disk_step view D s' s''"
  shows "disk_step view (C \<union> D) s s''"
proof -
  have st: "statics s' = statics s" using assms(1) by (simp add: disk_step_def)
  show ?thesis
    using assms geometry_statics(3-5)[OF st] in_table_statics[OF st]
    unfolding disk_step_def by auto
qed

text \<open>The sectors that allocating the clusters \<open>U\<close> may write; all others keep what they hold.\<close>

definition kept :: "('d \<Rightarrow> u32 \<Rightarrow> bytes) \<Rightarrow> u32 set \<Rightarrow> 'd fs \<Rightarrow> 'd fs \<Rightarrow> bool" where
  "kept view L s s' \<longleftrightarrow> (\<forall>lba. lba \<notin> L \<longrightarrow> view (dev s') lba = view (dev s) lba)"

definition cluster_writes :: "'d fs \<Rightarrow> u32 set \<Rightarrow> u32 set" where
  "cluster_writes s U =
     (\<Union>c \<in> U. {fat_begin_lba (cur_vol s) + of_nat (unat c div 128), cluster_no_to_lba s c})"

lemma kept_refl [simp]: "kept view L s s"
  by (simp add: kept_def)

lemma kept_trans: "kept view L s s' \<Longrightarrow> kept view M s' s'' \<Longrightarrow> L \<union> M \<subseteq> N \<Longrightarrow> kept view N s s''"
  unfolding kept_def by (metis Un_iff subsetD)

lemma cluster_writes_statics: "statics s' = statics s \<Longrightarrow> cluster_writes s' U = cluster_writes s U"
  using geometry_statics(5)[of s' s] statics_eqD(8)[of s' s] by (simp add: cluster_writes_def)

lemma cluster_writes_mono: "U \<subseteq> V \<Longrightarrow> cluster_writes s U \<subseteq> cluster_writes s V"
  unfolding cluster_writes_def by blast

lemma fat_lba_inj:
  assumes "geometry_ok s" "i < fat_sectors s" "j < fat_sectors s"
  shows "fat_begin_lba (cur_vol s) + of_nat i = fat_begin_lba (cur_vol s) + of_nat j \<longleftrightarrow> i = j"
  using fat_lba(1)[OF assms(1,2)] fat_lba(1)[OF assms(1,3)] by (metis add_left_cancel)

lemma data_lba_not_fat:
  assumes "geometry_ok s" "i < fat_sectors s" "in_table s d" "k < spc s"
  shows "cluster_no_to_lba s d + of_nat k \<noteq> fat_begin_lba (cur_vol s) + of_nat i"
  using fat_lba(1,3)[OF assms(1,2)] lba_data_area(1)[OF assms(1,3,4)]
  by (metis word_le_nat_alt not_le)

lemma mirrored_cong:
  "statics s' = statics s \<Longrightarrow> view (dev s') (fat_begin_lba (cur_vol s) + of_nat i) = mem_bytes s' (of_nat (128 * i)) 128
   \<Longrightarrow> mirrored view s' i"
  using statics_eqD(8)[of s' s] by (simp add: mirrored_def)

context block_device
begin

lemma set_entry_attached:
  assumes "attached rd wr invar good s" "in_table s c"
    and "s2 = flush_entry (fat_set s c v) c"
  shows "attached rd wr invar good s2" "disk_step view {} s s2"
    "mirrored view s2 (unat c div 128)"
    "\<And>lba. lba \<noteq> fat_begin_lba (cur_vol s) + of_nat (unat c div 128) \<Longrightarrow>
      view (dev s2) lba = view (dev s) lba"
proof -
  let ?s1 = "fat_set s c v" and ?q = "unat c div 128" and ?f = "fat_begin_lba (cur_vol s)"
  have g: "geometry_ok s" "table_ok s" using assms(1) by (simp_all add: attached_def geometry_ok_def)
  have st1: "statics ?s1 = statics s" by simp
  have cv: "cur_vol ?s1 = cur_vol s" by (rule statics_eqD(8)[OF st1])
  have a1: "attached rd wr invar good ?s1"
    using assms(1) statics_eqD(1,2)[OF st1] geometry_statics(1,2)[OF st1]
    by (simp add: attached_def) (simp add: fat_set_def)
  have i1: "in_table ?s1 c" using assms(2) in_table_statics[OF st1] by simp
  note fl = flush_entry_attached[OF a1 i1, folded assms(3), unfolded cv]
  have d1: "dev ?s1 = dev s" and m1: "mem s2 = mem ?s1"
    by (simp_all add: fat_set_def assms(3))
  have st: "statics s2 = statics s" by (simp add: assms(3))
  have mb: "mem_bytes s2 a n = mem_bytes ?s1 a n" for a n by (simp add: mem_bytes_def m1)
  note q = fat_sector_of(1)[OF g(1) assms(2)]
  show "attached rd wr invar good s2" by (rule fl(2))
  show other: "view (dev s2) lba = view (dev s) lba" if "lba \<noteq> ?f + of_nat ?q" for lba
    using that by (simp add: fl(1) d1)
  show mq: "mirrored view s2 ?q"
    by (rule mirrored_cong[OF st]) (simp add: fl(1) mb)
  have "mirrored view s2 i" if "i < fat_sectors s" "mirrored view s i" for i
  proof (cases "i = ?q")
    case False
    have "mem_bytes ?s1 (of_nat (128 * i)) 128 = mem_bytes s (of_nat (128 * i)) 128"
      by (rule mem_bytes_other[OF assms(2) g(2) False that(1)]) (simp add: fat_set_def)
    then show ?thesis
      using that False other fat_lba_inj[OF g(1) that(1) q]
      by (intro mirrored_cong[OF st]) (simp add: mb mirrored_def)
  qed (use mq in simp)
  then show "disk_step view {} s s2"
    using other data_lba_not_fat[OF g(1) q] st by (simp add: disk_step_def)
qed

lemma point_fat_attached:
  assumes "attached rd wr invar good s" "in_table s c"
  shows "attached rd wr invar good (fat32_point_fat s c v)"
    "disk_step view {} s (fat32_point_fat s c v)"
    "mirrored view (fat32_point_fat s c v) (unat c div 128)"
    "kept view (cluster_writes s {c}) s (fat32_point_fat s c v)"
proof -
  have "CLUSTER_NO c = c"
    using assms in_tableD(2)[of s c] by (simp add: attached_def geometry_ok_def)
  then have e: "fat32_point_fat s c v = flush_entry (fat_set s c v) c"
    by (simp add: fat32_point_fat_def)
  show "attached rd wr invar good (fat32_point_fat s c v)"
    "disk_step view {} s (fat32_point_fat s c v)"
    "mirrored view (fat32_point_fat s c v) (unat c div 128)"
    using set_entry_attached(1-3)[OF assms e] by simp_all
  show "kept view (cluster_writes s {c}) s (fat32_point_fat s c v)"
    using set_entry_attached(4)[OF assms e] by (simp add: kept_def cluster_writes_def)
qed

lemma alloc_cluster_attached:
  assumes "attached rd wr invar good s" "free_clusters s \<noteq> {}"
    and "alloc_free_local_cluster s = Inr (c, s')"
  shows "attached rd wr invar good s'" "disk_step view {c} s s'"
    "mirrored view s' (unat c div 128)" "view (dev s') (cluster_no_to_lba s c) = blank_sector"
    "kept view (cluster_writes s {c}) s s'"
proof -
  have g: "geometry_ok s" "table_ok s" using assms(1) by (simp_all add: attached_def geometry_ok_def)
  obtain c' s'' where "alloc_free_local_cluster s = Inr (c', s'')" "c' \<in> free_clusters s"
    using alloc_cluster_spec[OF g(2) assms(2)] by metis
  then have c: "in_table s c" using assms(3) by (simp add: free_in_table)
  note cD = in_tableD[OF g(2) c]
  define s2 where "s2 = flush_entry (fat_set s c FAT32_TERMINAL_CLUSTER_NO) c"
  note e = set_entry_attached[OF assms(1) c s2_def]
  have st2: "statics s2 = statics s" by (simp add: s2_def)
  have "find_free_from s 2 = c"
    using assms(3) g(2) by (simp add: alloc_free_local_cluster_def find_free_local_cluster_def
        table_ok_def Let_def)
  then have s': "s' = write_sector s2 blank_sector (cluster_no_to_lba s c)"
    using assms(3) g(2) cD(2) geometry_statics(5)[OF st2]
    by (simp add: alloc_free_local_cluster_def find_free_local_cluster_def table_ok_def Let_def
        FAT32_TERMINAL_val s2_def)
  have k0: "0 < spc s" using g(1) by (simp add: geometry_ok_def)
  have v: "cluster_no_to_lba s c \<in> volume_lbas s2"
    using lba_data_area(2)[OF g(1) c k0] geometry_statics(2)[OF st2] by simp
  have w: "view (dev s') = (view (dev s2))(cluster_no_to_lba s c := blank_sector)"
    "attached rd wr invar good s'"
    using write_sector_attached[OF e(1) v] by (simp_all add: s' blank_sector_def)
  show "attached rd wr invar good s'" by (rule w(2))
  show "view (dev s') (cluster_no_to_lba s c) = blank_sector" by (simp add: w(1))
  show "kept view (cluster_writes s {c}) s s'"
    using e(4) by (simp add: w(1) kept_def cluster_writes_def)
  have st: "statics s' = statics s" by (simp add: s' st2)
  have mb: "mem_bytes s' a n = mem_bytes s2 a n" for a n by (simp add: mem_bytes_def s')
  have m: "mirrored view s' i" if "i < fat_sectors s" "mirrored view s2 i" for i
    using that data_lba_not_fat[OF g(1) that(1) c k0] statics_eqD(8)[OF st2]
    by (intro mirrored_cong[OF st]) (simp add: w(1) mb mirrored_def)
  show "mirrored view s' (unat c div 128)"
    using m e(3) fat_sector_of(1)[OF g(1) c] by blast
  have "view (dev s') (cluster_no_to_lba s d + of_nat k) = view (dev s) (cluster_no_to_lba s d + of_nat k)"
    if "in_table s d" "d \<noteq> c" "k < spc s" for d k
  proof -
    have "cluster_no_to_lba s d + of_nat k \<noteq> cluster_no_to_lba s c"
      using lba_inj[OF g(1) that(1) c that(3) k0] that(2) by simp
    then show ?thesis using e(2) that by (simp add: w(1) disk_step_def)
  qed
  then show "disk_step view {c} s s'"
    using st m e(2) by (simp add: disk_step_def)
qed

lemma alloc_chain_attached:
  assumes "attached rd wr invar good s" "n \<le> card (free_clusters s)"
    and "in_table s prev" "prev \<notin> free_clusters s" "alloc_chain n prev s = Inr s'"
  shows "attached rd wr invar good s' \<and> disk_step view (free_clusters s - free_clusters s') s s'
    \<and> free_clusters s' \<subseteq> free_clusters s
    \<and> kept view (cluster_writes s (insert prev (free_clusters s - free_clusters s'))) s s'"
  using assms
proof (induction n arbitrary: s prev)
  case 0
  then show ?case by simp
next
  case (Suc n)
  have g: "table_ok s" using Suc.prems(1) by (simp add: attached_def geometry_ok_def)
  have fr: "free_clusters s \<noteq> {}" using Suc.prems(2) by auto
  obtain c s1 where a: "alloc_free_local_cluster s = Inr (c, s1)" and c: "c \<in> free_clusters s"
    and s1: "statics s1 = statics s" "mem s1 = (mem s)(ucast c := FAT32_TERMINAL_CLUSTER_NO)"
    using alloc_cluster_spec[OF g fr] by metis
  have ct: "in_table s c" using c by (rule free_in_table)
  note cD = in_tableD[OF g ct] and pD = in_tableD[OF g Suc.prems(3)]
  define s2 where "s2 = fat32_point_fat s1 prev c"
  note al = alloc_cluster_attached[OF Suc.prems(1) fr a]
  have p1: "in_table s1 prev" using Suc.prems(3) in_table_statics[OF s1(1)] by simp
  note pt = point_fat_attached[OF al(1) p1, of c, folded s2_def]
  have st2: "statics s2 = statics s" by (simp add: s2_def s1)
  have f1: "free_clusters s1 = free_clusters s - {c}"
    using free_clusters_update[OF g s1 ct] by (simp add: FAT32_TERMINAL_val)
  have f2: "free_clusters s2 = free_clusters s - {c}"
    using free_clusters_update[of s1 s2 prev c] table_ok_statics[OF s1(1)] g p1 cD(3) f1 Suc.prems(4)
    by (simp add: s2_def)
  have run: "alloc_chain n c s2 = Inr s'"
    using Suc.prems(5) a by (simp add: pD(2) cD(2) s2_def)
  let ?U = "free_clusters s - free_clusters s'" and ?V = "free_clusters s2 - free_clusters s'"
  have "attached rd wr invar good s' \<and> disk_step view ?V s2 s' \<and> free_clusters s' \<subseteq> free_clusters s2
      \<and> kept view (cluster_writes s2 (insert c ?V)) s2 s'"
    by (rule Suc.IH[OF pt(1) _ _ _ run])
       (use Suc.prems(2) c ct f2 in_table_statics[OF st2] in auto)
  then have IH: "attached rd wr invar good s'" "disk_step view ?V s2 s'" "free_clusters s' \<subseteq> free_clusters s2"
    "kept view (cluster_writes s (insert c ?V)) s2 s'"
    by (simp_all add: cluster_writes_statics[OF st2])
  have U: "?U = insert c ?V" using c IH(3) f2 by auto
  have "kept view (cluster_writes s (insert prev {c})) s s2"
    by (rule kept_trans[OF al(5) pt(4)]) (simp add: cluster_writes_statics[OF s1(1)] cluster_writes_mono)
  then have "kept view (cluster_writes s (insert prev ?U)) s s'"
    by (rule kept_trans[OF _ IH(4)]) (simp add: U cluster_writes_mono subset_insertI)
  moreover have "disk_step view ?U s s'"
    using disk_step_trans[OF disk_step_trans[OF al(2) pt(2)] IH(2)] by (simp add: U)
  moreover have "free_clusters s' \<subseteq> free_clusters s" using IH(3) f2 by auto
  ultimately show ?case using IH(1) by simp
qed

lemma alloc_file_attached:
  assumes "attached rd wr invar good s" "1 \<le> num" "nat num \<le> card (free_clusters s)"
    and "alloc_local_file_at s dr num name = Inr (c, dr', s')"
  shows "attached rd wr invar good s'" "disk_step view (free_clusters s - free_clusters s') s s'"
    "view (dev s') (cluster_no_to_lba s c) = blank_sector"
    "kept view (cluster_writes s (free_clusters s - free_clusters s')) s s'"
proof -
  have gg: "geometry_ok s" and g: "table_ok s" using assms(1) by (simp_all add: attached_def geometry_ok_def)
  have fr: "free_clusters s \<noteq> {}" using assms(2,3) by auto
  obtain c1 s1 where a: "alloc_free_local_cluster s = Inr (c1, s1)" and c: "c1 \<in> free_clusters s"
    and s1: "statics s1 = statics s" "mem s1 = (mem s)(ucast c1 := FAT32_TERMINAL_CLUSTER_NO)"
    using alloc_cluster_spec[OF g fr] by metis
  have ct: "in_table s c1" using c by (rule free_in_table)
  have f1: "free_clusters s1 = free_clusters s - {c1}"
    using free_clusters_update[OF g s1 ct] by (simp add: FAT32_TERMINAL_val)
  note al = alloc_cluster_attached[OF assms(1) fr a]
  have run: "alloc_chain (nat (num - 1)) c1 s1 = Inr s'" "c1 = c"
    using assms(4) a by (auto simp: alloc_local_file_at_def Let_def split: if_splits sum.splits)
  have k0: "0 < spc s" using gg by (simp add: geometry_ok_def)
  let ?U = "free_clusters s - free_clusters s'" and ?V = "free_clusters s1 - free_clusters s'"
  have "attached rd wr invar good s' \<and> disk_step view ?V s1 s' \<and> free_clusters s' \<subseteq> free_clusters s1
      \<and> kept view (cluster_writes s1 (insert c1 ?V)) s1 s'"
    by (rule alloc_chain_attached[OF al(1) _ _ _ run(1)])
       (use assms(2,3) c ct f1 in_table_statics[OF s1(1)] in auto)
  then have rest: "attached rd wr invar good s'" "disk_step view ?V s1 s'" "free_clusters s' \<subseteq> free_clusters s1"
    "kept view (cluster_writes s (insert c1 ?V)) s1 s'"
    by (simp_all add: cluster_writes_statics[OF s1(1)])
  have U: "?U = insert c1 ?V" using c rest(3) f1 by auto
  have "view (dev s') (cluster_no_to_lba s1 c1 + of_nat 0) = view (dev s1) (cluster_no_to_lba s1 c1 + of_nat 0)"
    using disk_step_data[OF rest(2), of c1 0] f1 ct k0 in_table_statics[OF s1(1)]
      geometry_statics(3)[OF s1(1)] by simp
  then show "view (dev s') (cluster_no_to_lba s c) = blank_sector"
    using al(4) geometry_statics(5)[OF s1(1)] run(2) by simp
  show "attached rd wr invar good s'" by (rule rest(1))
  show "disk_step view ?U s s'" using disk_step_trans[OF al(2) rest(2)] by (simp add: U)
  show "kept view (cluster_writes s ?U) s s'"
    by (rule kept_trans[OF al(5) rest(4)]) (simp add: U cluster_writes_mono)
qed

end

lemma demo0_attached: "attached ram_read ram_write ram_invar (\<lambda>_. True) demo0"
  by (simp add: attached_def demo0_def demo_geometry_ok)
     (simp add: demo_fs_def ram_invar_def)

lemma demo0_free: "c \<in> free_clusters demo0 \<longleftrightarrow> 3 \<le> c \<and> c < 130"
proof -
  have "idx_ok c" if "c < 130" using that by (auto simp: idx_ok_def word_less_nat_alt)
  then have "(ucast c :: widx) = 2 \<longleftrightarrow> c = 2" if "c < 130"
    using that ucast_idx_inj[of c 2] by (simp add: idx_ok_def)
  moreover have "2 \<le> c \<and> c \<noteq> 2 \<longleftrightarrow> 3 \<le> c" by (auto simp: word_le_nat_alt word_unat_eq_iff)
  ultimately show ?thesis
    by (auto simp: free_clusters_def demo0_def demo_fs_def fat_at_def word_less_nat_alt)
qed

lemma demo0_free_card: "2 \<le> card (free_clusters demo0)"
proof -
  have "{3, 4} \<subseteq> free_clusters demo0" by (auto simp: demo0_free)
  then have "card {3, 4 :: u32} \<le> card (free_clusters demo0)" by (intro card_mono) auto
  then show ?thesis by simp
qed

section \<open>Building a file\<close>

text \<open>
  C9: with enough free clusters \<open>alloc_local_file_at\<close> always succeeds: it links exactly the
  requested number of distinct, previously free clusters, the ones with the lowest numbers, into a
  chain that starts at the returned cluster and ends properly, fills the directory record with the
  name and that cluster, and changes no other table entry.
\<close>

theorem alloc_local_file_at_chain:
  assumes "table_ok s" "1 \<le> num" "nat num \<le> card (free_clusters s)" "11 \<le> length name"
  shows "\<exists>c cs dr' s'. alloc_local_file_at s dr num name = Inr (c, dr', s')
    \<and> length (c # cs) = nat num \<and> distinct (c # cs) \<and> set (c # cs) \<subseteq> free_clusters s
    \<and> chain (next_of s') (c # cs)
    \<and> (\<forall>e \<in> set (c # cs). \<forall>d \<in> free_clusters s - set (c # cs). e \<le> d)
    \<and> (\<forall>d. in_table s d \<and> d \<notin> set (c # cs) \<longrightarrow> fat_at s' d = fat_at s d)
    \<and> first_cluster dr' = c \<and> dir_name dr' = take 11 name \<and> dir_attr dr' = 0"
proof -
  obtain c cs dr' s' where r: "alloc_local_file_at s dr num name = Inr (c, dr', s')"
    "length (c # cs) = nat num" "distinct (c # cs)" "set (c # cs) \<subseteq> free_clusters s"
    "chain (next_of s') (c # cs)" "\<forall>x. x \<notin> ucast ` set (c # cs) \<longrightarrow> mem s' x = mem s x"
    "dr' = dr\<lparr>dir_name := take 11 name, dir_first_cluster_low := low_half c,
       dir_first_cluster_high := high_half c, dir_attr := 0\<rparr>"
    "\<forall>e \<in> set (c # cs). \<forall>d \<in> free_clusters s - set (c # cs). e \<le> d"
    using alloc_local_file_at_spec[OF assms, of dr] by metis
  have "fat_at s' d = fat_at s d" if "in_table s d" "d \<notin> set (c # cs)" for d
  proof -
    have "(ucast d :: widx) \<notin> ucast ` set (c # cs)"
      using that r(4) in_table_ucast_inj[OF assms(1) that(1)] free_in_table by blast
    then show ?thesis using r(6) by (simp add: fat_at_def)
  qed
  moreover have "first_cluster dr' = c"
    by (rule first_cluster_halves) (simp_all add: r(7))
  ultimately show ?thesis using r by auto
qed

theorem alloc_local_file_at_chain_witness:
  "\<exists>c cs dr' s'. alloc_local_file_at demo0 (decode_dir_record (replicate 32 0)) 2 (replicate 11 65)
      = Inr (c, dr', s')
    \<and> length (c # cs) = nat 2 \<and> distinct (c # cs) \<and> set (c # cs) \<subseteq> free_clusters demo0
    \<and> chain (next_of s') (c # cs)
    \<and> (\<forall>e \<in> set (c # cs). \<forall>d \<in> free_clusters demo0 - set (c # cs). e \<le> d)
    \<and> (\<forall>d. in_table demo0 d \<and> d \<notin> set (c # cs) \<longrightarrow> fat_at s' d = fat_at demo0 d)
    \<and> first_cluster dr' = c \<and> dir_name dr' = take 11 (replicate 11 65) \<and> dir_attr dr' = 0"
  by (rule alloc_local_file_at_chain)
     (use demo0_free_card in \<open>simp_all add: demo0_def demo_table_ok\<close>)

text \<open>
  C15: over any device with the block contract, building a file keeps the volume mounted and writes
  only the table sectors and the first sectors of the clusters it takes, so the data of every cluster
  that was in use stays; it clears the first sector of the new file, and keeps every table sector that
  agreed with its copy in memory in agreement: allocation is written through.
\<close>

theorem alloc_local_file_at_write_through:
  assumes "block_device rd wr view good invar" "attached rd wr invar good s"
    and "1 \<le> num" "nat num \<le> card (free_clusters s)"
    and "alloc_local_file_at s dr num name = Inr (c, dr', s')"
  shows "attached rd wr invar good s'
    \<and> (\<forall>d k. in_table s d \<and> d \<notin> free_clusters s \<and> k < spc s \<longrightarrow>
          view (dev s') (cluster_no_to_lba s d + of_nat k) = view (dev s) (cluster_no_to_lba s d + of_nat k))
    \<and> kept view (cluster_writes s (free_clusters s - free_clusters s')) s s'
    \<and> view (dev s') (cluster_no_to_lba s c) = blank_sector
    \<and> (\<forall>i < fat_sectors s. mirrored view s i \<longrightarrow> mirrored view s' i)"
  using block_device.alloc_file_attached[OF assms] by (simp add: disk_step_def)

theorem alloc_local_file_at_write_through_witness:
  "\<exists>c dr' s'. alloc_local_file_at demo0 (decode_dir_record (replicate 32 0)) 2 (replicate 11 65)
      = Inr (c, dr', s')
    \<and> attached ram_read ram_write ram_invar (\<lambda>_. True) s'
    \<and> (\<forall>d k. in_table demo0 d \<and> d \<notin> free_clusters demo0 \<and> k < spc demo0 \<longrightarrow>
          dev s' (cluster_no_to_lba demo0 d + of_nat k) = dev demo0 (cluster_no_to_lba demo0 d + of_nat k))
    \<and> kept (\<lambda>d. d) (cluster_writes demo0 (free_clusters demo0 - free_clusters s')) demo0 s'
    \<and> dev s' (cluster_no_to_lba demo0 c) = blank_sector
    \<and> (\<forall>i < fat_sectors demo0. mirrored (\<lambda>d. d) demo0 i \<longrightarrow> mirrored (\<lambda>d. d) s' i)"
proof -
  have t: "table_ok demo0" by (simp add: demo0_def demo_table_ok)
  obtain c dr' s' where r: "alloc_local_file_at demo0 (decode_dir_record (replicate 32 0)) 2
      (replicate 11 65) = Inr (c, dr', s')"
    using alloc_local_file_at_spec[OF t, of 2 "replicate 11 65" "decode_dir_record (replicate 32 0)"]
      demo0_free_card by auto
  show ?thesis
    using alloc_local_file_at_write_through[OF ram.block_device_axioms demo0_attached _ _ r]
      demo0_free_card r by auto
qed

end
