(* ===== verification/Fat32_Dir.thy ===== *)
theory Fat32_Dir
  imports Fat32_Disk Cstring
begin

text \<open>
  The root directory of \<open>src/pi-src/fat32.c\<close>: looking a file up (\<open>fat32_get_cluster_no\<close>),
  allocating a file and inserting its record (\<open>fat32_alloc_local_file\<close>), and moving whole
  clusters (\<open>read_cluster\<close>, \<open>write_cluster\<close>). The directory is abstracted to the list of
  its records; the loops over clusters, sectors and records are shown to compute a search of
  that list.

  Both directory loops run \<open>while(cluster_no != -1)\<close>, and may run forever: they are partial
  functions into \<open>option\<close>, with \<open>None\<close> for a loop that does not end. The array \<open>records\<close> is
  an uninitialised local of the C functions; its initial contents are an argument.
\<close>

section \<open>The routines\<close>

definition num_dir_sectors :: "'d fs \<Rightarrow> nat" where
  "num_dir_sectors s = unat (sectors_per_cluster (cur_vol_id s))"

text \<open>The scan of one sector: \<open>Some\<close> is a \<open>return\<close>, \<open>None\<close> the end of the loop.\<close>

fun lookup_records :: "bytes \<Rightarrow> bytes \<Rightarrow> nat list \<Rightarrow> u32 option res" where
  "lookup_records records filename [] = Inr None"
| "lookup_records records filename (i # is) =
     (let dr = rec_at records i in
      if \<not> IS_LFN (dir_attr dr) then
        if IS_TERMINAL dr then Inr (Some (- 1))
        else case strncmp (dir_name dr) filename 11 of
            None \<Rightarrow> Inl Undef
          | Some r \<Rightarrow> if r = 0 then Inr (Some (first_cluster dr))
                     else lookup_records records filename is
      else lookup_records records filename is)"

fun lookup_sectors ::
  "bytes \<Rightarrow> u32 \<Rightarrow> nat list \<Rightarrow> bytes \<Rightarrow> 'd fs \<Rightarrow> (u32 option \<times> bytes \<times> 'd fs) res" where
  "lookup_sectors filename cluster_no [] records s = Inr (None, records, s)"
| "lookup_sectors filename cluster_no (sector_no # ks) records s =
     (let (records', s') =
        read_sector s (cluster_no_to_lba s cluster_no + of_nat sector_no) records
      in case lookup_records records' filename [0..<records_per_sector] of
           Inl f \<Rightarrow> Inl f
         | Inr (Some r) \<Rightarrow> Inr (Some r, records', s')
         | Inr None \<Rightarrow> lookup_sectors filename cluster_no ks records' s')"

partial_function (option) lookup_dir ::
  "bytes \<Rightarrow> u32 \<Rightarrow> bytes \<Rightarrow> 'd fs \<Rightarrow> (u32 \<times> 'd fs) res option" where
  "lookup_dir filename cluster_no records s =
     (if cluster_no = - 1 then Some (Inr (- 1, s))
      else case lookup_sectors filename cluster_no [0..<num_dir_sectors s] records s of
          Inl f \<Rightarrow> Some (Inl f)
        | Inr (r, records', s') \<Rightarrow>
            (case r of
               Some c \<Rightarrow> Some (Inr (c, s'))
             | None \<Rightarrow>
                 (case fat32_next_cluster s' cluster_no of
                    Inl f \<Rightarrow> Some (Inl f)
                  | Inr next_no \<Rightarrow> lookup_dir filename next_no records' s')))"

definition fat32_get_cluster_no ::
  "'d fs \<Rightarrow> bytes \<Rightarrow> bytes \<Rightarrow> (u32 \<times> 'd fs) res option" where
  "fat32_get_cluster_no s filename records =
     (if \<not> did_init s
      then Some (Inl (Panic (''Attempted to search the filesystem before fat32 init.'' @ nl)))
      else lookup_dir filename FAT32_ROOT_CLUSTER_NO records s)"

fun find_terminal :: "bytes \<Rightarrow> nat list \<Rightarrow> nat option" where
  "find_terminal records [] = None"
| "find_terminal records (i # is) =
     (if \<not> IS_LFN (dir_attr (rec_at records i)) \<and> IS_TERMINAL (rec_at records i) then Some i
      else find_terminal records is)"

text \<open>
  The terminal record \<open>i\<close> of the sector becomes the file's record; the terminal moves on by one.
\<close>

definition insert_entry ::
  "'d fs \<Rightarrow> bytes \<Rightarrow> nat \<Rightarrow> u32 \<Rightarrow> nat \<Rightarrow> int \<Rightarrow> bytes \<Rightarrow> (u32 \<times> 'd fs) res" where
  "insert_entry s records i cur_dir_cluster_no sector_no num_clusters name =
     (case alloc_local_file_at s (rec_at records i) num_clusters name of
        Inl f \<Rightarrow> Inl f
      | Inr (file_first_cluster_no, dr, s1) \<Rightarrow>
          let records1 = set_rec records i dr;
              lba = cluster_no_to_lba s1 cur_dir_cluster_no + of_nat sector_no
          in if i = records_per_sector - 1 then
               if int sector_no = int (num_dir_sectors s1) - 1
               then Inr (file_first_cluster_no, write_sector s1 records1 lba)
               else
                 let s2 = write_sector s1 records1 lba;
                     records2 = mark_terminal records1 0
                 in Inr (file_first_cluster_no, write_sector s2 records2 (lba + 1))
             else
               let records2 = mark_terminal records1 (i + 1)
               in Inr (file_first_cluster_no, write_sector s1 records2 lba))"

fun alloc_scan_sectors ::
  "u32 \<Rightarrow> nat list \<Rightarrow> bytes \<Rightarrow> int \<Rightarrow> bytes \<Rightarrow> 'd fs \<Rightarrow> (u32 option \<times> bytes \<times> 'd fs) res" where
  "alloc_scan_sectors cluster_no [] records num_clusters name s = Inr (None, records, s)"
| "alloc_scan_sectors cluster_no (sector_no # ks) records num_clusters name s =
     (let (records', s') =
        read_sector s (cluster_no_to_lba s cluster_no + of_nat sector_no) records
      in case find_terminal records' [0..<records_per_sector] of
           Some i \<Rightarrow>
             (case insert_entry s' records' i cluster_no sector_no num_clusters name of
                Inl f \<Rightarrow> Inl f
              | Inr (c, s'') \<Rightarrow> Inr (Some c, records', s''))
         | None \<Rightarrow> alloc_scan_sectors cluster_no ks records' num_clusters name s')"

text \<open>
  The code after the loop of \<open>fat32_alloc_local_file\<close>: extending the directory by a cluster. The
  loop is left only with the cluster number -1.
\<close>

definition extend_dir ::
  "u32 \<Rightarrow> u32 \<Rightarrow> bytes \<Rightarrow> int \<Rightarrow> bytes \<Rightarrow> 'd fs \<Rightarrow> (u32 \<times> 'd fs) res" where
  "extend_dir cur_dir_cluster_no prev_dir_cluster_no records num_clusters name s =
     (if cur_dir_cluster_no = CLUSTER_NO (- 1) then
        (case alloc_free_local_cluster s of
           Inl f \<Rightarrow> Inl f
         | Inr (allocd_cluster, s1) \<Rightarrow>
             let s2 = fat32_point_fat s1 (CLUSTER_NO prev_dir_cluster_no) (CLUSTER_NO allocd_cluster)
             in case alloc_local_file_at s2 (rec_at records 0) num_clusters name of
                  Inl f \<Rightarrow> Inl f
                | Inr (file_first_cluster_no, dr, s3) \<Rightarrow>
                    Inr (file_first_cluster_no,
                         write_sector s3 (mark_terminal (set_rec records 0 dr) 1)
                           (cluster_no_to_lba s3 (CLUSTER_NO allocd_cluster))))
      else Inr (- 1, s))"

partial_function (option) alloc_scan_dir ::
  "u32 \<Rightarrow> u32 \<Rightarrow> bytes \<Rightarrow> int \<Rightarrow> bytes \<Rightarrow> 'd fs \<Rightarrow> (u32 \<times> 'd fs) res option" where
  "alloc_scan_dir cur_no prev_no records num_clusters name s =
     (if cur_no = - 1 then Some (extend_dir cur_no prev_no records num_clusters name s)
      else case alloc_scan_sectors cur_no [0..<num_dir_sectors s] records num_clusters name s of
          Inl f \<Rightarrow> Some (Inl f)
        | Inr (r, records', s') \<Rightarrow>
            (case r of
               Some c \<Rightarrow> Some (Inr (c, s'))
             | None \<Rightarrow>
                 (case fat32_next_cluster s' cur_no of
                    Inl f \<Rightarrow> Some (Inl f)
                  | Inr next_no \<Rightarrow> alloc_scan_dir next_no cur_no records' num_clusters name s')))"

definition fat32_alloc_local_file ::
  "'d fs \<Rightarrow> u32 \<Rightarrow> bytes \<Rightarrow> bytes \<Rightarrow> (u32 \<times> 'd fs) res option" where
  "fat32_alloc_local_file s num_clusters name records =
     (if \<not> did_init s
      then Some (Inl (Panic (''Attempted to write to fat32 before init.'' @ nl)))
      else let root = vd_root_dir_first_cluster (cur_vol s)
           in alloc_scan_dir root root records (sint num_clusters) name s)"

text \<open>Whole clusters. The line each routine prints before it starts is left out; \<open>read_cluster_mem\<close>
  in \<open>Fat32_Dump\<close> has it.\<close>

fun read_cluster_loop :: "nat \<Rightarrow> nat \<Rightarrow> u32 \<Rightarrow> bytes \<Rightarrow> 'd fs \<Rightarrow> bytes \<times> 'd fs" where
  "read_cluster_loop 0 i lba dst s = (dst, s)"
| "read_cluster_loop (Suc n) i lba dst s =
     (let (sec, s') = read_sector s lba (chunk (SD_SECTOR_SIZE * i) SD_SECTOR_SIZE dst)
      in read_cluster_loop n (Suc i) (lba + 1) (splice (SD_SECTOR_SIZE * i) sec dst) s')"

definition read_cluster :: "'d fs \<Rightarrow> u32 \<Rightarrow> bytes \<Rightarrow> (bytes \<times> 'd fs) res" where
  "read_cluster s cluster_no dst =
     (if length dst < SD_SECTOR_SIZE * num_dir_sectors s then Inl Undef
      else Inr (read_cluster_loop (num_dir_sectors s) 0 (cluster_no_to_lba s cluster_no) dst s))"

fun write_cluster_loop :: "nat \<Rightarrow> nat \<Rightarrow> u32 \<Rightarrow> bytes \<Rightarrow> 'd fs \<Rightarrow> 'd fs" where
  "write_cluster_loop 0 i lba src s = s"
| "write_cluster_loop (Suc n) i lba src s =
     write_cluster_loop n (Suc i) (lba + 1) src
       (write_sector s (chunk (SD_SECTOR_SIZE * i) SD_SECTOR_SIZE src) lba)"

definition write_cluster :: "'d fs \<Rightarrow> u32 \<Rightarrow> bytes \<Rightarrow> 'd fs res" where
  "write_cluster s cluster_no src =
     (if \<not> did_init s
      then Inl (Panic (''Attempted to inspect the filesystem before initialization.'' @ nl))
      else if length src < SD_SECTOR_SIZE * num_dir_sectors s then Inl Undef
      else Inr (write_cluster_loop (num_dir_sectors s) 0 (cluster_no_to_lba s cluster_no) src s))"

section \<open>The directory as a list of records\<close>

text \<open>
  The search the loops perform, on the list of all records of the directory: \<open>None\<close> says that
  neither the name nor a terminal is there.
\<close>

definition live_terminal :: "dir_record \<Rightarrow> bool" where
  "live_terminal dr \<longleftrightarrow> \<not> IS_LFN (dir_attr dr) \<and> IS_TERMINAL dr"

definition name_matches :: "bytes \<Rightarrow> dir_record \<Rightarrow> bool" where
  "name_matches filename dr \<longleftrightarrow> \<not> IS_LFN (dir_attr dr) \<and> same_prefix (dir_name dr) (take 11 filename)"

fun find_record :: "bytes \<Rightarrow> dir_record list \<Rightarrow> u32 option" where
  "find_record filename [] = None"
| "find_record filename (dr # drs) =
     (if live_terminal dr then Some (- 1)
      else if name_matches filename dr then Some (first_cluster dr)
      else find_record filename drs)"

definition sector_records :: "bytes \<Rightarrow> dir_record list" where
  "sector_records buf = map (rec_at buf) [0..<records_per_sector]"

definition dir_sector :: "('d \<Rightarrow> u32 \<Rightarrow> bytes) \<Rightarrow> 'd fs \<Rightarrow> u32 \<Rightarrow> nat \<Rightarrow> bytes" where
  "dir_sector view s c k = view (dev s) (cluster_no_to_lba s c + of_nat k)"

definition cluster_records :: "('d \<Rightarrow> u32 \<Rightarrow> bytes) \<Rightarrow> 'd fs \<Rightarrow> u32 \<Rightarrow> nat list \<Rightarrow> dir_record list" where
  "cluster_records view s c ks = concat (map (\<lambda>k. sector_records (dir_sector view s c k)) ks)"

definition dir_records :: "('d \<Rightarrow> u32 \<Rightarrow> bytes) \<Rightarrow> 'd fs \<Rightarrow> u32 list \<Rightarrow> dir_record list" where
  "dir_records view s cs = concat (map (\<lambda>c. cluster_records view s c [0..<spc s]) cs)"

text \<open>The clusters the loops visit, as far as they stay in the table.\<close>

fun dir_walk :: "(u32 \<Rightarrow> u32) \<Rightarrow> u32 list \<Rightarrow> bool" where
  "dir_walk nx [] \<longleftrightarrow> False"
| "dir_walk nx [c] \<longleftrightarrow> True"
| "dir_walk nx (c # d # cs) \<longleftrightarrow> nx c = d \<and> dir_walk nx (d # cs)"

lemma chain_dir_walk: "chain nx cs \<Longrightarrow> dir_walk nx cs"
  by (induction nx cs rule: chain.induct) auto

lemma dir_walk_cong:
  "(\<And>c. c \<in> set cs \<Longrightarrow> nx c = nx' c) \<Longrightarrow> dir_walk nx cs = dir_walk nx' cs"
  by (induction nx cs rule: dir_walk.induct) auto

named_theorems dir_simps "the directory as a list of records"

lemma find_record_append [dir_simps]:
  "find_record fn (xs @ ys) =
     (case find_record fn xs of None \<Rightarrow> find_record fn ys | Some r \<Rightarrow> Some r)"
  by (induction xs) auto

lemma find_record_None:
  "find_record fn drs = None \<longleftrightarrow> (\<forall>dr \<in> set drs. \<not> live_terminal dr \<and> \<not> name_matches fn dr)"
  by (induction drs) auto

lemma strncmp_name:
  assumes "wf_dir_record dr" "11 \<le> length fn"
  shows "strncmp (dir_name dr) fn 11 =
    Some (if same_prefix (dir_name dr) (take 11 fn) then 0 else - 1)"
  using assms strncmp_same_prefix[of 11 "dir_name dr" fn] by (simp add: wf_dir_record_def)

lemma lookup_records_find:
  assumes "length buf = 512" "11 \<le> length fn" "\<And>i. i \<in> set is \<Longrightarrow> i < 16"
  shows "lookup_records buf fn is = Inr (find_record fn (map (rec_at buf) is))"
  using assms(3)
proof (induction "is")
  case Nil
  then show ?case by simp
next
  case (Cons i "is")
  then have "strncmp (dir_name (rec_at buf i)) fn 11 =
      Some (if same_prefix (dir_name (rec_at buf i)) (take 11 fn) then 0 else - 1)"
    using assms(1,2) by (intro strncmp_name) (auto intro: wf_rec_at)
  then show ?case
    using Cons by (simp add: Let_def live_terminal_def name_matches_def)
qed

lemma find_terminal_spec:
  "find_terminal buf is = None \<longleftrightarrow> (\<forall>i \<in> set is. \<not> live_terminal (rec_at buf i))"
  by (induction "is") (auto simp: live_terminal_def)

lemma find_terminal_upt:
  assumes "live_terminal (rec_at buf i)" "\<And>j. j < i \<Longrightarrow> \<not> live_terminal (rec_at buf j)" "i < n"
  shows "find_terminal buf [0..<n] = Some i"
proof -
  have "find_terminal buf (js @ i # ks) = Some i" if "\<And>j. j \<in> set js \<Longrightarrow> j < i" for js ks
    using that assms(1,2) by (induction js) (auto simp: live_terminal_def)
  moreover have "[0..<n] = [0..<i] @ i # [Suc i..<n]"
    using assms(3) by (metis less_imp_le_nat upt_add_eq_append upt_conv_Cons le0 le_add_diff_inverse)
  ultimately show ?thesis by (metis atLeastLessThan_iff set_upt)
qed

section \<open>Looking up\<close>

text \<open>A state reached by reading only.\<close>

definition same_store :: "('d \<Rightarrow> u32 \<Rightarrow> bytes) \<Rightarrow> 'd fs \<Rightarrow> 'd fs \<Rightarrow> bool" where
  "same_store view s s' \<longleftrightarrow> statics s' = statics s \<and> mem s' = mem s \<and> view (dev s') = view (dev s)"

lemma same_store_refl [simp]: "same_store view s s"
  by (simp add: same_store_def)

lemma same_store_trans:
  "same_store view s s' \<Longrightarrow> same_store view s' s'' \<Longrightarrow> same_store view s s''"
  by (simp add: same_store_def)

lemma same_storeD:
  assumes "same_store view s s'"
  shows "statics s' = statics s" "dir_sector view s' c k = dir_sector view s c k"
    "cluster_records view s' c ks = cluster_records view s c ks"
    "dir_records view s' cs = dir_records view s cs"
    "next_of s' = next_of s" "in_table s' = in_table s" "free_clusters s' = free_clusters s"
    "num_dir_sectors s' = num_dir_sectors s" "fat_at s' = fat_at s"
proof -
  show st: "statics s' = statics s" using assms by (simp add: same_store_def)
  note g = geometry_statics[OF st]
  show d: "dir_sector view s' c k = dir_sector view s c k" for c k
    using assms g by (simp add: dir_sector_def same_store_def)
  then show "cluster_records view s' c ks = cluster_records view s c ks" for c
    by (simp add: cluster_records_def)
  then show "dir_records view s' cs = dir_records view s cs"
    using g by (simp add: dir_records_def cluster_records_def d)
  show "next_of s' = next_of s" "fat_at s' = fat_at s"
    using assms by (simp_all add: next_of_def fat_at_def same_store_def fun_eq_iff)
  show "in_table s' = in_table s" using in_table_statics[OF st] by (simp add: fun_eq_iff)
  show "free_clusters s' = free_clusters s"
    using assms statics_eqD(7)[OF st] by (simp add: free_clusters_def fat_at_def same_store_def)
  show "num_dir_sectors s' = num_dir_sectors s"
    using statics_eqD(9)[OF st] by (simp add: num_dir_sectors_def)
qed

lemma num_dir_sectors_spc: "geometry_ok s \<Longrightarrow> num_dir_sectors s = spc s"
  by (simp add: num_dir_sectors_def geometry_ok_def spc_def)

lemma attached_geometry: "attached rd wr invar good s \<Longrightarrow> geometry_ok s"
  by (simp add: attached_def)

lemma attached_table: "attached rd wr invar good s \<Longrightarrow> table_ok s"
  by (simp add: attached_def geometry_ok_def)

context block_device
begin

lemma read_dir_sector:
  assumes "attached rd wr invar good s" "in_table s c" "k < spc s" "length buf = 512"
  shows "\<exists>s'. read_sector s (cluster_no_to_lba s c + of_nat k) buf = (dir_sector view s c k, s')
    \<and> attached rd wr invar good s' \<and> same_store view s s' \<and> length (dir_sector view s c k) = 512"
proof -
  let ?l = "cluster_no_to_lba s c + of_nat k"
  have v: "?l \<in> volume_lbas s"
    using lba_data_area(2)[OF attached_geometry[OF assms(1)] assms(2,3)] .
  note r = read_sector_attached[OF assms(1) v assms(4)]
  show ?thesis
    using r by (intro exI[of _ "snd (read_sector s ?l buf)"])
      (simp add: dir_sector_def same_store_def prod_eq_iff)
qed

lemma lookup_sectors_find:
  assumes "attached rd wr invar good s" "in_table s c" "\<And>k. k \<in> set ks \<Longrightarrow> k < spc s"
    and "length buf = 512" "11 \<le> length fn"
  shows "\<exists>buf' s'. lookup_sectors fn c ks buf s = Inr (find_record fn (cluster_records view s c ks), buf', s')
    \<and> attached rd wr invar good s' \<and> same_store view s s' \<and> length buf' = 512"
  using assms
proof (induction ks arbitrary: buf s)
  case Nil
  then show ?case by (simp add: cluster_records_def)
next
  case (Cons k ks)
  obtain s1 where r: "read_sector s (cluster_no_to_lba s c + of_nat k) buf = (dir_sector view s c k, s1)"
    and s1: "attached rd wr invar good s1" "same_store view s s1" "length (dir_sector view s c k) = 512"
    using read_dir_sector[OF Cons.prems(1,2) _ Cons.prems(4), of k] Cons.prems(3) by auto
  note st = same_storeD[OF s1(2)]
  have l: "lookup_records (dir_sector view s c k) fn [0..<records_per_sector] =
      Inr (find_record fn (sector_records (dir_sector view s c k)))"
    unfolding sector_records_def
    by (rule lookup_records_find[OF s1(3) Cons.prems(5)]) (simp add: records_per_sector_def)
  have split: "cluster_records view s c (k # ks) =
      sector_records (dir_sector view s c k) @ cluster_records view s c ks"
    by (simp add: cluster_records_def)
  obtain buf' s' where IH: "lookup_sectors fn c ks (dir_sector view s c k) s1 =
      Inr (find_record fn (cluster_records view s c ks), buf', s')"
    "attached rd wr invar good s'" "same_store view s1 s'" "length buf' = 512"
    using Cons.IH[OF s1(1) _ _ s1(3) Cons.prems(5)] Cons.prems(2,3) st
      geometry_statics(3)[OF st(1)] by auto
  show ?case
    using r l s1 IH same_store_trans[OF s1(2) IH(3)]
    by (auto simp: Let_def split find_record_append split: option.split)
qed

text \<open>One turn of the outer loop.\<close>

lemma lookup_dir_step:
  assumes "attached rd wr invar good s" "in_table s c" "length buf = 512" "11 \<le> length fn"
  shows "\<exists>buf' s'. lookup_dir fn c buf s =
      (case find_record fn (cluster_records view s c [0..<spc s]) of
         Some r \<Rightarrow> Some (Inr (r, s')) | None \<Rightarrow> lookup_dir fn (next_of s c) buf' s')
    \<and> attached rd wr invar good s' \<and> same_store view s s' \<and> length buf' = 512"
proof -
  obtain buf' s' where l: "lookup_sectors fn c [0..<spc s] buf s =
      Inr (find_record fn (cluster_records view s c [0..<spc s]), buf', s')"
    and s': "attached rd wr invar good s'" "same_store view s s'" "length buf' = 512"
    using lookup_sectors_find[OF assms(1,2) _ assms(3,4), of "[0..<spc s]"] by auto
  have di: "did_init s'" using attached_table[OF s'(1)] by (simp add: table_ok_def)
  have ne: "c \<noteq> - 1" using in_tableD(5)[OF attached_table[OF assms(1)] assms(2)] .
  show ?thesis
    using l s' di ne same_storeD(5)[OF s'(2)] num_dir_sectors_spc[OF attached_geometry[OF assms(1)]]
    by (intro exI[of _ buf'] exI[of _ s'])
       (subst lookup_dir.simps, simp add: fat32_next_cluster_ok split: option.split)
qed

lemma lookup_dir_walk:
  assumes "attached rd wr invar good s" "dir_walk (next_of s) (c # cs)"
    and "\<And>d. d \<in> set (c # cs) \<Longrightarrow> in_table s d" "length buf = 512" "11 \<le> length fn"
  shows "\<exists>buf' s'. lookup_dir fn c buf s =
      (case find_record fn (dir_records view s (c # cs)) of
         Some r \<Rightarrow> Some (Inr (r, s'))
       | None \<Rightarrow> lookup_dir fn (next_of s (last (c # cs))) buf' s')
    \<and> attached rd wr invar good s' \<and> same_store view s s' \<and> length buf' = 512"
  using assms
proof (induction cs arbitrary: c buf s)
  case Nil
  have "in_table s c" using Nil.prems(3) by simp
  from lookup_dir_step[OF Nil.prems(1) this Nil.prems(4,5)]
  show ?case by (simp add: dir_records_def cong: option.case_cong)
next
  case (Cons d cs)
  have "in_table s c" using Cons.prems(3) by simp
  from lookup_dir_step[OF Cons.prems(1) this Cons.prems(4,5)]
  obtain buf1 s1 where st: "lookup_dir fn c buf s =
      (case find_record fn (cluster_records view s c [0..<spc s]) of
         Some r \<Rightarrow> Some (Inr (r, s1)) | None \<Rightarrow> lookup_dir fn (next_of s c) buf1 s1)"
    and s1: "attached rd wr invar good s1" "same_store view s s1" "length buf1 = 512"
    by blast
  note e = same_storeD[OF s1(2)]
  have w: "dir_walk (next_of s1) (d # cs)" "next_of s c = d"
    using Cons.prems(2) by (simp_all add: e)
  obtain buf' s' where IH: "lookup_dir fn d buf1 s1 =
      (case find_record fn (dir_records view s (d # cs)) of
         Some r \<Rightarrow> Some (Inr (r, s'))
       | None \<Rightarrow> lookup_dir fn (next_of s (last (d # cs))) buf' s')"
    "attached rd wr invar good s'" "same_store view s1 s'" "length buf' = 512"
    using Cons.IH[OF s1(1) w(1) _ s1(3) Cons.prems(5), unfolded e(4,5,6)] Cons.prems(3)
    by (metis list.set_intros(2))
  have split: "dir_records view s (c # d # cs) =
      cluster_records view s c [0..<spc s] @ dir_records view s (d # cs)"
    by (simp add: dir_records_def)
  show ?case
    using st s1 IH same_store_trans[OF s1(2) IH(3)] w(2)
    by (auto simp: split find_record_append split: option.split)
qed

end

text \<open>
  C20: looking a name up reads only, and returns what the search of the directory's list of records
  returns, whenever the clusters from the root to the deciding record are in the table: the first
  cluster of the first record that matches the name, or -1 when the terminal comes first.
\<close>

theorem fat32_get_cluster_no_search:
  assumes "block_device rd wr view good invar" "attached rd wr invar good s"
    and "dir_walk (next_of s) (FAT32_ROOT_CLUSTER_NO # cs)"
    and "\<And>d. d \<in> set (FAT32_ROOT_CLUSTER_NO # cs) \<Longrightarrow> in_table s d"
    and "find_record filename (dir_records view s (FAT32_ROOT_CLUSTER_NO # cs)) = Some r"
    and "11 \<le> length filename" "length buf = 512"
  shows "\<exists>s'. fat32_get_cluster_no s filename buf = Some (Inr (r, s'))
    \<and> mem s' = mem s \<and> view (dev s') = view (dev s) \<and> attached rd wr invar good s'"
proof -
  have di: "did_init s" using attached_table[OF assms(2)] by (simp add: table_ok_def)
  show ?thesis
    using block_device.lookup_dir_walk[OF assms(1-4,7,6)] di
    by (auto simp: fat32_get_cluster_no_def assms(5) same_store_def)
qed

text \<open>A root directory of one cluster with the file \<open>AAAAAAAAAAA\<close> at cluster 9 in its second record.\<close>

definition demo_dir_sector :: bytes where
  "demo_dir_sector = replicate 32 66 @ replicate 11 65 @ replicate 15 0 @ [9] @ replicate 453 0"

definition demo_dir :: "(u32 \<Rightarrow> bytes) fs" where
  "demo_dir = demo_fs (\<lambda>l. if l = 50 then demo_dir_sector else replicate 512 0)
     (\<lambda>x. if x = 2 \<or> x = 9 then 0x0FFFFFFF else 0)"

lemma demo_dir_find:
  "find_record (replicate 11 65) (dir_records (\<lambda>d. d) demo_dir [FAT32_ROOT_CLUSTER_NO]) = Some 9"
proof -
  have sp: "[0..<spc demo_dir] = [0, 1]" by (simp add: demo_dir_def demo_spc upt_rec)
  have s0: "dir_sector (\<lambda>d. d) demo_dir 2 0 = demo_dir_sector"
    by (simp add: dir_sector_def demo_dir_def demo_fs_def cluster_no_to_lba_def cur_vol_def demo_vol_def)
  have u: "[0..<16] = 0 # 1 # [2..<16::nat]" by (simp add: upt_rec)
  have r: "rec_at demo_dir_sector 0 = decode_dir_record (replicate 32 66)"
    "rec_at demo_dir_sector 1 = decode_dir_record (replicate 11 65 @ replicate 15 0 @ [9] @ replicate 5 0)"
    by (simp_all add: rec_at_def demo_dir_sector_def chunk_def)
  have a: "live_terminal (rec_at demo_dir_sector 0) = False"
    "name_matches (replicate 11 65) (rec_at demo_dir_sector 0) = False"
    unfolding r by code_simp+
  have b: "live_terminal (rec_at demo_dir_sector 1) = False"
    "name_matches (replicate 11 65) (rec_at demo_dir_sector 1) = True"
    "first_cluster (rec_at demo_dir_sector 1) = 9"
    unfolding r by code_simp+
  show ?thesis
    using a b by (simp add: dir_records_def cluster_records_def sp sector_records_def s0
        FAT32_ROOT_CLUSTER_NO_def records_per_sector_def u del: upt_Suc)
qed

lemma demo_dir_attached: "attached ram_read ram_write ram_invar (\<lambda>_. True) demo_dir"
  by (simp add: attached_def demo_dir_def demo_geometry_ok)
     (simp add: demo_fs_def ram_invar_def demo_dir_sector_def)

theorem fat32_get_cluster_no_search_witness:
  "\<exists>s'. fat32_get_cluster_no demo_dir (replicate 11 65) (replicate 512 0) = Some (Inr (9, s'))
    \<and> mem s' = mem demo_dir \<and> dev s' = dev demo_dir \<and> attached ram_read ram_write ram_invar (\<lambda>_. True) s'"
  by (rule fat32_get_cluster_no_search [OF ram.block_device_axioms demo_dir_attached _ _ demo_dir_find])
     (simp_all add: demo_dir_def demo_in_table FAT32_ROOT_CLUSTER_NO_def)

section \<open>Past the end of the directory\<close>

text \<open>
  The loop of \<open>fat32_get_cluster_no\<close> does not stop at the end of the directory's chain.
  \<open>fat32_next_cluster\<close> masks the entry to 28 bits, so the loop's test against -1 never fires:
  when no record of the chain decides the search, the code goes on with "cluster" 0x0FFFFFFF
  instead of returning -1.
\<close>

theorem fat32_get_cluster_no_past_end:
  assumes "block_device rd wr view good invar" "attached rd wr invar good s"
    and "chain (next_of s) (FAT32_ROOT_CLUSTER_NO # cs)"
    and "\<And>d. d \<in> set (FAT32_ROOT_CLUSTER_NO # cs) \<Longrightarrow> in_table s d"
    and "\<And>dr. dr \<in> set (dir_records view s (FAT32_ROOT_CLUSTER_NO # cs)) \<Longrightarrow>
           \<not> live_terminal dr \<and> \<not> name_matches filename dr"
    and "11 \<le> length filename" "length buf = 512"
  shows "\<exists>buf' s'. fat32_get_cluster_no s filename buf
      = lookup_dir filename FAT32_TERMINAL_CLUSTER_NO buf' s' \<and> same_store view s s'"
proof -
  have di: "did_init s" using attached_table[OF assms(2)] by (simp add: table_ok_def)
  have none: "find_record filename (dir_records view s (FAT32_ROOT_CLUSTER_NO # cs)) = None"
    using assms(5) by (simp add: find_record_None)
  have last_nx: "nx (last xs) = FAT32_TERMINAL_CLUSTER_NO" if "chain nx xs" for nx xs
    using that by (induction nx xs rule: chain.induct) auto
  show ?thesis
    using block_device.lookup_dir_walk[OF assms(1,2) chain_dir_walk[OF assms(3)] assms(4,7,6)]
      di last_nx[OF assms(3)]
    unfolding fat32_get_cluster_no_def none by auto
qed

text \<open>A volume whose root directory is one cluster full of records, none of them a terminal.\<close>

definition demo_full_dir :: "(u32 \<Rightarrow> bytes) fs" where
  "demo_full_dir = demo_fs (\<lambda>_. replicate 512 66) (\<lambda>x. if x = 2 then 0x0FFFFFFF else 0)"

lemma full_rec: "i < 16 \<Longrightarrow> rec_at (replicate 512 66) i = decode_dir_record (replicate 32 66)"
  by (simp add: rec_at_def chunk_def)

lemma full_rec_skips:
  "\<not> live_terminal (decode_dir_record (replicate 32 66))"
  "\<not> name_matches (replicate 11 65) (decode_dir_record (replicate 32 66))"
  by code_simp+

lemma full_dir_sector: "dir_sector (\<lambda>d. d) demo_full_dir c k = replicate 512 66"
  by (simp add: dir_sector_def demo_full_dir_def demo_fs_def)

lemma full_dir_records:
  "dr \<in> set (dir_records (\<lambda>d. d) demo_full_dir cs) \<Longrightarrow> dr = decode_dir_record (replicate 32 66)"
  by (auto simp: dir_records_def cluster_records_def sector_records_def full_dir_sector
      records_per_sector_def full_rec split: if_splits)

lemma full_dir_attached: "attached ram_read ram_write ram_invar (\<lambda>_. True) demo_full_dir"
  by (simp add: attached_def demo_full_dir_def demo_geometry_ok)
     (simp add: demo_fs_def ram_invar_def)

lemma full_dir_chain: "chain (next_of demo_full_dir) [FAT32_ROOT_CLUSTER_NO]"
  by (simp add: next_of_def fat_at_def demo_full_dir_def demo_fs_def FAT32_ROOT_CLUSTER_NO_def
      CLUSTER_NO_id FAT32_TERMINAL_val)

lemma full_dir_in_table: "in_table demo_full_dir FAT32_ROOT_CLUSTER_NO"
  by (simp add: demo_full_dir_def demo_in_table FAT32_ROOT_CLUSTER_NO_def)

theorem fat32_get_cluster_no_past_end_witness:
  "\<exists>buf' s'. fat32_get_cluster_no demo_full_dir (replicate 11 65) (replicate 512 0)
      = lookup_dir (replicate 11 65) FAT32_TERMINAL_CLUSTER_NO buf' s'
    \<and> same_store (\<lambda>d. d) demo_full_dir s'"
  by (rule fat32_get_cluster_no_past_end [OF ram.block_device_axioms full_dir_attached full_dir_chain])
     (use full_rec_skips full_dir_records in \<open>fastforce simp: full_dir_in_table\<close>)+




end
