(* ===== verification/Fat32_Insert.thy ===== *)
theory Fat32_Insert
  imports Fat32_Dir
begin

text \<open>
  Allocating a file in the root directory, end to end: where \<open>fat32_alloc_local_file\<close> puts the
  record, what it leaves alone, and that the file is found again afterwards; what happens when a
  sector fills up; and what happens when the table is full.
\<close>

section \<open>Where the record goes\<close>

definition records_before ::
  "('d \<Rightarrow> u32 \<Rightarrow> bytes) \<Rightarrow> 'd fs \<Rightarrow> u32 list \<Rightarrow> u32 \<Rightarrow> nat \<Rightarrow> nat \<Rightarrow> dir_record list" where
  "records_before view s pre c k i =
     dir_records view s pre @ cluster_records view s c [0..<k]
     @ map (rec_at (dir_sector view s c k)) [0..<i]"

text \<open>
  The first terminal of the root directory is record \<open>i\<close> of sector \<open>k\<close> of cluster \<open>c\<close>, after
  the clusters \<open>pre\<close>; the clusters up to it are allocated.
\<close>

definition dir_slot ::
  "('d \<Rightarrow> u32 \<Rightarrow> bytes) \<Rightarrow> 'd fs \<Rightarrow> u32 list \<Rightarrow> u32 \<Rightarrow> nat \<Rightarrow> nat \<Rightarrow> bool" where
  "dir_slot view s pre c k i \<longleftrightarrow>
     dir_walk (next_of s) (pre @ [c]) \<and> hd (pre @ [c]) = FAT32_ROOT_CLUSTER_NO
     \<and> distinct (pre @ [c]) \<and> (\<forall>d \<in> set (pre @ [c]). in_table s d \<and> d \<notin> free_clusters s)
     \<and> k < spc s \<and> i < 16
     \<and> (\<forall>dr \<in> set (records_before view s pre c k i). \<not> live_terminal dr)
     \<and> live_terminal (rec_at (dir_sector view s c k) i)"

text \<open>The sector the insertion writes, and the part of it that matters.\<close>

definition inserted_sector :: "bytes \<Rightarrow> nat \<Rightarrow> dir_record \<Rightarrow> bytes" where
  "inserted_sector buf i dr =
     (if i = 15 then set_rec buf i dr else mark_terminal (set_rec buf i dr) (i + 1))"

lemma length_inserted_sector:
  "length buf = 512 \<Longrightarrow> i < 16 \<Longrightarrow> wf_dir_record dr \<Longrightarrow> length (inserted_sector buf i dr) = 512"
  by (simp add: inserted_sector_def length_set_rec)

lemma rec_at_inserted:
  assumes "length buf = 512" "i < 16" "wf_dir_record dr" "j \<le> i"
  shows "rec_at (inserted_sector buf i dr) j = (if j = i then dr else rec_at buf j)"
  using assms
  by (auto simp: inserted_sector_def rec_at_set_rec length_set_rec rec_at_mark_terminal_other)

definition file_record :: "dir_record \<Rightarrow> bytes \<Rightarrow> u32 \<Rightarrow> dir_record" where
  "file_record dr name c = dr\<lparr>dir_name := take 11 name, dir_first_cluster_low := low_half c,
     dir_first_cluster_high := high_half c, dir_attr := 0\<rparr>"

lemma wf_file_record: "wf_dir_record dr \<Longrightarrow> 11 \<le> length name \<Longrightarrow> wf_dir_record (file_record dr name c)"
  by (simp add: wf_dir_record_def file_record_def)

lemma first_cluster_file_record: "first_cluster (file_record dr name c) = c"
  by (rule first_cluster_halves) (simp_all add: file_record_def)

text \<open>
  What a new file of \<open>n\<close> clusters takes of the volume: the free clusters with the lowest numbers, \<open>a\<close>
  first, in one chain. Its data starts as zeros; written are only the table, the new clusters and the directory
  cluster \<open>c\<close>.
\<close>

definition cluster_sectors :: "'d fs \<Rightarrow> u32 \<Rightarrow> u32 set" where
  "cluster_sectors s c = (\<lambda>k. cluster_no_to_lba s c + of_nat k) ` {..<spc s}"

definition file_fresh ::
  "('d \<Rightarrow> u32 \<Rightarrow> bytes) \<Rightarrow> 'd fs \<Rightarrow> u32 \<Rightarrow> nat \<Rightarrow> u32 \<Rightarrow> 'd fs \<Rightarrow> bool" where
  "file_fresh view s c n a s' \<longleftrightarrow>
     (let U = free_clusters s - free_clusters s'
      in free_clusters s' \<subseteq> free_clusters s \<and> card U = n \<and> a \<in> U
         \<and> (\<forall>e \<in> U. \<forall>d \<in> free_clusters s'. e \<le> d) \<and> (\<forall>d \<in> free_clusters s. a \<le> d)
         \<and> (\<exists>cs. U = set (a # cs) \<and> distinct (a # cs) \<and> chain (next_of s') (a # cs))
         \<and> (\<forall>d. in_table s d \<and> d \<notin> U \<longrightarrow> fat_at s' d = fat_at s d)
         \<and> (\<forall>i < fat_sectors s. mirrored view s i \<longrightarrow> mirrored view s' i)
         \<and> dir_sector view s' a 0 = blank_sector
         \<and> kept view (cluster_writes s U \<union> cluster_sectors s c) s s')"

lemma file_fresh_same_store:
  assumes "same_store view s t"
  shows "file_fresh view t c n a s' = file_fresh view s c n a s'"
proof -
  note e = same_storeD[OF assms] and g = geometry_statics[OF same_storeD(1)[OF assms]]
  have d: "view (dev t) = view (dev s)" "mem t = mem s" using assms by (simp_all add: same_store_def)
  then have "mirrored view t i = mirrored view s i" for i
    using statics_eqD(8)[OF e(1)] by (simp add: mirrored_def mem_bytes_def)
  moreover have "cluster_sectors t c = cluster_sectors s c" using g by (simp add: cluster_sectors_def)
  moreover have "kept view L t s' = kept view L s s'" for L using d by (simp add: kept_def)
  ultimately show ?thesis
    using e cluster_writes_statics[OF e(1)] g by (simp add: file_fresh_def)
qed

context block_device
begin

text \<open>A write to a directory sector, seen through the sectors of the clusters in the table.\<close>

lemma write_dir_sector:
  assumes "attached rd wr invar good s" "in_table s c" "k < spc s" "length buf = 512"
    and "s' = write_sector s buf (cluster_no_to_lba s c + of_nat k)"
  shows "attached rd wr invar good s'" "statics s' = statics s" "mem s' = mem s"
    "in_table s d \<Longrightarrow> k' < spc s \<Longrightarrow>
      dir_sector view s' d k' = (if d = c \<and> k' = k then buf else dir_sector view s d k')"
    "kept view (cluster_sectors s c) s s'" "i < fat_sectors s \<Longrightarrow> mirrored view s i \<Longrightarrow> mirrored view s' i"
proof -
  have g: "geometry_ok s" using assms(1) by (rule attached_geometry)
  note w = write_sector_attached[OF assms(1) lba_data_area(2)[OF g assms(2,3)] assms(4)]
  show "attached rd wr invar good s'" using w(2) by (simp add: assms(5))
  show "kept view (cluster_sectors s c) s s'"
    using w(1) assms(3) by (auto simp: kept_def cluster_sectors_def assms(5))
  show st: "statics s' = statics s" and "mem s' = mem s" by (simp_all add: assms(5))
  then show "mirrored view s' i" if "i < fat_sectors s" "mirrored view s i"
    using that w(1) data_lba_not_fat[OF g that(1) assms(2,3)] statics_eqD(8)[OF st]
    by (simp add: mirrored_def mem_bytes_def assms(5))
  show "dir_sector view s' d k' = (if d = c \<and> k' = k then buf else dir_sector view s d k')"
    if "in_table s d" "k' < spc s"
    using w(1) lba_inj[OF g that(1) assms(2) that(2) assms(3)] geometry_statics(5)[OF st]
    by (simp add: dir_sector_def assms(5))
qed

lemma file_fresh_write:
  assumes "file_fresh view s c n a s1" "statics s1 = statics s" "attached rd wr invar good s1"
    and "in_table s c" "c \<notin> free_clusters s" "k < spc s" "length buf = 512"
    and "s2 = write_sector s1 buf (cluster_no_to_lba s1 c + of_nat k)"
  shows "file_fresh view s c n a s2"
proof -
  have c1: "in_table s1 c" "k < spc s1"
    using assms(4,6) in_table_statics[OF assms(2)] geometry_statics(3)[OF assms(2)] by simp_all
  note w = write_dir_sector[OF assms(3) c1 assms(7,8)]
  have f: "fat_at s2 = fat_at s1" by (rule ext) (simp add: fat_at_def w(3))
  have nx: "next_of s2 = next_of s1" by (rule ext) (simp add: next_of_def f)
  have fc: "free_clusters s2 = free_clusters s1"
    using f statics_eqD(7)[OF w(2)] by (simp add: free_clusters_def)
  note ff = assms(1)[unfolded file_fresh_def Let_def]
  have a: "in_table s1 a" "a \<noteq> c" "0 < spc s1"
    using ff assms(5) c1(2) free_in_table[of a s] in_table_statics[OF assms(2)] by auto
  have cs: "cluster_sectors s1 c = cluster_sectors s c"
    using geometry_statics[OF assms(2)] by (simp add: cluster_sectors_def)
  have "dir_sector view s2 a 0 = dir_sector view s1 a 0" using w(4)[OF a(1,3)] a(2) by simp
  moreover have "mirrored view s1 i \<Longrightarrow> mirrored view s2 i" if "i < fat_sectors s" for i
    using w(6)[of i] that geometry_statics(4)[OF assms(2)] by simp
  moreover have "kept view (L \<union> cluster_sectors s c) s s2" if "kept view (L \<union> cluster_sectors s c) s s1" for L
    using kept_trans[OF that w(5)] cs by simp
  ultimately show ?thesis using ff by (simp add: file_fresh_def f fc nx)
qed

lemma insert_entry_spec:
  assumes "attached rd wr invar good s" "in_table s c" "c \<notin> free_clusters s" "k < spc s" "i < 16"
    and "buf = dir_sector view s c k" "1 \<le> num" "nat num \<le> card (free_clusters s)" "11 \<le> length name"
  shows "\<exists>a s' b'. insert_entry s buf i c k num name = Inr (a, s') \<and> a \<in> free_clusters s
    \<and> attached rd wr invar good s' \<and> statics s' = statics s
    \<and> (\<forall>d. in_table s d \<and> d \<notin> free_clusters s \<longrightarrow> fat_at s' d = fat_at s d)
    \<and> file_fresh view s c (nat num) a s'
    \<and> b' = inserted_sector buf i (file_record (rec_at buf i) name a)
    \<and> (\<forall>d k'. in_table s d \<and> d \<notin> free_clusters s \<and> k' < spc s \<longrightarrow>
          dir_sector view s' d k' =
            (if d = c \<and> k' = k then b'
             else if d = c \<and> k' = k + 1 \<and> i = 15 then mark_terminal b' 0
             else dir_sector view s d k'))"
proof -
  have g: "geometry_ok s" "table_ok s" using attached_geometry attached_table assms(1) by blast+
  have len: "length buf = 512"
    using assms(4,6) read_dir_sector[OF assms(1,2,4), of "replicate 512 0"] by auto
  obtain a cs dr s1 where al: "alloc_local_file_at s (rec_at buf i) num name = Inr (a, dr, s1)"
    "set (a # cs) \<subseteq> free_clusters s" "\<forall>x. x \<notin> ucast ` set (a # cs) \<longrightarrow> mem s1 x = mem s x"
    "statics s1 = statics s" "dr = file_record (rec_at buf i) name a"
    "length (a # cs) = nat num" "distinct (a # cs)" "free_clusters s1 = free_clusters s - set (a # cs)"
    "\<forall>e \<in> set (a # cs). \<forall>d \<in> free_clusters s1. e \<le> d" "\<forall>d \<in> free_clusters s. a \<le> d"
    "chain (next_of s1) (a # cs)"
    unfolding file_record_def using alloc_local_file_at_spec[OF g(2) assms(7,8,9)] by metis
  have U: "free_clusters s - free_clusters s1 = set (a # cs)" using al(2,8) by auto
  note aa = alloc_file_attached[OF assms(1,7,8) al(1), unfolded U]
  note at1 = aa(1) and ds = aa(2) and blank = aa(3)
  note gs = geometry_statics[OF al(4)]
  have nx: "fat_at s1 d = fat_at s d" if "in_table s d" "d \<notin> set (a # cs)" for d
  proof -
    have "(ucast d :: widx) \<notin> ucast ` set (a # cs)"
      using that al(2) in_table_ucast_inj[OF g(2) that(1)] free_in_table by blast
    then show ?thesis using al(3) by (simp add: fat_at_def)
  qed
  have old: "d \<notin> set (a # cs)" if "d \<notin> free_clusters s" for d using that al(2) by blast
  have sec1: "dir_sector view s1 d k' = dir_sector view s d k'"
    if "in_table s d" "d \<notin> free_clusters s" "k' < spc s" for d k'
    using disk_step_data[OF ds that(1) old[OF that(2)] that(3)] gs(5) by (simp add: dir_sector_def)
  have "card (set (a # cs)) = nat num" using al(6) distinct_card[OF al(7)] by simp
  moreover have "kept view (cluster_writes s (set (a # cs)) \<union> cluster_sectors s c) s s1"
    by (rule kept_trans[OF aa(4) kept_refl[of _ "{}"]]) simp
  moreover have "mirrored view s1 i" if "i < fat_sectors s" "mirrored view s i" for i
    using ds that by (simp add: disk_step_def)
  moreover have "dir_sector view s1 a 0 = blank_sector" using blank gs(5) by (simp add: dir_sector_def)
  moreover have "\<exists>cs'. set (a # cs) = set (a # cs') \<and> distinct (a # cs') \<and> chain (next_of s1) (a # cs')"
    using al(7,11) by blast
  ultimately have fr1: "file_fresh view s c (nat num) a s1"
    unfolding file_fresh_def Let_def U using nx al(8-10) by simp
  have wf: "wf_dir_record dr"
    using wf_file_record[OF wf_rec_at[OF len assms(5)] assms(9)] by (simp add: al(5))
  define b' where "b' = inserted_sector buf i dr"
  have lb: "length b' = 512" using length_inserted_sector[OF len assms(5) wf] by (simp add: b'_def)
  have c1: "in_table s1 c" using assms(2) in_table_statics[OF al(4)] by simp
  have k1: "k < spc s1" using assms(4) gs(3) by simp
  define s2 where "s2 = write_sector s1 b' (cluster_no_to_lba s1 c + of_nat k)"
  note w = write_dir_sector[OF at1 c1 k1 lb s2_def]
  have st2: "statics s2 = statics s" using w(2) al(4) by simp
  have ns: "num_dir_sectors s1 = spc s"
    using num_dir_sectors_spc[OF attached_geometry[OF at1]] gs(3) by simp
  have nx2: "fat_at s2 d = fat_at s d" if "in_table s d" "d \<notin> free_clusters s" for d
    using nx[OF that(1) old[OF that(2)]] w(3) by (simp add: fat_at_def)
  have sec2: "dir_sector view s2 d k' = (if d = c \<and> k' = k then b' else dir_sector view s d k')"
    if "in_table s d" "d \<notin> free_clusters s" "k' < spc s" for d k'
    using w(4)[of d k'] sec1[OF that] that gs(3) in_table_statics[OF al(4)] by simp
  have fr2: "file_fresh view s c (nat num) a s2"
    by (rule file_fresh_write[OF fr1 al(4) at1 assms(2-4) lb s2_def])
  show ?thesis
  proof (cases "i = 15 \<and> k + 1 < spc s")
    case False
    then have "insert_entry s buf i c k num name = Inr (a, s2)"
      using assms(4) ns by (auto simp: insert_entry_def al(1) Let_def records_per_sector_def
          s2_def b'_def inserted_sector_def)
    then show ?thesis
      using al(2,5) w(1) st2 nx2 sec2 fr2 False assms(4)
      by (intro exI[of _ a] exI[of _ s2] exI[of _ b']) (auto simp: b'_def)
  next
    case True
    define s3 where "s3 = write_sector s2 (mark_terminal b' 0) (cluster_no_to_lba s2 c + of_nat (k + 1))"
    have c2: "in_table s2 c" and k2: "k + 1 < spc s2"
      using assms(2) in_table_statics[OF st2] True geometry_statics(3)[OF st2] by simp_all
    have lm: "length (mark_terminal b' 0) = 512" using lb by simp
    note w3 = write_dir_sector[OF w(1) c2 k2 lm s3_def]
    have run: "insert_entry s buf i c k num name = Inr (a, s3)"
      using True assms(4) ns geometry_statics(5)[OF w(2)] al(1)
      by (simp add: insert_entry_def Let_def records_per_sector_def s2_def b'_def
          inserted_sector_def s3_def add.assoc add.commute add.left_commute)
    have "fat_at s3 d = fat_at s d" if "in_table s d" "d \<notin> free_clusters s" for d
      using nx2[OF that] w3(3) by (simp add: fat_at_def)
    moreover have "dir_sector view s3 d k' = (if d = c \<and> k' = k then b'
        else if d = c \<and> k' = k + 1 then mark_terminal b' 0 else dir_sector view s d k')"
      if "in_table s d" "d \<notin> free_clusters s" "k' < spc s" for d k'
      using w3(4)[of d k'] sec2[OF that] that geometry_statics(3)[OF st2] in_table_statics[OF st2]
      by auto
    moreover have "file_fresh view s c (nat num) a s3"
      using True by (intro file_fresh_write[OF fr2 st2 w(1) assms(2,3) _ lm s3_def]) simp
    ultimately show ?thesis
      using run al(2,5) w3(1,2) st2 True
      by (intro exI[of _ a] exI[of _ s3] exI[of _ b']) (auto simp: b'_def)
  qed
qed

text \<open>The scan runs past sectors without a terminal, and inserts at the first one.\<close>

lemma alloc_scan_sectors_skip:
  assumes "attached rd wr invar good s" "in_table s c" "\<And>k. k \<in> set js \<Longrightarrow> k < spc s"
    and "length buf = 512" "\<And>dr. dr \<in> set (cluster_records view s c js) \<Longrightarrow> \<not> live_terminal dr"
  shows "\<exists>buf' s'. alloc_scan_sectors c (js @ ks) buf num name s =
      alloc_scan_sectors c ks buf' num name s'
    \<and> attached rd wr invar good s' \<and> same_store view s s' \<and> length buf' = 512"
  using assms
proof (induction js arbitrary: buf s)
  case Nil
  then show ?case by (intro exI[of _ buf] exI[of _ s]) simp
next
  case (Cons k js)
  obtain s1 where r: "read_sector s (cluster_no_to_lba s c + of_nat k) buf = (dir_sector view s c k, s1)"
    and s1: "attached rd wr invar good s1" "same_store view s s1" "length (dir_sector view s c k) = 512"
    using read_dir_sector[OF Cons.prems(1,2) _ Cons.prems(4), of k] Cons.prems(3) by auto
  note st = same_storeD[OF s1(2)]
  have split: "cluster_records view s c (k # js) =
      sector_records (dir_sector view s c k) @ cluster_records view s c js"
    by (simp add: cluster_records_def)
  have "find_terminal (dir_sector view s c k) [0..<records_per_sector] = None"
    using Cons.prems(5) by (auto simp: find_terminal_spec split sector_records_def)
  then have step: "alloc_scan_sectors c ((k # js) @ ks) buf num name s =
      alloc_scan_sectors c (js @ ks) (dir_sector view s c k) num name s1"
    using r by simp
  obtain buf' s' where "alloc_scan_sectors c (js @ ks) (dir_sector view s c k) num name s1 =
      alloc_scan_sectors c ks buf' num name s'"
    "attached rd wr invar good s'" "same_store view s1 s'" "length buf' = 512"
    using Cons.IH[OF s1(1) _ _ s1(3)] Cons.prems(2,3,5) st geometry_statics(3)[OF st(1)]
    by (auto simp: split)
  then show ?case using step same_store_trans[OF s1(2)] by auto
qed

lemma alloc_scan_dir_step:
  assumes "attached rd wr invar good s" "in_table s c" "length buf = 512"
    and "\<And>dr. dr \<in> set (cluster_records view s c [0..<spc s]) \<Longrightarrow> \<not> live_terminal dr"
  shows "\<exists>buf' s'. alloc_scan_dir c p buf num name s = alloc_scan_dir (next_of s c) c buf' num name s'
    \<and> attached rd wr invar good s' \<and> same_store view s s' \<and> length buf' = 512"
proof -
  obtain buf' s' where "alloc_scan_sectors c ([0..<spc s] @ []) buf num name s =
      alloc_scan_sectors c [] buf' num name s'"
    and s': "attached rd wr invar good s'" "same_store view s s'" "length buf' = 512"
    using alloc_scan_sectors_skip[OF assms(1,2) _ assms(3,4), of "[0..<spc s]" "[]" num name] by auto
  moreover have "did_init s'" using attached_table[OF s'(1)] by (simp add: table_ok_def)
  ultimately show ?thesis
    using in_tableD(5)[OF attached_table[OF assms(1)] assms(2)] same_storeD(5)[OF s'(2)]
      num_dir_sectors_spc[OF attached_geometry[OF assms(1)]]
    by (intro exI[of _ buf'] exI[of _ s']) (subst alloc_scan_dir.simps, simp add: fat32_next_cluster_ok)
qed

lemma alloc_scan_dir_walk:
  assumes "attached rd wr invar good s" "dir_walk (next_of s) (pre @ [c])"
    and "\<And>d. d \<in> set pre \<Longrightarrow> in_table s d" "length buf = 512"
    and "\<And>dr. dr \<in> set (dir_records view s pre) \<Longrightarrow> \<not> live_terminal dr"
  shows "\<exists>buf' s' p'. alloc_scan_dir (hd (pre @ [c])) p buf num name s = alloc_scan_dir c p' buf' num name s'
    \<and> attached rd wr invar good s' \<and> same_store view s s' \<and> length buf' = 512"
  using assms
proof (induction pre arbitrary: buf s p)
  case Nil
  then show ?case by (intro exI[of _ buf] exI[of _ s] exI[of _ p]) simp
next
  case (Cons d pre)
  have split: "dir_records view s (d # pre) =
      cluster_records view s d [0..<spc s] @ dir_records view s pre"
    by (simp add: dir_records_def)
  have d: "in_table s d" using Cons.prems(3) by simp
  obtain buf1 s1 where st: "alloc_scan_dir d p buf num name s =
      alloc_scan_dir (next_of s d) d buf1 num name s1"
    and s1: "attached rd wr invar good s1" "same_store view s s1" "length buf1 = 512"
    using alloc_scan_dir_step[OF Cons.prems(1) d Cons.prems(4), of p num name] Cons.prems(5)
    by (auto simp: split)
  note e = same_storeD[OF s1(2)]
  obtain x xs where x: "pre @ [c] = x # xs" by (cases "pre @ [c]") auto
  have w: "next_of s d = hd (pre @ [c])" "dir_walk (next_of s1) (pre @ [c])"
    using Cons.prems(2) x by (simp_all add: e)
  obtain buf' s' p' where "alloc_scan_dir (hd (pre @ [c])) d buf1 num name s1 = alloc_scan_dir c p' buf' num name s'"
    "attached rd wr invar good s'" "same_store view s1 s'" "length buf' = 512"
    using Cons.IH[OF s1(1) w(2) _ s1(3), of d] Cons.prems(3,5) by (auto simp: e split)
  then show ?case using st w(1) same_store_trans[OF s1(2)] by auto
qed

lemma alloc_file_spec:
  assumes "attached rd wr invar good s" "dir_slot view s pre c k i" "length buf = 512"
    and "0 <s num" "nat (sint num) \<le> card (free_clusters s)" "11 \<le> length name"
  shows "\<exists>a s' b'. fat32_alloc_local_file s num name buf = Some (Inr (a, s')) \<and> a \<in> free_clusters s
    \<and> attached rd wr invar good s' \<and> statics s' = statics s
    \<and> (\<forall>d. in_table s d \<and> d \<notin> free_clusters s \<longrightarrow> fat_at s' d = fat_at s d)
    \<and> file_fresh view s c (nat (sint num)) a s'
    \<and> b' = inserted_sector (dir_sector view s c k) i
             (file_record (rec_at (dir_sector view s c k) i) name a)
    \<and> (\<forall>d k'. in_table s d \<and> d \<notin> free_clusters s \<and> k' < spc s \<longrightarrow>
          dir_sector view s' d k' =
            (if d = c \<and> k' = k then b'
             else if d = c \<and> k' = k + 1 \<and> i = 15 then mark_terminal b' 0
             else dir_sector view s d k'))"
proof -
  let ?n = "sint num"
  have num: "1 \<le> ?n" using assms(4) by (simp add: word_sless_alt)
  note slot = assms(2)[unfolded dir_slot_def records_before_def]
  have cs: "in_table s c" "c \<notin> free_clusters s" "k < spc s" "i < 16" using slot by auto
  have g: "geometry_ok s" "table_ok s" using attached_geometry attached_table assms(1) by blast+
  have root: "vd_root_dir_first_cluster (cur_vol s) = hd (pre @ [c])" "did_init s"
    using g slot by (auto simp: geometry_ok_def table_ok_def)
  obtain buf1 s1 p where w: "alloc_scan_dir (hd (pre @ [c])) (hd (pre @ [c])) buf ?n name s =
      alloc_scan_dir c p buf1 ?n name s1"
    and s1: "attached rd wr invar good s1" "same_store view s s1" "length buf1 = 512"
    using alloc_scan_dir_walk[OF assms(1), of pre c buf "hd (pre @ [c])" ?n name] slot assms(3)
    by (auto simp: in_set_conv_decomp)
  note e1 = same_storeD[OF s1(2)]
  have sp1: "spc s1 = spc s" using geometry_statics(3)[OF e1(1)] .
  have js: "[0..<spc s1] = [0..<k] @ k # [Suc k..<spc s]"
    using cs(3) by (simp add: sp1) (metis less_imp_le_nat upt_add_eq_append upt_conv_Cons le0 le_add_diff_inverse)
  have "\<exists>buf2 s2. alloc_scan_sectors c ([0..<k] @ k # [Suc k..<spc s]) buf1 ?n name s1 =
      alloc_scan_sectors c (k # [Suc k..<spc s]) buf2 ?n name s2
      \<and> attached rd wr invar good s2 \<and> same_store view s1 s2 \<and> length buf2 = 512"
    by (rule alloc_scan_sectors_skip[OF s1(1) _ _ s1(3)]) (use slot sp1 in \<open>auto simp: e1\<close>)
  then obtain buf2 s2 where sk: "alloc_scan_sectors c [0..<spc s1] buf1 ?n name s1 =
      alloc_scan_sectors c (k # [Suc k..<spc s]) buf2 ?n name s2"
    and s2: "attached rd wr invar good s2" "same_store view s s2" "length buf2 = 512"
    using same_store_trans[OF s1(2)] unfolding js by blast
  note e2 = same_storeD[OF s2(2)]
  have sp2: "spc s2 = spc s" using geometry_statics(3)[OF e2(1)] .
  have "\<exists>s'. read_sector s2 (cluster_no_to_lba s2 c + of_nat k) buf2 = (dir_sector view s2 c k, s')
      \<and> attached rd wr invar good s' \<and> same_store view s2 s' \<and> length (dir_sector view s2 c k) = 512"
    by (rule read_dir_sector[OF s2(1) _ _ s2(3)]) (simp_all add: e2 sp2 cs)
  then obtain s3 where rd3: "read_sector s2 (cluster_no_to_lba s2 c + of_nat k) buf2 =
      (dir_sector view s c k, s3)"
    and s3: "attached rd wr invar good s3" "same_store view s s3"
    using same_store_trans[OF s2(2)] by (auto simp: e2)
  note e3 = same_storeD[OF s3(2)]
  have ft: "find_terminal (dir_sector view s c k) [0..<records_per_sector] = Some i"
    unfolding records_per_sector_def using slot by (intro find_terminal_upt) auto
  have "\<exists>a s' b'. insert_entry s3 (dir_sector view s c k) i c k ?n name = Inr (a, s')
      \<and> a \<in> free_clusters s3 \<and> attached rd wr invar good s' \<and> statics s' = statics s3
      \<and> (\<forall>d. in_table s3 d \<and> d \<notin> free_clusters s3 \<longrightarrow> fat_at s' d = fat_at s3 d)
      \<and> file_fresh view s3 c (nat ?n) a s'
      \<and> b' = inserted_sector (dir_sector view s c k) i
             (file_record (rec_at (dir_sector view s c k) i) name a)
      \<and> (\<forall>d k'. in_table s3 d \<and> d \<notin> free_clusters s3 \<and> k' < spc s3 \<longrightarrow>
          dir_sector view s' d k' =
            (if d = c \<and> k' = k then b'
             else if d = c \<and> k' = k + 1 \<and> i = 15 then mark_terminal b' 0
             else dir_sector view s3 d k'))"
    by (rule insert_entry_spec[OF s3(1)])
       (use cs num assms(5,6) geometry_statics(3)[OF e3(1)] in \<open>simp_all add: e3\<close>)
  then obtain a s' b' where ins: "insert_entry s3 (dir_sector view s c k) i c k ?n name = Inr (a, s')"
    and res: "a \<in> free_clusters s" "attached rd wr invar good s'" "statics s' = statics s"
      "\<forall>d. in_table s d \<and> d \<notin> free_clusters s \<longrightarrow> fat_at s' d = fat_at s d" "file_fresh view s c (nat ?n) a s'"
      "b' = inserted_sector (dir_sector view s c k) i
             (file_record (rec_at (dir_sector view s c k) i) name a)"
      "\<forall>d k'. in_table s d \<and> d \<notin> free_clusters s \<and> k' < spc s \<longrightarrow>
          dir_sector view s' d k' =
            (if d = c \<and> k' = k then b'
             else if d = c \<and> k' = k + 1 \<and> i = 15 then mark_terminal b' 0
             else dir_sector view s d k')"
    using geometry_statics(3)[OF e3(1)] file_fresh_same_store[OF s3(2)] by (auto simp: e3)
  have "c \<noteq> - 1" using in_tableD(5)[OF g(2) cs(1)] .
  moreover have "num_dir_sectors s1 = spc s1" using num_dir_sectors_spc[OF attached_geometry[OF s1(1)]] .
  ultimately have "alloc_scan_dir c p buf1 ?n name s1 = Some (Inr (a, s'))"
    by (subst alloc_scan_dir.simps) (simp add: sk rd3 ft ins)
  then have "fat32_alloc_local_file s num name buf = Some (Inr (a, s'))"
    using w root by (simp add: fat32_alloc_local_file_def Let_def)
  then show ?thesis using res by blast
qed

end

section \<open>The directory afterwards\<close>

lemma upt_split: "k < n \<Longrightarrow> [0..<n] = [0..<k] @ k # [Suc k..<n]"
  by (metis less_imp_le_nat upt_add_eq_append upt_conv_Cons le0 le_add_diff_inverse)

lemma records_split:
  assumes "k < spc s" "i < 16"
  shows "\<exists>rest. dir_records view s (pre @ [c]) =
    records_before view s pre c k i @ rec_at (dir_sector view s c k) i # rest"
  by (simp add: dir_records_def records_before_def cluster_records_def upt_split[OF assms(1)]
      sector_records_def records_per_sector_def upt_split[OF assms(2)] del: upt_Suc)

text \<open>What the two conclusions of \<open>alloc_file_spec\<close> about sectors say of the list of records.\<close>

lemma records_before_insert:
  assumes "dir_slot view s pre c k i" "statics s' = statics s"
    and "length (dir_sector view s c k) = 512" "wf_dir_record dr"
    and "\<And>d k'. in_table s d \<Longrightarrow> d \<notin> free_clusters s \<Longrightarrow> k' < spc s \<Longrightarrow>
          dir_sector view s' d k' =
            (if d = c \<and> k' = k then inserted_sector (dir_sector view s c k) i dr
             else if d = c \<and> k' = k + 1 \<and> i = 15 then b2
             else dir_sector view s d k')"
  shows "records_before view s' pre c k i = records_before view s pre c k i"
    and "rec_at (dir_sector view s' c k) i = dr"
proof -
  note slot = assms(1)[unfolded dir_slot_def]
  have cs: "in_table s c" "c \<notin> free_clusters s" "k < spc s" "i < 16" using slot by auto
  note sp = geometry_statics(3)[OF assms(2)]
  have ck: "dir_sector view s' c k = inserted_sector (dir_sector view s c k) i dr"
    using assms(5)[OF cs(1-3)] by simp
  show "rec_at (dir_sector view s' c k) i = dr"
    using rec_at_inserted[OF assms(3) cs(4) assms(4), of i] by (simp add: ck)
  have "cluster_records view s' c [0..<k] = cluster_records view s c [0..<k]"
    using assms(5)[OF cs(1,2)] cs(3) by (auto simp: cluster_records_def intro!: arg_cong[where f = concat])
  moreover have "cluster_records view s' d [0..<spc s] = cluster_records view s d [0..<spc s]"
    if "d \<in> set pre" for d
    using assms(5)[of d] that slot
    by (auto simp: cluster_records_def intro!: arg_cong[where f = concat])
  then have "dir_records view s' pre = dir_records view s pre"
    unfolding dir_records_def sp by (metis (mono_tags, lifting) map_eq_conv)
  moreover have "map (rec_at (dir_sector view s' c k)) [0..<i] = map (rec_at (dir_sector view s c k)) [0..<i]"
    using rec_at_inserted[OF assms(3) cs(4) assms(4)] by (auto simp: ck)
  ultimately show "records_before view s' pre c k i = records_before view s pre c k i"
    by (simp add: records_before_def)
qed

text \<open>
  The whole effect of an allocation on the directory, in the form the properties use: the list of
  records up to the slot is unchanged, the slot holds the file's record.
\<close>

definition file_inserted ::
  "('d \<Rightarrow> u32 \<Rightarrow> bytes) \<Rightarrow> 'd fs \<Rightarrow> u32 list \<Rightarrow> u32 \<Rightarrow> nat \<Rightarrow> nat \<Rightarrow> bytes \<Rightarrow> u32 \<Rightarrow> 'd fs \<Rightarrow> bool" where
  "file_inserted view s pre c k i name a s' \<longleftrightarrow>
     a \<in> free_clusters s \<and> statics s' = statics s
     \<and> (\<forall>d. in_table s d \<and> d \<notin> free_clusters s \<longrightarrow> fat_at s' d = fat_at s d)
     \<and> records_before view s' pre c k i = records_before view s pre c k i
     \<and> rec_at (dir_sector view s' c k) i = file_record (rec_at (dir_sector view s c k) i) name a
     \<and> dir_sector view s' c k = inserted_sector (dir_sector view s c k) i
         (file_record (rec_at (dir_sector view s c k) i) name a)
     \<and> (i = 15 \<and> k + 1 < spc s \<longrightarrow>
          dir_sector view s' c (k + 1) = mark_terminal (dir_sector view s' c k) 0)
     \<and> (\<forall>d k'. in_table s d \<and> d \<notin> free_clusters s \<and> k' < spc s
          \<and> \<not> (d = c \<and> (k' = k \<or> k' = k + 1 \<and> i = 15)) \<longrightarrow>
          dir_sector view s' d k' = dir_sector view s d k')"

lemma alloc_file_inserted:
  assumes "block_device rd wr view good invar" "attached rd wr invar good s"
    and "dir_slot view s pre c k i" "length buf = 512"
    and "0 <s num" "nat (sint num) \<le> card (free_clusters s)" "11 \<le> length name"
  shows "\<exists>a s'. fat32_alloc_local_file s num name buf = Some (Inr (a, s'))
    \<and> attached rd wr invar good s' \<and> file_inserted view s pre c k i name a s'
    \<and> file_fresh view s c (nat (sint num)) a s'"
proof -
  note slot = assms(3)[unfolded dir_slot_def]
  have cs: "in_table s c" "c \<notin> free_clusters s" "k < spc s" "i < 16" using slot by auto
  have len: "length (dir_sector view s c k) = 512"
    using block_device.read_dir_sector[OF assms(1,2) cs(1,3), of "replicate 512 0"] by auto
  let ?dr = "\<lambda>a. file_record (rec_at (dir_sector view s c k) i) name a"
  have wf: "wf_dir_record (?dr a)" for a
    using wf_file_record[OF wf_rec_at[OF len cs(4)] assms(7)] .
  from block_device.alloc_file_spec[OF assms]
  obtain a s' b' where r: "fat32_alloc_local_file s num name buf = Some (Inr (a, s'))"
    "a \<in> free_clusters s" "attached rd wr invar good s'" "statics s' = statics s"
    "\<forall>d. in_table s d \<and> d \<notin> free_clusters s \<longrightarrow> fat_at s' d = fat_at s d" "file_fresh view s c (nat (sint num)) a s'"
    and b': "b' = inserted_sector (dir_sector view s c k) i (?dr a)"
    and sec: "\<forall>d k'. in_table s d \<and> d \<notin> free_clusters s \<and> k' < spc s \<longrightarrow>
       dir_sector view s' d k' =
         (if d = c \<and> k' = k then b'
          else if d = c \<and> k' = k + 1 \<and> i = 15 then mark_terminal b' 0
          else dir_sector view s d k')"
    by (elim exE conjE) (rule that)
  have r6: "dir_sector view s' d k' =
         (if d = c \<and> k' = k then inserted_sector (dir_sector view s c k) i (?dr a)
          else if d = c \<and> k' = k + 1 \<and> i = 15 then mark_terminal b' 0
          else dir_sector view s d k')"
    if "in_table s d" "d \<notin> free_clusters s" "k' < spc s" for d k'
    using sec that b' by blast
  note rb = records_before_insert[OF assms(3) r(4) len wf r6]
  have ck: "dir_sector view s' c k = inserted_sector (dir_sector view s c k) i (?dr a)"
    using r6[OF cs(1-3)] by simp
  have "dir_sector view s' c (k + 1) = mark_terminal (dir_sector view s' c k) 0"
    if "i = 15 \<and> k + 1 < spc s"
    using r6[OF cs(1,2), of "k + 1"] that b' by (simp add: ck)
  moreover have "dir_sector view s' d k' = dir_sector view s d k'"
    if "in_table s d" "d \<notin> free_clusters s" "k' < spc s" "\<not> (d = c \<and> (k' = k \<or> k' = k + 1 \<and> i = 15))"
    for d k'
    using r6[OF that(1-3)] that(4) by (auto split: if_splits)
  ultimately have "file_inserted view s pre c k i name a s'"
    unfolding file_inserted_def using r(2,4,5) rb ck by blast
  then show ?thesis using r(1,3,6) by blast
qed

lemma file_inserted_walk:
  assumes "dir_slot view s pre c k i" "file_inserted view s pre c k i name a s'"
  shows "dir_walk (next_of s') (pre @ [c])" "\<forall>d \<in> set (pre @ [c]). in_table s' d"
    and "\<exists>rest. dir_records view s' (pre @ [c]) = records_before view s pre c k i
      @ file_record (rec_at (dir_sector view s c k) i) name a # rest"
proof -
  note slot = assms(1)[unfolded dir_slot_def] and ins = assms(2)[unfolded file_inserted_def]
  have st: "statics s' = statics s" using ins by blast
  have "fat_at s' d = fat_at s d" if "d \<in> set (pre @ [c])" for d using that slot ins by blast
  then have "next_of s' d = next_of s d" if "d \<in> set (pre @ [c])" for d
    using that by (simp add: next_of_def)
  then show "dir_walk (next_of s') (pre @ [c])"
    using slot dir_walk_cong[of "pre @ [c]" "next_of s" "next_of s'"] by simp
  show "\<forall>d \<in> set (pre @ [c]). in_table s' d"
    using slot in_table_statics[OF st] by blast
  have "k < spc s'" "i < 16" using slot geometry_statics(3)[OF st] by auto
  from records_split[OF this, of view pre c]
  show "\<exists>rest. dir_records view s' (pre @ [c]) = records_before view s pre c k i
      @ file_record (rec_at (dir_sector view s c k) i) name a # rest"
    using ins by metis
qed

lemma lookup_inserted:
  assumes "block_device rd wr view good invar" "attached rd wr invar good s'"
    and "dir_slot view s pre c k i" "file_inserted view s pre c k i name a s'"
    and "find_record fn (records_before view s pre c k i
           @ [file_record (rec_at (dir_sector view s c k) i) name a]) = Some r"
    and "11 \<le> length fn" "length buf = 512"
  shows "\<exists>s''. fat32_get_cluster_no s' fn buf = Some (Inr (r, s'')) \<and> same_store view s' s''"
proof -
  note w = file_inserted_walk[OF assms(3,4)]
  have hd: "hd (pre @ [c]) = FAT32_ROOT_CLUSTER_NO" using assms(3) by (simp add: dir_slot_def)
  then obtain cs where pc: "pre @ [c] = FAT32_ROOT_CLUSTER_NO # cs" by (cases "pre @ [c]") auto
  obtain rest where "dir_records view s' (pre @ [c]) = records_before view s pre c k i
      @ file_record (rec_at (dir_sector view s c k) i) name a # rest" using w(3) by blast
  then have fr: "find_record fn (dir_records view s' (FAT32_ROOT_CLUSTER_NO # cs)) = Some r"
    using assms(5) by (simp add: pc find_record_append split: option.splits if_splits)
  have di: "did_init s'" using attached_table[OF assms(2)] by (simp add: table_ok_def)
  show ?thesis
    using block_device.lookup_dir_walk[OF assms(1,2), of FAT32_ROOT_CLUSTER_NO cs buf fn]
      w(1,2) assms(6,7) di fr unfolding pc fat32_get_cluster_no_def by auto
qed

lemma find_record_file:
  assumes "\<And>dr. dr \<in> set drs \<Longrightarrow> \<not> live_terminal dr \<and> \<not> name_matches name dr"
    and "name ! 0 \<noteq> 0" "11 \<le> length name"
  shows "find_record name (drs @ [file_record dr name a]) = Some a"
proof -
  have "find_record name drs = None" using assms(1) by (simp add: find_record_None)
  moreover have "\<not> live_terminal (file_record dr name a)"
    using assms(2,3) by (simp add: live_terminal_def IS_TERMINAL_def file_record_def)
  moreover have "name_matches name (file_record dr name a)"
    by (simp add: name_matches_def file_record_def IS_LFN_def same_prefix_def)
  ultimately show ?thesis
    by (simp add: find_record_append first_cluster_file_record)
qed

text \<open>
  C5: allocating a file and then looking its name up gives the file: \<open>fat32_alloc_local_file\<close>
  returns a cluster that was free, \<open>fat32_get_cluster_no\<close> finds exactly that cluster afterwards,
  and every name that was found in the records before the insertion is still found, at the same
  cluster.
\<close>

theorem fat32_alloc_then_lookup:
  assumes "block_device rd wr view good invar" "attached rd wr invar good s"
    and "dir_slot view s pre c k i" "length buf = 512" "length buf' = 512"
    and "0 <s num" "nat (sint num) \<le> card (free_clusters s)" "11 \<le> length name" "name ! 0 \<noteq> 0"
    and "\<And>dr. dr \<in> set (records_before view s pre c k i) \<Longrightarrow> \<not> name_matches name dr"
  shows "\<exists>a s'. fat32_alloc_local_file s num name buf = Some (Inr (a, s'))
    \<and> a \<in> free_clusters s \<and> attached rd wr invar good s'
    \<and> (\<exists>s''. fat32_get_cluster_no s' name buf' = Some (Inr (a, s'')) \<and> same_store view s' s'')
    \<and> (\<forall>other r. 11 \<le> length other
          \<and> find_record other (records_before view s pre c k i) = Some r \<longrightarrow>
          (\<exists>s''. fat32_get_cluster_no s' other buf' = Some (Inr (r, s''))))"
proof -
  obtain a s' where r: "fat32_alloc_local_file s num name buf = Some (Inr (a, s'))"
    "attached rd wr invar good s'" "file_inserted view s pre c k i name a s'"
    using alloc_file_inserted[OF assms(1-4,6-8)] by blast
  let ?rs = "records_before view s pre c k i"
  let ?dr = "file_record (rec_at (dir_sector view s c k) i) name a"
  note look = lookup_inserted[OF assms(1) r(2) assms(3) r(3)]
  have "find_record name (?rs @ [?dr]) = Some a"
    using assms(3,8,9,10) by (intro find_record_file) (auto simp: dir_slot_def)
  then have 1: "\<exists>s''. fat32_get_cluster_no s' name buf' = Some (Inr (a, s'')) \<and> same_store view s' s''"
    using look assms(5,8) by blast
  have 2: "\<exists>s''. fat32_get_cluster_no s' other buf' = Some (Inr (x, s''))"
    if "11 \<le> length other" "find_record other ?rs = Some x" for other x
    using look[of other x buf'] that assms(5) by (auto simp: find_record_append)
  have "a \<in> free_clusters s" using r(3) by (simp add: file_inserted_def)
  then show ?thesis using r 1 2 by blast
qed

lemma demo0_sector: "dir_sector (\<lambda>d. d) demo0 c k = replicate 512 0"
  by (simp add: dir_sector_def demo0_def demo_fs_def)

lemma blank_live_terminal: "i < 16 \<Longrightarrow> live_terminal (rec_at (replicate 512 0) i)"
  by (simp add: rec_at_def chunk_def live_terminal_def decode_dir_record_def IS_LFN_def IS_TERMINAL_def)

lemma demo0_slot: "dir_slot (\<lambda>d. d) demo0 [] 2 0 0"
  using demo0_free[of 2] blank_live_terminal[of 0]
  by (simp add: dir_slot_def records_before_def dir_records_def cluster_records_def demo0_sector
      FAT32_ROOT_CLUSTER_NO_def) (simp add: demo0_def demo_in_table demo_spc word_le_nat_alt)

lemma demo0_records_before: "records_before (\<lambda>d. d) demo0 [] 2 0 0 = []"
  by (simp add: records_before_def dir_records_def cluster_records_def)

theorem fat32_alloc_then_lookup_witness:
  "\<exists>a s'. fat32_alloc_local_file demo0 2 (replicate 11 65) (replicate 512 0) = Some (Inr (a, s'))
    \<and> a \<in> free_clusters demo0 \<and> attached ram_read ram_write ram_invar (\<lambda>_. True) s'
    \<and> (\<exists>s''. fat32_get_cluster_no s' (replicate 11 65) (replicate 512 0) = Some (Inr (a, s''))
          \<and> same_store (\<lambda>d. d) s' s'')
    \<and> (\<forall>other r. 11 \<le> length other
          \<and> find_record other (records_before (\<lambda>d. d) demo0 [] 2 0 0) = Some r \<longrightarrow>
          (\<exists>s''. fat32_get_cluster_no s' other (replicate 512 0) = Some (Inr (r, s''))))"
  by (rule fat32_alloc_then_lookup [OF ram.block_device_axioms demo0_attached demo0_slot])
     (use demo0_free_card in \<open>simp_all add: demo0_records_before word_sless_alt\<close>)

section \<open>Where the terminal goes\<close>

text \<open>
  C23: the slot moves on by one. After an insertion the directory again has its first terminal in the
  record after the new one (in the next sector when the sector is full), provided that record does
  not carry the long-name attribute from an earlier use: then the next allocation and every lookup
  find the directory well formed.
\<close>

theorem fat32_alloc_slot_advances:
  assumes "block_device rd wr view good invar" "attached rd wr invar good s"
    and "dir_slot view s pre c k i" "length buf = 512"
    and "0 <s num" "nat (sint num) \<le> card (free_clusters s)" "11 \<le> length name" "name ! 0 \<noteq> 0"
    and "if i < 15 then \<not> IS_LFN (dir_attr (rec_at (dir_sector view s c k) (i + 1)))
         else k + 1 < spc s \<and> \<not> IS_LFN (dir_attr (rec_at (dir_sector view s c k) 0))"
  shows "\<exists>a s'. fat32_alloc_local_file s num name buf = Some (Inr (a, s'))
    \<and> (if i < 15 then dir_slot view s' pre c k (i + 1) else dir_slot view s' pre c (k + 1) 0)"
proof -
  obtain a s' where r: "fat32_alloc_local_file s num name buf = Some (Inr (a, s'))"
    "attached rd wr invar good s'" "file_inserted view s pre c k i name a s'"
    using alloc_file_inserted[OF assms(1-7)] by blast
  note slot = assms(3)[unfolded dir_slot_def] and ins = r(3)[unfolded file_inserted_def]
  have cs: "in_table s c" "k < spc s" "i < 16" using slot by auto
  let ?b = "dir_sector view s c k" and ?b' = "dir_sector view s' c k"
  let ?dr = "file_record (rec_at ?b i) name a"
  have len: "length ?b = 512"
    using block_device.read_dir_sector[OF assms(1,2) cs(1,2), of "replicate 512 0"] by auto
  have wf: "wf_dir_record ?dr" using wf_file_record[OF wf_rec_at[OF len cs(3)] assms(7)] .
  have b': "?b' = inserted_sector ?b i ?dr" using ins by blast
  have lb': "length ?b' = 512" unfolding b' by (rule length_inserted_sector[OF len cs(3) wf])
  have st: "statics s' = statics s" using ins by blast
  have nl: "\<not> live_terminal ?dr"
    using assms(7,8) by (simp add: live_terminal_def IS_TERMINAL_def file_record_def)
  have before: "\<not> live_terminal dr" if "dr \<in> set (records_before view s' pre c k i)" for dr
    using that slot ins by auto
  have at_i: "rec_at ?b' i = ?dr" using ins by blast
  have nf: "d \<notin> free_clusters s'" if "d \<in> set (pre @ [c])" for d
  proof -
    have d: "in_table s d" "d \<notin> free_clusters s" using that slot by auto
    then have "fat_at s d \<noteq> 0" by (simp add: free_clusters_def in_table_def)
    then show ?thesis using d ins by (simp add: free_clusters_def)
  qed
  note w = file_inserted_walk[OF assms(3) r(3)]
  have base: "dir_walk (next_of s') (pre @ [c])" "hd (pre @ [c]) = FAT32_ROOT_CLUSTER_NO"
    "distinct (pre @ [c])" "\<forall>d \<in> set (pre @ [c]). in_table s' d \<and> d \<notin> free_clusters s'"
    using w nf slot by auto
  have "if i < 15 then dir_slot view s' pre c k (i + 1) else dir_slot view s' pre c (k + 1) 0"
  proof (cases "i < 15")
    case True
    have "records_before view s' pre c k (i + 1) = records_before view s' pre c k i @ [?dr]"
      by (simp add: records_before_def at_i)
    moreover have "live_terminal (rec_at ?b' (i + 1))"
      using True assms(9) terminal_mark_terminal[OF length_set_rec[OF len cs(3) wf], of "i + 1"]
        attr_mark_terminal[OF length_set_rec[OF len cs(3) wf], of "i + 1"]
        rec_at_set_rec[OF len cs(3) _ wf, of "i + 1"]
      by (simp add: live_terminal_def b' inserted_sector_def)
    ultimately show ?thesis
      using True base before nl cs(2) geometry_statics(3)[OF st] by (auto simp: dir_slot_def)
  next
    case False
    then have i: "i = 15" and k: "k + 1 < spc s" using cs(3) assms(9) by auto
    have all: "[0..<16] = [0..<15] @ [15::nat]" by (simp add: upt_rec)
    have "records_before view s' pre c (k + 1) 0 = records_before view s' pre c k i @ [?dr]"
      using at_i
      by (simp add: records_before_def cluster_records_def sector_records_def
          records_per_sector_def i all del: upt_Suc) (simp add: cluster_records_def)
    moreover have "dir_sector view s' c (k + 1) = mark_terminal ?b' 0" using ins i k by blast
    moreover have "rec_at ?b' 0 = rec_at ?b 0"
      using rec_at_inserted[OF len cs(3) wf, of 0] by (simp add: b' i)
    ultimately show ?thesis
      using i k base before nl assms(9) geometry_statics(3)[OF st] lb'
      by (auto simp: dir_slot_def live_terminal_def terminal_mark_terminal attr_mark_terminal)
  qed
  then show ?thesis using r(1) by blast
qed

theorem fat32_alloc_slot_advances_witness:
  "\<exists>a s'. fat32_alloc_local_file demo0 2 (replicate 11 65) (replicate 512 0) = Some (Inr (a, s'))
    \<and> (if (0::nat) < 15 then dir_slot (\<lambda>d. d) s' [] 2 0 (0 + 1) else dir_slot (\<lambda>d. d) s' [] 2 (0 + 1) 0)"
  by (rule fat32_alloc_slot_advances [OF ram.block_device_axioms demo0_attached demo0_slot])
     (use demo0_free_card in \<open>simp_all add: demo0_sector word_sless_alt rec_at_def chunk_def
        decode_dir_record_def IS_LFN_def\<close>)

text \<open>
  C36: when the new record is the last of its sector, the terminal is written by copying the whole
  sector to the next one with its first byte cleared. If the sector starts with a long-name record
  (attribute 0x0f) the cleared record is not taken for a terminal: neither sector has one any more,
  and the other records of the full sector, the new file's among them, appear a second time in the
  directory.
\<close>

theorem fat32_alloc_duplicates_sector:
  assumes "block_device rd wr view good invar" "attached rd wr invar good s"
    and "dir_slot view s pre c k 15" "k + 1 < spc s"
    and "IS_LFN (dir_attr (rec_at (dir_sector view s c k) 0))" "length buf = 512"
    and "0 <s num" "nat (sint num) \<le> card (free_clusters s)" "11 \<le> length name" "name ! 0 \<noteq> 0"
  shows "\<exists>a s'. fat32_alloc_local_file s num name buf = Some (Inr (a, s'))
    \<and> (\<forall>j \<in> {1..<16}. rec_at (dir_sector view s' c (k + 1)) j = rec_at (dir_sector view s' c k) j)
    \<and> (\<forall>dr \<in> set (sector_records (dir_sector view s' c k)) \<union>
              set (sector_records (dir_sector view s' c (k + 1))). \<not> live_terminal dr)"
proof -
  obtain a s' where r: "fat32_alloc_local_file s num name buf = Some (Inr (a, s'))"
    "file_inserted view s pre c k 15 name a s'"
    using alloc_file_inserted[OF assms(1-3,6-9)] by blast
  note slot = assms(3)[unfolded dir_slot_def] and ins = r(2)[unfolded file_inserted_def]
  let ?b = "dir_sector view s c k" and ?b' = "dir_sector view s' c k"
  let ?dr = "file_record (rec_at ?b 15) name a"
  have cs: "in_table s c" "k < spc s" "(15::nat) < 16" using slot by auto
  have len: "length ?b = 512"
    using block_device.read_dir_sector[OF assms(1,2) cs(1,2), of "replicate 512 0"] by auto
  have wf: "wf_dir_record ?dr" using wf_file_record[OF wf_rec_at[OF len cs(3)] assms(9)] .
  have b': "?b' = inserted_sector ?b 15 ?dr" and b2: "dir_sector view s' c (k + 1) = mark_terminal ?b' 0"
    using ins assms(4) by blast+
  have lb': "length ?b' = 512" unfolding b' by (rule length_inserted_sector[OF len cs(3) wf])
  have recs: "rec_at ?b' j = (if j = 15 then ?dr else rec_at ?b j)" if "j \<le> 15" for j
    using rec_at_inserted[OF len cs(3) wf that] by (simp add: b')
  have same: "rec_at (dir_sector view s' c (k + 1)) j = rec_at ?b' j" if "j \<in> {1..<16}" for j
    unfolding b2 using that lb' by (simp add: rec_at_mark_terminal_other)
  have old: "\<not> live_terminal (rec_at ?b j)" if "j < 15" for j
    using slot that by (auto simp: records_before_def)
  have new: "\<not> live_terminal ?dr"
    using assms(9,10) by (simp add: live_terminal_def IS_TERMINAL_def file_record_def)
  have here: "\<not> live_terminal (rec_at ?b' j)" if "j < 16" for j
    using that recs[of j] old[of j] new by auto
  have "\<not> live_terminal (rec_at (dir_sector view s' c (k + 1)) 0)"
    unfolding b2 using assms(5) recs[of 0] attr_mark_terminal[OF lb', of 0]
    by (simp add: live_terminal_def)
  then have "\<not> live_terminal (rec_at (dir_sector view s' c (k + 1)) j)" if "j < 16" for j
    using that same[of j] here[of j] by (cases j) auto
  then show ?thesis
    using r(1) same here by (auto simp: sector_records_def records_per_sector_def)
qed

text \<open>A root directory whose first sector has one record left and starts with a long-name record.\<close>

definition demo_lfn_sector :: bytes where
  "demo_lfn_sector = replicate 11 66 @ [0x0f] @ replicate 468 66 @ replicate 32 0"

definition demo_lfn :: "(u32 \<Rightarrow> bytes) fs" where
  "demo_lfn = demo_fs (\<lambda>l. if l = 50 then demo_lfn_sector else replicate 512 0)
     (\<lambda>x. if x = 2 then 0x0FFFFFFF else 0)"

lemma demo_lfn_attached: "attached ram_read ram_write ram_invar (\<lambda>_. True) demo_lfn"
  by (simp add: attached_def demo_lfn_def demo_geometry_ok)
     (simp add: demo_fs_def ram_invar_def demo_lfn_sector_def)

lemma demo_lfn_sector_at: "dir_sector (\<lambda>d. d) demo_lfn 2 0 = demo_lfn_sector"
  by (simp add: dir_sector_def demo_lfn_def demo_fs_def cluster_no_to_lba_def cur_vol_def demo_vol_def)

lemma demo_lfn_rec:
  "rec_at demo_lfn_sector 0 = decode_dir_record (replicate 11 66 @ [0x0f] @ replicate 20 66)"
  "0 < i \<Longrightarrow> i < 15 \<Longrightarrow> rec_at demo_lfn_sector i = decode_dir_record (replicate 32 66)"
  "rec_at demo_lfn_sector 15 = decode_dir_record (replicate 32 0)"
  by (auto simp: rec_at_def demo_lfn_sector_def nth_append nth_Cons' intro!: arg_cong[where f = decode_dir_record]
      nth_equalityI)

lemma demo_lfn_records:
  "\<forall>i \<in> {0..<15}. \<not> live_terminal (rec_at demo_lfn_sector i)"
  "live_terminal (rec_at demo_lfn_sector 15)" "IS_LFN (dir_attr (rec_at demo_lfn_sector 0))"
proof -
  have d: "\<not> live_terminal (decode_dir_record (replicate 11 66 @ [0x0f] @ replicate 20 66))"
    "live_terminal (decode_dir_record (replicate 32 0))"
    "IS_LFN (dir_attr (decode_dir_record (replicate 11 66 @ [0x0f] @ replicate 20 66)))"
    by code_simp+
  show "\<forall>i \<in> {0..<15}. \<not> live_terminal (rec_at demo_lfn_sector i)"
  proof
    fix i :: nat assume "i \<in> {0..<15}"
    then show "\<not> live_terminal (rec_at demo_lfn_sector i)"
      using d(1) full_rec_skips(1) by (cases "i = 0") (simp_all only: demo_lfn_rec, auto simp: demo_lfn_rec)
  qed
  show "live_terminal (rec_at demo_lfn_sector 15)" "IS_LFN (dir_attr (rec_at demo_lfn_sector 0))"
    using d by (simp_all only: demo_lfn_rec)
qed

lemma demo_lfn_free: "free_clusters demo_lfn = free_clusters demo0"
  by (simp add: free_clusters_def demo_lfn_def demo0_def demo_fs_def fat_at_def)

lemma demo_lfn_slot: "dir_slot (\<lambda>d. d) demo_lfn [] 2 0 15"
  using demo_lfn_records demo0_free[of 2]
  by (simp add: dir_slot_def records_before_def dir_records_def cluster_records_def
      demo_lfn_sector_at FAT32_ROOT_CLUSTER_NO_def demo_lfn_free)
     (simp add: demo_lfn_def demo_in_table demo_spc word_le_nat_alt)

theorem fat32_alloc_duplicates_sector_witness:
  "\<exists>a s'. fat32_alloc_local_file demo_lfn 2 (replicate 11 65) (replicate 512 0) = Some (Inr (a, s'))
    \<and> (\<forall>j \<in> {1..<16}. rec_at (dir_sector (\<lambda>d. d) s' 2 (0 + 1)) j = rec_at (dir_sector (\<lambda>d. d) s' 2 0) j)
    \<and> (\<forall>dr \<in> set (sector_records (dir_sector (\<lambda>d. d) s' 2 0)) \<union>
              set (sector_records (dir_sector (\<lambda>d. d) s' 2 (0 + 1))). \<not> live_terminal dr)"
  by (rule fat32_alloc_duplicates_sector [OF ram.block_device_axioms demo_lfn_attached demo_lfn_slot])
     (use demo0_free_card in \<open>simp_all add: demo_lfn_sector_at demo_lfn_records demo_lfn_free
        word_sless_alt\<close>, simp add: demo_lfn_def demo_spc)

section \<open>A full table\<close>

text \<open>
  C38: \<open>alloc_free_local_cluster\<close> does not check the -1 of \<open>find_free_local_cluster\<close>. With no free
  cluster it marks "cluster" 0x0FFFFFFF, past the end of the table, sends the 512 bytes of memory
  around that entry to sector 0x1FFFFF of the table, outside the table's sectors, clears the data
  sector that number stands for, and returns -1; every table entry keeps its value.
\<close>

theorem alloc_free_local_cluster_full:
  assumes "table_ok s" "free_clusters s = {}"
  shows "alloc_free_local_cluster s = Inr (- 1,
      write_sector
        (write_sector (fat_set s 0x0FFFFFFF 0x0FFFFFFF)
           (mem_bytes (fat_set s 0x0FFFFFFF 0x0FFFFFFF) 0x0FFFFF80 128)
           (0x1FFFFF + fat_begin_lba (cur_vol s)))
        blank_sector (cluster_no_to_lba s 0x0FFFFFFF))
    \<and> \<not> in_table s 0x0FFFFFFF"
proof -
  let ?s1 = "fat_set s 0x0FFFFFFF 0x0FFFFFFF"
  have ok: "did_init s" "2 \<le> unat (FAT_end s)" "unat (FAT_end s) \<le> 0x0FFFFFFF"
    using assms(1) by (simp_all add: table_ok_def)
  have ff: "find_free_from s 2 = - 1"
    using find_free_spec[OF ok(2)] assms(2) by auto
  have st: "statics ?s1 = statics s" by simp
  have e: "flush_entry ?s1 0x0FFFFFFF = write_sector ?s1 (mem_bytes ?s1 0x0FFFFF80 128)
      (0x1FFFFF + fat_begin_lba (cur_vol s))"
    by (simp add: flush_entry_def words_per_sector_def statics_eqD(8)[OF st])
  have l: "cluster_no_to_lba (flush_entry ?s1 0x0FFFFFFF) k = cluster_no_to_lba s k" for k
    by (rule geometry_statics(5)) simp
  have "\<not> in_table s 0x0FFFFFFF" using ok(3) by (simp add: in_table_def)
  then show ?thesis
    using ok(1) ff l by (simp add: alloc_free_local_cluster_def find_free_local_cluster_def Let_def e)
qed

theorem alloc_free_local_cluster_full_witness:
  "let s = demo_fs (\<lambda>_. replicate 512 0) (\<lambda>_. 0x0FFFFFFF) in
    alloc_free_local_cluster s = Inr (- 1,
      write_sector
        (write_sector (fat_set s 0x0FFFFFFF 0x0FFFFFFF)
           (mem_bytes (fat_set s 0x0FFFFFFF 0x0FFFFFFF) 0x0FFFFF80 128)
           (0x1FFFFF + fat_begin_lba (cur_vol s)))
        blank_sector (cluster_no_to_lba s 0x0FFFFFFF))
    \<and> \<not> in_table s 0x0FFFFFFF"
  unfolding Let_def
  by (rule alloc_free_local_cluster_full)
     (simp add: demo_table_ok, simp add: free_clusters_def demo_fs_def fat_at_def)

end
