(* ===== verification/Fat32_Cluster.thy ===== *)
theory Fat32_Cluster
  imports Fat32_Insert
begin

text \<open>
  Moving whole clusters with \<open>write_cluster\<close> and \<open>read_cluster\<close> of \<open>src/pi-src/fat32.c\<close> (their
  definitions are with the other routines in \<open>Fat32_Dir\<close>): what is written to a cluster is read
  back, and no other cluster changes.
\<close>

lemma chunk_Suc_append:
  assumes "512 * Suc i \<le> length xs"
  shows "take (512 * i) xs @ chunk (512 * i) 512 xs = take (512 * Suc i) xs"
  by (simp add: chunk_def take_add[symmetric] add.commute)

context block_device
begin

lemma write_cluster_loop_spec:
  assumes "attached rd wr invar good s" "in_table s c" "i + n = spc s" "length src = 512 * spc s"
    and "s' = write_cluster_loop n i (cluster_no_to_lba s c + of_nat i) src s"
  shows "attached rd wr invar good s' \<and> statics s' = statics s \<and> mem s' = mem s
    \<and> (\<forall>d k. in_table s d \<and> k < spc s \<longrightarrow> dir_sector view s' d k =
          (if d = c \<and> i \<le> k then chunk (512 * k) 512 src else dir_sector view s d k))"
  using assms
proof (induction n arbitrary: i s)
  case 0
  then show ?case by auto
next
  case (Suc n)
  have i: "i < spc s" using Suc.prems(3) by simp
  have len: "length (chunk (512 * i) 512 src) = 512" using i Suc.prems(4) by simp
  define s1 where "s1 = write_sector s (chunk (512 * i) 512 src) (cluster_no_to_lba s c + of_nat i)"
  note w = write_dir_sector[OF Suc.prems(1,2) i len s1_def]
  note g = geometry_statics[OF w(2)] and t = in_table_statics[OF w(2)]
  have run: "s' = write_cluster_loop n (Suc i) (cluster_no_to_lba s1 c + of_nat (Suc i)) src s1"
    using Suc.prems(5) g(5) by (simp add: s1_def SD_SECTOR_SIZE_def ac_simps)
  have "attached rd wr invar good s' \<and> statics s' = statics s1 \<and> mem s' = mem s1
    \<and> (\<forall>d k. in_table s1 d \<and> k < spc s1 \<longrightarrow> dir_sector view s' d k =
          (if d = c \<and> Suc i \<le> k then chunk (512 * k) 512 src else dir_sector view s1 d k))"
    by (rule Suc.IH[OF w(1) _ _ _ run]) (use Suc.prems(2-4) g(3) t in simp_all)
  then show ?case using w g(3) t by (auto simp: less_eq_Suc_le[symmetric] order.order_iff_strict)
qed

lemma read_cluster_loop_spec:
  assumes "attached rd wr invar good s" "in_table s c" "i + n = spc s" "length dst = 512 * spc s"
  shows "\<exists>out s'. read_cluster_loop n i (cluster_no_to_lba s c + of_nat i) dst s = (out, s')
    \<and> same_store view s s' \<and> attached rd wr invar good s' \<and> length out = 512 * spc s \<and> take (512 * i) out = take (512 * i) dst
    \<and> (\<forall>k. i \<le> k \<and> k < spc s \<longrightarrow> chunk (512 * k) 512 out = dir_sector view s c k)"
  using assms
proof (induction n arbitrary: i s dst)
  case 0
  then show ?case by auto
next
  case (Suc n)
  have i: "i < spc s" using Suc.prems(3) by simp
  have len: "length (chunk (512 * i) 512 dst) = 512" using i Suc.prems(4) by simp
  obtain s1 where r: "read_sector s (cluster_no_to_lba s c + of_nat i) (chunk (512 * i) 512 dst) =
      (dir_sector view s c i, s1)"
    and s1: "attached rd wr invar good s1" "same_store view s s1" "length (dir_sector view s c i) = 512"
    using read_dir_sector[OF Suc.prems(1,2) i len] by blast
  note e = same_storeD[OF s1(2)] and g = geometry_statics[OF same_storeD(1)[OF s1(2)]]
  let ?d = "splice (512 * i) (dir_sector view s c i) dst"
  have ld: "length ?d = 512 * spc s1" using i Suc.prems(4) s1(3) g(3) by simp
  have run: "read_cluster_loop (Suc n) i (cluster_no_to_lba s c + of_nat i) dst s =
      read_cluster_loop n (Suc i) (cluster_no_to_lba s1 c + of_nat (Suc i)) ?d s1"
    using r g(5) by (simp add: SD_SECTOR_SIZE_def ac_simps)
  obtain out s' where IH: "read_cluster_loop n (Suc i) (cluster_no_to_lba s1 c + of_nat (Suc i)) ?d s1 = (out, s')"
    "same_store view s1 s'" "attached rd wr invar good s'" "length out = 512 * spc s1" "take (512 * Suc i) out = take (512 * Suc i) ?d"
    "\<forall>k. Suc i \<le> k \<and> k < spc s1 \<longrightarrow> chunk (512 * k) 512 out = dir_sector view s1 c k"
    using Suc.IH[OF s1(1) _ _ ld, of "Suc i"] Suc.prems(2,3) g(3) e(6) by auto
  have t1: "take (512 * i) out = take (512 * i) dst"
  proof -
    have "take (512 * i) out = take (512 * i) (take (512 * Suc i) out)" by simp
    also have "\<dots> = take (512 * i) ?d" by (subst IH(5)) simp
    also have "\<dots> = take (512 * i) dst" using i Suc.prems(4) by (simp add: splice_def)
    finally show ?thesis .
  qed
  have t2: "chunk (512 * i) 512 out = dir_sector view s c i"
  proof -
    have c: "chunk (512 * i) 512 xs = drop (512 * i) (take (512 * Suc i) xs)" for xs :: bytes
      by (simp add: chunk_def drop_take)
    have "chunk (512 * i) 512 out = chunk (512 * i) 512 ?d" by (simp only: c IH(5))
    then show ?thesis using i Suc.prems(4) s1(3) by simp
  qed
  have t3: "chunk (512 * k) 512 out = dir_sector view s c k" if "i \<le> k" "k < spc s" for k
    using that t2 IH(6) g(3) e(2) by (cases "k = i") simp_all
  show ?case
    unfolding run using IH(1,3,4) t1 t3 same_store_trans[OF s1(2) IH(2)] g(3) by simp
qed

end

text \<open>
  C24: a cluster written with \<open>write_cluster\<close> and read with \<open>read_cluster\<close> gives the same bytes,
  the sectors of every other cluster keep their contents, and the table in memory is untouched.
\<close>

theorem write_then_read_cluster:
  assumes "block_device rd wr view good invar" "attached rd wr invar good s" "in_table s c"
    and "length src = 512 * spc s" "length dst = 512 * spc s"
  shows "\<exists>s1 s2. write_cluster s c src = Inr s1 \<and> read_cluster s1 c dst = Inr (src, s2)
    \<and> mem s2 = mem s \<and> view (dev s2) = view (dev s1)
    \<and> (\<forall>d k. in_table s d \<and> d \<noteq> c \<and> k < spc s \<longrightarrow> dir_sector view s1 d k = dir_sector view s d k)"
proof -
  have g: "geometry_ok s" and di: "did_init s"
    using attached_geometry[OF assms(2)] attached_table[OF assms(2)] by (simp_all add: table_ok_def)
  have n: "num_dir_sectors s = spc s" by (rule num_dir_sectors_spc[OF g])
  define s1 where "s1 = write_cluster_loop (spc s) 0 (cluster_no_to_lba s c + of_nat 0) src s"
  have w: "attached rd wr invar good s1" "statics s1 = statics s" "mem s1 = mem s"
    "\<And>d k. in_table s d \<Longrightarrow> k < spc s \<Longrightarrow> dir_sector view s1 d k =
          (if d = c then chunk (512 * k) 512 src else dir_sector view s d k)"
    using block_device.write_cluster_loop_spec[OF assms(1-3) _ assms(4) s1_def] by auto
  note gs = geometry_statics[OF w(2)] and t = in_table_statics[OF w(2)]
  have run1: "write_cluster s c src = Inr s1"
    using di n assms(4) by (simp add: write_cluster_def s1_def SD_SECTOR_SIZE_def)
  obtain out s2 where r: "read_cluster_loop (spc s1) 0 (cluster_no_to_lba s1 c + of_nat 0) dst s1 = (out, s2)"
    "same_store view s1 s2" "length out = 512 * spc s1"
    "\<forall>k < spc s1. chunk (512 * k) 512 out = dir_sector view s1 c k"
    using block_device.read_cluster_loop_spec[OF assms(1) w(1), of c 0 "spc s1" dst] assms(3,5) gs(3) t
    by auto
  have "out = src"
  proof (rule nth_equalityI)
    show "length out = length src" using r(3) assms(4) gs(3) by simp
    fix j assume j: "j < length out"
    let ?k = "j div 512"
    have k: "?k < spc s" using j r(3) gs(3) by (simp add: less_mult_imp_div_less mult.commute)
    then have "chunk (512 * ?k) 512 out = chunk (512 * ?k) 512 src"
      using r(4) w(4)[OF assms(3)] gs(3) by simp
    moreover have "xs ! j = chunk (512 * ?k) 512 xs ! (j mod 512)" if "length xs = 512 * spc s" for xs :: bytes
      using that k by simp
    ultimately show "out ! j = src ! j" using r(3) assms(4) gs(3) by metis
  qed
  then have "read_cluster s1 c dst = Inr (src, s2)"
    using r(1) num_dir_sectors_spc[OF attached_geometry[OF w(1)]] assms(5) gs(3)
    by (simp add: read_cluster_def SD_SECTOR_SIZE_def)
  then show ?thesis using run1 r(2) w(3,4) by (auto simp: same_store_def)
qed

theorem write_then_read_cluster_witness:
  "\<exists>s1 s2. write_cluster demo0 5 (replicate 1024 7) = Inr s1
    \<and> read_cluster s1 5 (replicate 1024 0) = Inr (replicate 1024 7, s2)
    \<and> mem s2 = mem demo0 \<and> dev s2 = dev s1
    \<and> (\<forall>d k. in_table demo0 d \<and> d \<noteq> 5 \<and> k < spc demo0 \<longrightarrow>
          dir_sector (\<lambda>d. d) s1 d k = dir_sector (\<lambda>d. d) demo0 d k)"
  by (rule write_then_read_cluster [OF ram.block_device_axioms demo0_attached])
     (simp_all add: demo0_def demo_in_table demo_spc)

end
