(* ===== verification/Printk.thy ===== *)
theory Printk
  imports Prelude
begin

text \<open>
  The output routines: \<open>src/pi-src/printk.c\<close> (text to the serial line, UTF-8), \<open>src/pi-src/sprintk.c\<close>
  (text to a buffer) and \<open>src/pi-src/error.c\<close>. The two formatters are the same code over different
  \<open>putchar\<close> routines, so the formatter here takes that routine as its argument \<open>put\<close>, a step on
  what it writes to. A C string is its bytes up to and including the final 0; reading past the end
  of the object is \<open>Undef\<close>, and so is a conversion without an argument of its type.
\<close>

definition ok_bind :: "'a res \<Rightarrow> ('a \<Rightarrow> 'b res) \<Rightarrow> 'b res" where
  "ok_bind m f = (case m of Inl e \<Rightarrow> Inl e | Inr x \<Rightarrow> f x)"

lemma ok_bind_simps [simp]: "ok_bind (Inl e) f = Inl e" "ok_bind (Inr x) f = f x"
  by (simp_all add: ok_bind_def)

type_synonym 's put_fn = "u8 \<Rightarrow> 's \<Rightarrow> 's res"

text \<open>The serial line takes every byte.\<close>

definition putchar :: "bytes put_fn" where
  "putchar c out = Inr (out @ [c])"

fun put_all :: "'s put_fn \<Rightarrow> bytes \<Rightarrow> 's \<Rightarrow> 's res" where
  "put_all put [] s = Inr s"
| "put_all put (c # cs) s = ok_bind (put c s) (put_all put cs)"

section \<open>Numbers\<close>

text \<open>The loop that fills \<open>num\<close>, which has 33 bytes, least significant digit first.\<close>

definition digit_char :: "u32 \<Rightarrow> u8" where
  "digit_char d = ascii ''0123456789abcdef'' ! unat d"

function emit_loop :: "u32 \<Rightarrow> u32 \<Rightarrow> bytes \<Rightarrow> bytes res" where
  "emit_loop base u num =
     (if 33 \<le> length num then Inl Undef
      else let num' = num @ [digit_char (u mod base)]; u' = u div base
           in if u' \<noteq> 0 then emit_loop base u' num' else Inr num')"
  by pat_completeness auto
termination
  by (relation "measure (\<lambda>(base, u, num). 33 - length num)") auto

declare emit_loop.simps [simp del]

definition emit_val :: "'s put_fn \<Rightarrow> u32 \<Rightarrow> u32 \<Rightarrow> 's \<Rightarrow> 's res" where
  "emit_val put base u s =
     (if base = 2 \<or> base = 10 \<or> base = 16
      then ok_bind (emit_loop base u []) (\<lambda>num. put_all put (rev num) s)
      else Inr s)"

section \<open>Formatting\<close>

text \<open>A variable argument: a word, a doubleword, or the object a pointer leads into.\<close>

datatype va_arg = Word32 u32 | Word64 u64 | Pointer bytes

fun put_string :: "'s put_fn \<Rightarrow> bytes \<Rightarrow> 's \<Rightarrow> 's res" where
  "put_string put [] s = Inl Undef"
| "put_string put (c # cs) s = (if c = 0 then Inr s else ok_bind (put c s) (put_string put cs))"

text \<open>The conversions of one letter: \<open>None\<close> is the \<open>return -1\<close> of the unknown ones.\<close>

definition convert :: "'s put_fn \<Rightarrow> u8 \<Rightarrow> va_arg \<Rightarrow> 's \<Rightarrow> 's res" where
  "convert put d a s =
     (case a of
        Word32 u \<Rightarrow>
          if d = 0x62 then emit_val put 2 u s
          else if d = 0x75 then emit_val put 10 u s
          else if d = 0x63 then put (ucast u) s
          else if d = 0x78 \<or> d = 0x70 then ok_bind (put_all put [0x30, 0x78] s) (emit_val put 16 u)
          else if d = 0x64 then
            (if u <s 0 then ok_bind (put 0x2d s) (emit_val put 10 (- u)) else emit_val put 10 u s)
          else Inl Undef
      | Word64 x \<Rightarrow> Inl Undef
      | Pointer p \<Rightarrow> if d = 0x73 then put_string put p s else Inl Undef)"

definition convert_llx :: "'s put_fn \<Rightarrow> va_arg \<Rightarrow> 's \<Rightarrow> 's res" where
  "convert_llx put a s =
     (case a of
        Word64 x \<Rightarrow>
          (let hi = ucast (drop_bit 32 x); lo = ucast x in
           ok_bind (put_all put [0x30, 0x78] s)
             (\<lambda>s1. ok_bind (if hi \<noteq> 0 then emit_val put 16 hi s1 else Inr s1) (emit_val put 16 lo)))
      | _ \<Rightarrow> Inl Undef)"

definition known_letters :: "u8 list" where
  "known_letters = [0x62, 0x75, 0x63, 0x78, 0x70, 0x64, 0x73]"

definition next_arg :: "va_arg list \<Rightarrow> (va_arg \<times> va_arg list) res" where
  "next_arg args = (case args of [] \<Rightarrow> Inl Undef | a # as \<Rightarrow> Inr (a, as))"

fun vprintk :: "'s put_fn \<Rightarrow> bytes \<Rightarrow> va_arg list \<Rightarrow> 's \<Rightarrow> (int \<times> 's) res" where
  "vprintk put [] args s = Inl Undef"
| "vprintk put (c # cs) args s =
     (if c = 0 then Inr (0, s)
      else if c \<noteq> 0x25 then ok_bind (put c s) (vprintk put cs args)
      else
        case cs of
          [] \<Rightarrow> Inl Undef
        | d # ds \<Rightarrow>
            if d \<in> set known_letters then
              ok_bind (next_arg args)
                (\<lambda>(a, as). ok_bind (convert put d a s) (vprintk put ds as))
            else if d = 0x6c then
              (case ds of
                 [] \<Rightarrow> Inl Undef
               | e # es \<Rightarrow>
                   if e \<noteq> 0x6c then Inr (- 1, s)
                   else
                     case es of
                       [] \<Rightarrow> Inl Undef
                     | f # fs \<Rightarrow>
                         if f \<noteq> 0x78 then Inr (- 1, s)
                         else ok_bind (next_arg args)
                                (\<lambda>(a, as). ok_bind (convert_llx put a s) (vprintk put fs as)))
            else Inr (- 1, s))"

declare vprintk.simps(2) [simp del]

text \<open>\<open>printk\<close> is \<open>vprintk\<close> to the serial line; \<open>putk\<close> prints without formatting.\<close>

definition printk :: "bytes \<Rightarrow> va_arg list \<Rightarrow> bytes \<Rightarrow> (int \<times> bytes) res" where
  "printk fmt args out = vprintk putchar fmt args out"

definition putk :: "bytes \<Rightarrow> bytes \<Rightarrow> (int \<times> bytes) res" where
  "putk p out = ok_bind (put_string putchar p out) (\<lambda>out'. Inr (1, out'))"

text \<open>What \<open>panic\<close> prints before it halts the machine. Its last line is the one the host waits for.\<close>

definition done_line :: string where "done_line = ''DONE!!!'' @ nl"

definition panic :: "bytes \<Rightarrow> bytes \<Rightarrow> bytes res" where
  "panic msg out =
     ok_bind (putk (cstr ''PANIC: '') out) (\<lambda>(r1, out1).
     ok_bind (putk msg out1) (\<lambda>(r2, out2).
     ok_bind (putk (cstr done_line) out2) (\<lambda>(r3, out3). Inr out3)))"

section \<open>UTF-8\<close>


section \<open>The formatter to a buffer\<close>

text \<open>The two static pointers as offsets into the caller's buffer.\<close>

record snbuf =
  sn_mem :: bytes
  buf_ptr :: nat
  buf_end :: nat

definition store_at_ptr :: "u8 \<Rightarrow> snbuf \<Rightarrow> snbuf res" where
  "store_at_ptr c b =
     (if buf_ptr b < length (sn_mem b)
      then Inr (b\<lparr>sn_mem := (sn_mem b)[buf_ptr b := c], buf_ptr := Suc (buf_ptr b)\<rparr>)
      else Inl Undef)"

definition sn_putchar :: "snbuf put_fn" where
  "sn_putchar c b = (if buf_ptr b < buf_end b then Inr b else store_at_ptr c b)"

definition vsnprintk :: "bytes \<Rightarrow> u32 \<Rightarrow> bytes \<Rightarrow> va_arg list \<Rightarrow> (int \<times> bytes) res" where
  "vsnprintk buf n fmt args =
     ok_bind (vprintk sn_putchar fmt args \<lparr>sn_mem = buf, buf_ptr = 0, buf_end = unat n\<rparr>)
       (\<lambda>(r, b). if r = - 1 then Inr (- 1, sn_mem b)
                 else ok_bind (store_at_ptr 0 b) (\<lambda>b'. Inr (0, sn_mem b')))"

section \<open>Numbers are printed as numerals\<close>

text \<open>The digits without the buffer, least significant first, and reading a numeral.\<close>

function low_digits :: "u32 \<Rightarrow> u32 \<Rightarrow> bytes" where
  "low_digits base u =
     digit_char (u mod base) # (if u div base = 0 \<or> base < 2 then [] else low_digits base (u div base))"
  by pat_completeness auto
termination
proof (relation "measure (\<lambda>(base, u). unat u)", goal_cases)
  case (2 base u)
  then have "1 < unat base" "unat u \<noteq> 0" by (auto simp: word_less_nat_alt unat_eq_0)
  then show ?case by (simp add: unat_div)
qed simp

declare low_digits.simps [simp del]

definition digit_value :: "u8 \<Rightarrow> nat" where
  "digit_value c = (if c < 0x61 then unat c - 48 else unat c - 87)"

definition read_numeral :: "nat \<Rightarrow> bytes \<Rightarrow> nat" where
  "read_numeral base ds = foldl (\<lambda>n d. base * n + digit_value d) 0 ds"

lemma digit_value_char:
  assumes "d < 16"
  shows "digit_value (digit_char d) = unat d"
proof -
  have "unat d < 16" using assms by (simp add: word_less_nat_alt)
  then have "unat d \<in> {0, 1, 2, 3, 4, 5, 6, 7, 8, 9, 10, 11, 12, 13, 14, 15}"
    by (simp only: insert_iff empty_iff) presburger
  then show ?thesis by (auto simp: digit_char_def digit_value_def ascii_def)
qed

lemma digit_char_mod:
  assumes "2 \<le> base" "base \<le> 16"
  shows "digit_value (digit_char (u mod base)) = unat u mod unat base"
proof -
  have "u mod base < base" using assms(1) by (intro word_mod_less_divisor) (rule order_less_le_trans[of 0 2], simp_all)
  then have "u mod base < 16" using assms(2) by simp
  then show ?thesis by (simp add: digit_value_char unat_mod)
qed

lemma low_digits_value:
  assumes "2 \<le> base" "base \<le> 16"
  shows "read_numeral (unat base) (rev (low_digits base u)) = unat u"
  using assms
proof (induction base u rule: low_digits.induct)
  case (1 base u)
  have b2: "\<not> base < 2" "2 \<le> unat base" using "1.prems" by (simp_all add: linorder_not_less) (simp add: word_le_nat_alt)
  have val: "digit_value (digit_char (u mod base)) = unat u mod unat base"
    using digit_char_mod 1 by blast
  show ?case
  proof (cases "u div base = 0")
    case True
    then have "unat u div unat base = 0" by (metis unat_0 unat_div)
    then have "unat u mod unat base = unat u" using b2 by (simp add: div_eq_0_iff)
    then show ?thesis using True val by (subst low_digits.simps) (simp add: read_numeral_def)
  next
    case False
    then have "read_numeral (unat base) (rev (low_digits base (u div base))) = unat (u div base)"
      using "1.IH" "1.prems" False b2(1) by blast
    then show ?thesis using False val b2
      by (subst low_digits.simps) (simp add: read_numeral_def unat_div)
  qed
qed

lemma low_digits_length:
  assumes "2 \<le> base" "unat u < 2 ^ k" "0 < k"
  shows "length (low_digits base u) \<le> k"
  using assms
proof (induction k arbitrary: u)
  case (Suc k)
  show ?case
  proof (cases "u div base = 0")
    case False
    have "unat (u div base) \<le> unat u div 2"
      using Suc.prems(1) by (simp add: unat_div div_le_mono2 word_le_nat_alt)
    then have lt: "unat (u div base) < 2 ^ k" using Suc.prems(2) by simp
    moreover have "0 < k" using lt False by (cases k) (auto simp: unat_eq_0)
    ultimately have "length (low_digits base (u div base)) \<le> k" by (intro Suc.IH Suc.prems(1))
    then show ?thesis by (subst low_digits.simps) simp
  qed (subst low_digits.simps, simp)
qed simp

lemma low_digits_nonempty: "low_digits base u \<noteq> []"
  by (subst low_digits.simps) simp

lemma low_digits_head:
  "2 \<le> base \<Longrightarrow> base \<le> 16 \<Longrightarrow> u \<noteq> 0 \<Longrightarrow> digit_value (last (low_digits base u)) \<noteq> 0"
proof (induction base u rule: low_digits.induct)
  case (1 base u)
  have b2: "\<not> base < 2" "2 \<le> unat base" using "1.prems" by (simp_all add: linorder_not_less) (simp add: word_le_nat_alt)
  show ?case
  proof (cases "u div base = 0")
    case True
    then have "unat u div unat base = 0" by (metis unat_0 unat_div)
    then have "unat u mod unat base = unat u" using b2 by (simp add: div_eq_0_iff)
    then show ?thesis
      using True 1 digit_char_mod[of base u] by (subst low_digits.simps) (simp add: unat_eq_0)
  next
    case False
    then have "digit_value (last (low_digits base (u div base))) \<noteq> 0"
      using "1.IH" "1.prems" b2(1) by blast
    then show ?thesis using False b2 by (subst low_digits.simps) (simp add: low_digits_nonempty)
  qed
qed

lemma emit_loop_digits:
  assumes "2 \<le> base" "length num + length (low_digits base u) \<le> 33"
  shows "emit_loop base u num = Inr (num @ low_digits base u)"
  using assms
proof (induction base u num rule: emit_loop.induct)
  case (1 base u num)
  have b2: "\<not> base < 2" using 1 by auto
  show ?case
  proof (cases "u div base = 0")
    case True
    then have d: "low_digits base u = [digit_char (u mod base)]" by (subst low_digits.simps) simp
    then show ?thesis using "1.prems" True by (subst emit_loop.simps) (simp add: Let_def)
  next
    case False
    have d: "low_digits base u = digit_char (u mod base) # low_digits base (u div base)"
      using False b2 by (subst low_digits.simps) simp
    show ?thesis
      using 1 False unfolding d by (subst emit_loop.simps) (simp add: Let_def low_digits_nonempty)
  qed
qed

lemma put_all_putchar: "put_all putchar cs out = Inr (out @ cs)"
  by (induction cs arbitrary: out) (simp_all add: putchar_def)

text \<open>
  C26: in each of its bases \<open>emit_val\<close> prints the numeral of its argument: at most 32
  digits, so never more than its buffer holds, which read back as the number and do not start with
  a 0 unless the number is 0.
\<close>

theorem emit_val_roundtrip:
  assumes "base = 2 \<or> base = 10 \<or> base = 16"
  shows "\<exists>ds. emit_val putchar base u out = Inr (out @ ds) \<and> ds \<noteq> [] \<and> length ds \<le> 32
    \<and> read_numeral (unat base) ds = unat u \<and> (u = 0 \<or> digit_value (hd ds) \<noteq> 0)"
proof -
  have b: "2 \<le> base" "base \<le> 16" using assms by auto
  have "unat u < 2 ^ 32" using unsigned_less[of u, where ?'a = nat] by simp
  then have len: "length (low_digits base u) \<le> 32" by (intro low_digits_length b) simp_all
  have "emit_val putchar base u out = Inr (out @ rev (low_digits base u))"
    using assms len by (simp add: emit_val_def emit_loop_digits[OF b(1)] put_all_putchar)
  then show ?thesis
    using len low_digits_value[OF b, of u] low_digits_nonempty[of base u] low_digits_head[OF b, of u]
    by (intro exI[of _ "rev (low_digits base u)"] conjI disjCI)
       (simp_all only: hd_rev length_rev rev_is_Nil_conv append_same_eq, auto)
qed

theorem emit_val_roundtrip_witness:
  "\<exists>ds. emit_val putchar 16 0xBEEF [] = Inr ([] @ ds) \<and> ds \<noteq> [] \<and> length ds \<le> 32
    \<and> read_numeral (unat (16 :: u32)) ds = unat (0xBEEF :: u32) \<and> ((0xBEEF :: u32) = 0 \<or> digit_value (hd ds) \<noteq> 0)"
  by (rule emit_val_roundtrip) simp

section \<open>Doublewords are not\<close>

lemma low_digits_16:
  assumes "hi \<noteq> 0" "hi < 0x10000000" "lo < 16"
  shows "low_digits 16 (16 * hi + lo) = digit_char lo # low_digits 16 hi"
proof -
  have u: "unat (16 * hi + lo) = 16 * unat hi + unat lo"
    using assms by (simp add: word_less_nat_alt unat_word_ariths)
  have "unat lo < 16" using assms(3) by (simp add: word_less_nat_alt)
  then have "(16 * hi + lo) div 16 = hi" "(16 * hi + lo) mod 16 = lo"
    by (simp_all add: word_unat_eq_iff unat_div unat_mod u)
  then show ?thesis using assms(1) by (subst low_digits.simps) simp
qed

lemma emit_val_16: "emit_val putchar 16 u out = Inr (out @ rev (low_digits 16 u))"
proof -
  have "length (low_digits 16 u) \<le> 32"
    using unsigned_less[of u, where ?'a = nat] by (intro low_digits_length) simp_all
  then show ?thesis by (simp add: emit_val_def emit_loop_digits put_all_putchar)
qed

lemma llx_run:
  assumes "ucast (drop_bit 32 x) = hi" "ucast x = lo"
  shows "convert_llx putchar (Word64 x) out =
    Inr (out @ [0x30, 0x78] @ (if hi \<noteq> 0 then rev (low_digits 16 hi) else []) @ rev (low_digits 16 lo))"
  unfolding convert_llx_def va_arg.case Let_def assms put_all_putchar ok_bind_simps
  by (simp add: emit_val_16)

text \<open>
  The conversion for doublewords is ambiguous. The low half is printed without its leading
  zeros, so whenever the high half is not zero a doubleword with a small low half is printed like a
  much smaller number.
\<close>

theorem printk_llx_ambiguous:
  assumes "hi \<noteq> 0" "hi < 0x10000000" "lo < 16"
  shows "printk (cstr ''%llx'') [Word64 (push_bit 32 (ucast hi) OR ucast lo)] out =
      printk (cstr ''%llx'') [Word64 (ucast (16 * hi + lo :: u32))] out"
proof -
  have h: "ucast (drop_bit 32 (push_bit 32 (ucast hi) OR ucast lo :: u64)) = hi"
    by (rule bit_word_eqI) (auto simp: bit_simps dest: bit_imp_le_length)
  have l: "ucast (push_bit 32 (ucast hi) OR ucast lo :: u64) = lo"
    by (rule bit_word_eqI) (auto simp: bit_simps dest: bit_imp_le_length)
  have z: "drop_bit 32 (ucast (16 * hi + lo) :: u64) = 0"
    by (rule bit_word_eqI) (auto simp: bit_simps dest: bit_imp_le_length)
  have lo: "low_digits 16 lo = [digit_char lo]"
  proof -
    have "unat lo < 16" using assms(3) by (simp add: word_less_nat_alt)
    then have "lo div 16 = 0" "lo mod 16 = lo" by (simp_all add: word_unat_eq_iff unat_div unat_mod)
    then show ?thesis by (subst low_digits.simps) simp
  qed
  have z2: "ucast (ucast (16 * hi + lo) :: u64) = 16 * hi + lo"
    by (rule bit_word_eqI) (auto simp: bit_simps dest: bit_imp_le_length)
  have c: "convert_llx putchar (Word64 (push_bit 32 (ucast hi) OR ucast lo)) out =
      convert_llx putchar (Word64 (ucast (16 * hi + lo :: u32))) out"
    using assms(1) by (simp only: llx_run[OF h l] llx_run[OF refl z2] z low_digits_16[OF assms] lo)
      (simp add: low_digits_16[OF assms])
  have "vprintk putchar (cstr ''%llx'') [a] out =
      ok_bind (convert_llx putchar a out) (vprintk putchar [0] [])" for a
    by (simp add: vprintk.simps(2) cstr_def ascii_def next_arg_def known_letters_def)
  then show ?thesis by (simp add: printk_def c)
qed

theorem printk_llx_ambiguous_witness:
  "printk (cstr ''%llx'') [Word64 (push_bit 32 (ucast (1 :: u32)) OR ucast (1 :: u32))] [] =
      printk (cstr ''%llx'') [Word64 (ucast (16 * 1 + 1 :: u32))] []"
  by (rule printk_llx_ambiguous) simp_all

section \<open>Formatting to a buffer prints nothing\<close>

lemma put_all_idle: "(\<And>c. put c s = Inr s) \<Longrightarrow> put_all put cs s = Inr s"
  by (induction cs) simp_all

lemma put_string_idle: "(\<And>c. put c s = Inr s) \<Longrightarrow> put_string put cs s \<in> {Inl Undef, Inr s}"
  by (induction cs) simp_all

lemma emit_loop_cases: "emit_loop base u num = Inl Undef \<or> (\<exists>ds. emit_loop base u num = Inr ds)"
  by (induction base u num rule: emit_loop.induct) (subst (1 2) emit_loop.simps, simp add: Let_def)

lemma emit_val_idle: "(\<And>c. put c s = Inr s) \<Longrightarrow> emit_val put base u s \<in> {Inl Undef, Inr s}"
  using emit_loop_cases[of base u "[]"] by (auto simp: emit_val_def put_all_idle)

lemma convert_idle:
  assumes "\<And>c. put c s = Inr s"
  shows "convert put d a s \<in> {Inl Undef, Inr s}" "convert_llx put a s \<in> {Inl Undef, Inr s}"
proof -
  note idle = emit_val_idle[of put s, OF assms] put_all_idle[of put s, OF assms]
    put_string_idle[of put s, OF assms] assms
  show "convert put d a s \<in> {Inl Undef, Inr s}"
    using idle by (cases a) (auto simp: convert_def)
  show "convert_llx put a s \<in> {Inl Undef, Inr s}"
  proof (cases a)
    case (Word64 x)
    then show ?thesis
      using idle(1)[of 16 "ucast (drop_bit 32 x)"] idle(1)[of 16 "ucast x"] idle(2)
      by (auto simp: convert_llx_def Let_def assms)
  qed (simp_all add: convert_llx_def)
qed

definition idle_result :: "'s \<Rightarrow> (int \<times> 's) res \<Rightarrow> bool" where
  "idle_result s r \<longleftrightarrow> r = Inl Undef \<or> r = Inr (0, s) \<or> r = Inr (- 1, s)"

lemma idle_bind:
  assumes "m \<in> {Inl Undef, Inr s}" "idle_result s (f s)"
  shows "idle_result s (ok_bind m f)"
  using assms by (auto simp: idle_result_def)

lemma idle_arg_bind:
  assumes "\<And>a as. idle_result s (f a as)"
  shows "idle_result s (ok_bind (next_arg args) (\<lambda>(a, as). f a as))"
  using assms by (cases args) (auto simp: next_arg_def idle_result_def)

lemma vprintk_idle:
  assumes "\<And>c. put c s = Inr s"
  shows "idle_result s (vprintk put fmt args s)"
proof (induction "length fmt" arbitrary: fmt args rule: less_induct)
  case less
  note IH = less.hyps
  show ?case
  proof (cases fmt)
    case Nil
    then show ?thesis by (simp add: idle_result_def)
  next
    case (Cons c cs)
    note idle = convert_idle[of put s, OF assms]
    consider "c = 0" | "c \<noteq> 0" "c \<noteq> 0x25" | "c = 0x25" "cs = []"
      | d ds where "c = 0x25" "cs = d # ds" "d \<in> set known_letters"
      | d ds where "c = 0x25" "cs = d # ds" "d \<notin> set known_letters"
      by (cases cs) auto
    then show ?thesis
    proof cases
      case 2
      then show ?thesis using IH[of cs] Cons by (simp add: vprintk.simps(2) assms)
    next
      case (4 d ds)
      have "idle_result s (ok_bind (convert put d a s) (vprintk put ds as))" for a as
        using IH[of ds] Cons 4 idle(1) by (intro idle_bind) auto
      then show ?thesis using 4 Cons by (simp add: vprintk.simps(2) idle_arg_bind)
    next
      case (5 d ds)
      have "idle_result s (ok_bind (convert_llx put a s) (vprintk put fs as))"
        if "length fs < length fmt" for a as fs
        using IH[OF that] idle(2) by (intro idle_bind) auto
      then show ?thesis using 5 Cons
        by (auto simp: vprintk.simps(2) idle_result_def[of s "Inr _"] idle_result_def[of s "Inl _"]
            intro!: idle_arg_bind split: list.splits)
    qed (auto simp: Cons vprintk.simps(2) idle_result_def)
  qed
qed

text \<open>
  \<open>vsnprintk\<close> prints nothing into a buffer that has room. Its \<open>putchar\<close> returns when the
  pointer is inside the buffer and stores otherwise, the opposite of what it means to do, so for
  any positive size the only byte written is the final 0, at the start.
\<close>

theorem vsnprintk_prints_nothing:
  assumes "0 < n" "unat n \<le> length buf" "vsnprintk buf n fmt args \<noteq> Inl Undef"
  shows "vsnprintk buf n fmt args = Inr (0, buf[0 := 0]) \<or> vsnprintk buf n fmt args = Inr (- 1, buf)"
proof -
  let ?b = "\<lparr>sn_mem = buf, buf_ptr = 0, buf_end = unat n\<rparr>"
  have n: "0 < unat n" using assms(1) by (simp add: word_less_nat_alt)
  then have "sn_putchar c ?b = Inr ?b" for c by (simp add: sn_putchar_def)
  then have "idle_result ?b (vprintk sn_putchar fmt args ?b)" by (rule vprintk_idle)
  then show ?thesis
    using n assms(2,3) by (auto simp: idle_result_def vsnprintk_def store_at_ptr_def)
qed

theorem vsnprintk_prints_nothing_witness:
  "vsnprintk [1, 2, 3, 4] 4 (cstr ''ab'') [] = Inr (0, [1, 2, 3, 4][0 := 0])
    \<or> vsnprintk [1, 2, 3, 4] 4 (cstr ''ab'') [] = Inr (- 1, [1, 2, 3, 4])"
  by (rule vsnprintk_prints_nothing)
     (simp_all add: vsnprintk_def vprintk.simps cstr_def ascii_def sn_putchar_def store_at_ptr_def)

section \<open>UTF-8 is decodable\<close>




lemma low_bits_of_u8: "bit (x :: u8) n \<Longrightarrow> n < 8"
  using bit_imp_le_length[of x n] by simp






section \<open>panic\<close>

lemma put_string_cstr:
  "0 \<notin> set (ascii cs) \<Longrightarrow> put_string putchar (cstr cs) out = Inr (out @ ascii cs)"
proof -
  have "0 \<notin> set bs \<Longrightarrow> put_string putchar (bs @ [0]) out = Inr (out @ bs)" for bs out
    by (induction bs arbitrary: out) (auto simp: putchar_def)
  then show "0 \<notin> set (ascii cs) \<Longrightarrow> put_string putchar (cstr cs) out = Inr (out @ ascii cs)"
    by (simp add: cstr_def)
qed

lemma panic_output:
  assumes "0 \<notin> set (ascii msg)"
  shows "panic (cstr msg) out = Inr (out @ ascii ''PANIC: '' @ ascii msg @ ascii done_line)"
proof -
  have "0 \<notin> set (ascii ''PANIC: '')" "0 \<notin> set (ascii done_line)"
    by (simp_all add: ascii_def nl_def done_line_def)
  then show ?thesis using assms by (simp add: panic_def putk_def put_string_cstr)
qed

end
