(* ===== verification/Fat32_Dump.thy ===== *)
theory Fat32_Dump
  imports Fat32_Cluster Printk
begin

text \<open>
  The routines of \<open>src/pi-src/fat32.c\<close> that print what they find: \<open>follow_file_chain\<close>,
  \<open>dump_root_content\<close>, and the section "Inspect FAT metadata". The text printed so far is part of
  the state. A loop along a chain of the table may not end: such a routine is a partial function,
  with \<open>None\<close> for a run that never returns.
\<close>

section \<open>The routines\<close>

definition say :: "string \<Rightarrow> va_arg list \<Rightarrow> bytes \<Rightarrow> bytes res" where
  "say fmt args out = ok_bind (printk (cstr fmt) args out) (\<lambda>(r, out'). Inr out')"

definition sayk :: "string \<Rightarrow> bytes \<Rightarrow> bytes res" where
  "sayk p out = ok_bind (putk (cstr p) out) (\<lambda>(r, out'). Inr out')"

partial_function (option) follow_file_chain :: "'d fs \<Rightarrow> u32 \<Rightarrow> bytes \<Rightarrow> bytes res option" where
  "follow_file_chain s start_cluster_no out =
     (if start_cluster_no \<noteq> - 1 then
        (case say ''%d '' [Word32 start_cluster_no] out of
           Inl f \<Rightarrow> Some (Inl f)
         | Inr out1 \<Rightarrow> follow_file_chain s (fat_at s (CLUSTER_NO start_cluster_no)) out1)
      else Some (say (''%d'' @ nl) [Word32 start_cluster_no] out))"

definition fat32_dump_vol_id :: "volume_id \<Rightarrow> bytes \<Rightarrow> bytes res" where
  "fat32_dump_vol_id v out =
     ok_bind (say (''+-----------------------'' @ nl) [] out) (\<lambda>out.
     ok_bind (say (''|bytes per sector: %d'' @ nl) [Word32 (ucast (bytes_per_sector v))] out) (\<lambda>out.
     ok_bind (say (''|sectors per cluster: %d'' @ nl) [Word32 (ucast (sectors_per_cluster v))] out) (\<lambda>out.
     ok_bind (say (''|num reseved sectors: %d'' @ nl) [Word32 (ucast (num_reserved_sectors v))] out) (\<lambda>out.
     ok_bind (say (''|num fats: %d'' @ nl) [Word32 (ucast (num_fats v))] out) (\<lambda>out.
     ok_bind (say (''|sectors per fat: %d'' @ nl) [Word32 (sectors_per_fat v)] out) (\<lambda>out.
     ok_bind (say (''|root dir first cluster: %d'' @ nl) [Word32 (root_dir_first_cluster v)] out) (\<lambda>out.
     ok_bind (say (''|magic: %x %x'' @ nl) [Word32 (ucast (magic1 v)), Word32 (ucast (magic2 v))] out) (\<lambda>out.
       say (''+-----------------------'' @ nl) [] out))))))))"

text \<open>The bytes of the name, one \<open>%c\<close> each.\<close>

fun print_name :: "bytes \<Rightarrow> bytes \<Rightarrow> bytes res" where
  "print_name [] out = Inr out"
| "print_name (c # cs) out = ok_bind (say ''%c'' [Word32 (ucast c)] out) (print_name cs)"

text \<open>The endless loop of \<open>fat32_dump_dir_rec\<close>, left by its two \<open>break\<close>s.\<close>

partial_function (option) dump_chain :: "'d fs \<Rightarrow> u32 \<Rightarrow> bytes \<Rightarrow> bytes res option" where
  "dump_chain s cluster_no out =
     (if cluster_no = FAT32_TERMINAL_CLUSTER_NO then Some (say (''TERM'' @ nl) [] out)
      else if cluster_no \<le> 2 then Some (sayk (''PRE-ROOT'' @ nl) out)
      else
        (case ok_bind (say ''%d [%x] '' [Word32 cluster_no, Word32 cluster_no] out)
               (\<lambda>out1. ok_bind (fat32_next_cluster s cluster_no) (\<lambda>c. Inr (c, out1))) of
           Inl f \<Rightarrow> Some (Inl f)
         | Inr (next_no, out1) \<Rightarrow> dump_chain s next_no out1))"

definition dump_head :: "dir_record \<Rightarrow> bytes \<Rightarrow> bytes res" where
  "dump_head d out =
     ok_bind (say (''+-----'' @ nl) [] out) (\<lambda>out.
     ok_bind (say ''|name: '' [] out) (\<lambda>out.
     ok_bind (print_name (dir_name d) out) (\<lambda>out.
     ok_bind (say nl [] out) (\<lambda>out.
     ok_bind (say (''|attr: %x'' @ nl) [Word32 (ucast (dir_attr d))] out) (\<lambda>out.
     ok_bind (say (''|file size: %d'' @ nl) [Word32 (dir_file_size d)] out)
       (say ''|ordered cluster list: '' []))))))"

definition fat32_dump_dir_rec :: "'d fs \<Rightarrow> dir_record \<Rightarrow> bytes \<Rightarrow> bytes res option" where
  "fat32_dump_dir_rec s d out =
     (if dir_name d ! 0 = 0 then
        Some (ok_bind (say (''+--------+'' @ nl) [] out) (\<lambda>out.
              ok_bind (say (''|TERMINAL|'' @ nl) [] out) (say (''+--------+'' @ nl) [])))
      else
        (case dump_head d out of
           Inl f \<Rightarrow> Some (Inl f)
         | Inr out1 \<Rightarrow>
             (case dump_chain s (first_cluster d) out1 of
                None \<Rightarrow> None
              | Some r \<Rightarrow> Some (ok_bind r (say (''+--'' @ nl) [])))))"

text \<open>The records of one sector: \<open>True\<close> is the \<open>return\<close> at a terminal.\<close>

fun dump_records :: "'d fs \<Rightarrow> bytes \<Rightarrow> nat list \<Rightarrow> bytes \<Rightarrow> (bool \<times> bytes) res option" where
  "dump_records s records [] out = Some (Inr (False, out))"
| "dump_records s records (i # is) out =
     (let d = rec_at records i in
      case (if \<not> IS_LFN (dir_attr d) then fat32_dump_dir_rec s d out else Some (Inr out)) of
        None \<Rightarrow> None
      | Some (Inl f) \<Rightarrow> Some (Inl f)
      | Some (Inr out1) \<Rightarrow>
          if IS_TERMINAL d then Some (Inr (True, out1)) else dump_records s records is out1)"

fun dump_sectors ::
  "u32 \<Rightarrow> nat list \<Rightarrow> bytes \<Rightarrow> 'd fs \<Rightarrow> bytes \<Rightarrow> (bool \<times> bytes \<times> 'd fs \<times> bytes) res option" where
  "dump_sectors cluster_no [] records s out = Some (Inr (False, records, s, out))"
| "dump_sectors cluster_no (sector_no # ks) records s out =
     (let (records', s') =
        read_sector s (cluster_no_to_lba s cluster_no + of_nat sector_no) records
      in case dump_records s' records' [0..<records_per_sector] out of
           None \<Rightarrow> None
         | Some (Inl f) \<Rightarrow> Some (Inl f)
         | Some (Inr (stop, out1)) \<Rightarrow>
             if stop then Some (Inr (True, records', s', out1))
             else dump_sectors cluster_no ks records' s' out1)"

partial_function (option) dump_dir :: "u32 \<Rightarrow> bytes \<Rightarrow> 'd fs \<Rightarrow> bytes \<Rightarrow> ('d fs \<times> bytes) res option" where
  "dump_dir cluster_no records s out =
     (if cluster_no = - 1 then Some (Inr (s, out))
      else
        (case dump_sectors cluster_no [0..<num_dir_sectors s] records s out of
           None \<Rightarrow> None
         | Some (Inl f) \<Rightarrow> Some (Inl f)
         | Some (Inr (stop, records', s', out1)) \<Rightarrow>
             if stop then Some (Inr (s', out1))
             else
               (case fat32_next_cluster s' cluster_no of
                  Inl f \<Rightarrow> Some (Inl f)
                | Inr next_no \<Rightarrow> dump_dir next_no records' s' out1)))"


definition flag :: "bool \<Rightarrow> va_arg" where "flag b = Word32 (if b then 1 else 0)"

definition print_dir_ent_attr :: "dir_record \<Rightarrow> bytes \<Rightarrow> bytes res" where
  "print_dir_ent_attr d out =
     say (''ro<%d> hidden<%d> sys<%d> volid<%d> dir<%d>'' @ nl)
       [flag (IS_RO (dir_attr d)), flag (IS_HIDDEN (dir_attr d)), flag (IS_SYSTEM (dir_attr d)),
        flag (IS_VOLID (dir_attr d)), flag (IS_DIR (dir_attr d)), flag (IS_ARCHIVE (dir_attr d))] out"

section \<open>Inspecting a directory in memory\<close>

text \<open>\<open>read_cluster\<close> with its message, to the memory from word \<open>dst\<close> on.\<close>

definition read_cluster_mem :: "'d fs \<Rightarrow> u32 \<Rightarrow> widx \<Rightarrow> bytes \<Rightarrow> ('d fs \<times> bytes) res" where
  "read_cluster_mem s cluster_no dst out =
     ok_bind (say (''fat32: reading cluster %d (lba %d)'' @ nl)
                [Word32 cluster_no, Word32 (cluster_no_to_lba s cluster_no)] out) (\<lambda>out1.
     ok_bind (read_cluster s cluster_no (mem_bytes s dst (128 * num_dir_sectors s))) (\<lambda>(bs, s1).
       Inr (mem_store s1 dst bs, out1)))"

definition bytes_per_cluster :: "'d fs \<Rightarrow> u32" where
  "bytes_per_cluster s = ucast (vd_sectors_per_cluster (cur_vol s)) * ucast (bytes_per_sector (cur_vol_id s))"

text \<open>Pointers into that memory move by whole words: an address has 32 bits, a word index 30.\<close>

definition words_of :: "u32 \<Rightarrow> widx" where "words_of n = ucast (n div 4)"

partial_function (option) inspect_read ::
  "u32 \<Rightarrow> widx \<Rightarrow> u32 \<Rightarrow> 'd fs \<Rightarrow> bytes \<Rightarrow> (u32 \<times> u32 \<times> 'd fs \<times> bytes) res option" where
  "inspect_read cluster_no dst num_clusters s out =
     (case ok_bind (read_cluster_mem s cluster_no dst out) (\<lambda>(s1, out1).
             ok_bind (fat32_next_cluster s1 cluster_no) (\<lambda>c. Inr (c, s1, out1))) of
        Inl f \<Rightarrow> Some (Inl f)
      | Inr (next_no, s1, out1) \<Rightarrow>
          if next_no \<noteq> FAT32_TERMINAL_CLUSTER_NO
          then inspect_read next_no (dst + words_of (bytes_per_cluster s)) (num_clusters + 1) s1 out1
          else Some (Inr (next_no, num_clusters + 1, s1, out1)))"

partial_function (option) inspect_chain :: "'d fs \<Rightarrow> u32 \<Rightarrow> bytes \<Rightarrow> bytes res option" where
  "inspect_chain s cluster_no out =
     (case ok_bind (say ''%d [%x] '' [Word32 cluster_no, Word32 cluster_no] out) (\<lambda>out1.
             ok_bind (fat32_next_cluster s cluster_no) (\<lambda>c.
             ok_bind (if c \<le> 2 \<and> c \<noteq> FAT32_TERMINAL_CLUSTER_NO then sayk ''PRE-ROOT '' out1 else Inr out1)
               (\<lambda>out2. Inr (c, out2)))) of
        Inl f \<Rightarrow> Some (Inl f)
      | Inr (next_no, out2) \<Rightarrow>
          if next_no \<noteq> FAT32_TERMINAL_CLUSTER_NO \<and> 2 < next_no then inspect_chain s next_no out2
          else Some (Inr out2))"

definition inspect_rec :: "'d fs \<Rightarrow> u32 \<Rightarrow> dir_record \<Rightarrow> bytes \<Rightarrow> bytes res option" where
  "inspect_rec s i d out =
     (case ok_bind (say ''[idx: %d] '' [Word32 i] out) (\<lambda>out.
             ok_bind (say ''<'' [] out) (\<lambda>out.
             ok_bind (print_name (dir_name d) out) (\<lambda>out.
             ok_bind (say ''>'' [] out) (say [CHR 0x09] [])))) of
        Inl f \<Rightarrow> Some (Inl f)
      | Inr out1 \<Rightarrow>
          if first_cluster d = 0
          then Some (say (''attempting to inspect cluster no < 2, aborting.'' @ nl) [] out1)
          else
            (case sayk ''clusters: '' out1 of
               Inl f \<Rightarrow> Some (Inl f)
             | Inr out2 \<Rightarrow>
                 (case inspect_chain s (first_cluster d) out2 of
                    None \<Rightarrow> None
                  | Some r \<Rightarrow> Some (ok_bind r (sayk nl)))))"

text \<open>A record is eight words; its index is the difference of two pointers.\<close>

partial_function (option) inspect_recs :: "'d fs \<Rightarrow> widx \<Rightarrow> widx \<Rightarrow> bytes \<Rightarrow> bytes res option" where
  "inspect_recs s dir_rec stop out =
     (if dir_rec = stop then Some (Inr out)
      else
        (let d = decode_dir_record (mem_bytes s dir_rec 8) in
         if IS_TERMINAL d then Some (Inr out)
         else
           (case (if \<not> IS_LFN (dir_attr d)
                  then inspect_rec s (ucast ((dir_rec - FAT_end s) div 8)) d out else Some (Inr out)) of
              None \<Rightarrow> None
            | Some (Inl f) \<Rightarrow> Some (Inl f)
            | Some (Inr out1) \<Rightarrow> inspect_recs s (dir_rec + 8) stop out1)))"

definition fat32_inspect_dir :: "'d fs \<Rightarrow> u32 \<Rightarrow> bytes \<Rightarrow> ('d fs \<times> bytes) res option" where
  "fat32_inspect_dir s cluster_no out =
     (if \<not> did_init s
      then Some (Inl (Panic (''Attempted to inspect the filesystem before initialization.'' @ nl)))
      else
        (case inspect_read cluster_no (FAT_end s) 0 s out of
           None \<Rightarrow> None
         | Some (Inl f) \<Rightarrow> Some (Inl f)
         | Some (Inr (cluster_no', num_clusters, s1, out1)) \<Rightarrow>
             (case say (''Files in directory %d [%x]:'' @ nl) [Word32 cluster_no', Word32 cluster_no'] out1 of
                Inl f \<Rightarrow> Some (Inl f)
              | Inr out2 \<Rightarrow>
                  (case inspect_recs s1 (FAT_end s1)
                          (FAT_end s1 + words_of (bytes_per_cluster s * num_clusters)) out2 of
                     None \<Rightarrow> None
                   | Some r \<Rightarrow> Some (ok_bind r (\<lambda>out3. Inr (s1, out3)))))))"

section \<open>What is printed\<close>

definition decimal :: "u32 \<Rightarrow> bytes" where
  "decimal u = (if u <s 0 then 0x2d # rev (low_digits 10 (- u)) else rev (low_digits 10 u))"

definition hex :: "u32 \<Rightarrow> bytes" where
  "hex u = ascii ''0x'' @ rev (low_digits 16 u)"

lemma emit_val_10: "emit_val putchar 10 u out = Inr (out @ rev (low_digits 10 u))"
proof -
  have "length (low_digits 10 u) \<le> 32"
    by (rule low_digits_length) (use unsigned_less[of u, where ?'a = nat] in simp_all)
  then show ?thesis by (simp add: emit_val_def emit_loop_digits put_all_putchar)
qed

named_theorems render "the text a format gives"

lemma vprintk_end [render]: "vprintk putchar (0 # cs) args out = Inr (0, out)"
  by (simp add: vprintk.simps)

lemma vprintk_char [render]:
  "c \<noteq> 0 \<Longrightarrow> c \<noteq> 0x25 \<Longrightarrow> vprintk putchar (c # cs) args out = vprintk putchar cs args (out @ [c])"
  by (simp add: vprintk.simps putchar_def)

lemma vprintk_d [render]:
  "vprintk putchar (0x25 # 0x64 # cs) (Word32 u # args) out = vprintk putchar cs args (out @ decimal u)"
  by (simp add: vprintk.simps known_letters_def next_arg_def convert_def putchar_def emit_val_10 decimal_def)

lemma vprintk_x [render]:
  "vprintk putchar (0x25 # 0x78 # cs) (Word32 u # args) out = vprintk putchar cs args (out @ hex u)"
  by (simp add: vprintk.simps known_letters_def next_arg_def convert_def putchar_def emit_val_16 hex_def ascii_def)

lemma vprintk_c [render]:
  "vprintk putchar (0x25 # 0x63 # cs) (Word32 u # args) out = vprintk putchar cs args (out @ [ucast u])"
  by (simp add: vprintk.simps known_letters_def next_arg_def convert_def putchar_def)


lemmas say_simps = say_def sayk_def printk_def putk_def cstr_def ascii_def nl_def putchar_def render







section \<open>A record\<close>


text \<open>A root directory with one file, whose record is followed by the terminal; its clusters are 9 and 10.\<close>

definition demo_list_sector :: bytes where
  "demo_list_sector = replicate 11 65 @ replicate 15 0 @ [9] @ replicate 485 0"

definition demo_list :: "(u32 \<Rightarrow> bytes) fs" where
  "demo_list = demo_fs (\<lambda>l. if l = 50 then demo_list_sector else replicate 512 0)
     (\<lambda>x. if x = 9 then 10 else if x = 2 \<or> x = 10 then 0x0FFFFFFF else 0)"



lemma demo_list_chain:
  "chain (next_of demo_list) [9, 10]" "c \<in> set [9, 10] \<Longrightarrow> 2 < c \<and> c \<noteq> FAT32_TERMINAL_CLUSTER_NO"
  "chain (next_of demo_list) [FAT32_ROOT_CLUSTER_NO]" "did_init demo_list"
  by (auto simp: next_of_def fat_at_def demo_list_def demo_fs_def FAT32_ROOT_CLUSTER_NO_def
      CLUSTER_NO_id FAT32_TERMINAL_val)

section \<open>The root directory\<close>

text \<open>What is printed of a record depends on the table only.\<close>

lemma dump_chain_cong:
  fixes s t :: "'d fs"
  assumes "fat32_next_cluster t = fat32_next_cluster s"
  shows "dump_chain t = dump_chain s"
proof -
  have half: "fat32_next_cluster t = fat32_next_cluster s \<longrightarrow> dump_chain t c out = Some r"
    if "dump_chain s c out = Some r" for s t :: "'d fs" and c out r
  proof (rule dump_chain.raw_induct[OF _ that,
      where P = "\<lambda>s c out r. fat32_next_cluster t = fat32_next_cluster s \<longrightarrow> dump_chain t c out = Some r"])
    fix D s c out r
    assume IH: "\<And>s c out r. D s c out = Some r \<Longrightarrow>
        fat32_next_cluster t = fat32_next_cluster s \<longrightarrow> dump_chain t c out = Some r"
      and eq: "(if c = FAT32_TERMINAL_CLUSTER_NO then Some (say (''TERM'' @ nl) [] out)
      else if c \<le> 2 then Some (sayk (''PRE-ROOT'' @ nl) out)
      else
        (case ok_bind (say ''%d [%x] '' [Word32 c, Word32 c] out)
               (\<lambda>out1. ok_bind (fat32_next_cluster s c) (\<lambda>c. Inr (c, out1))) of
           Inl f \<Rightarrow> Some (Inl f)
         | Inr (next_no, out1) \<Rightarrow> D s next_no out1)) = Some r"
    show "fat32_next_cluster t = fat32_next_cluster s \<longrightarrow> dump_chain t c out = Some r"
      using eq IH by (subst dump_chain.simps) (auto split: if_splits sum.splits)
  qed
  show ?thesis
  proof (intro ext)
    fix c out
    show "dump_chain t c out = dump_chain s c out"
      using half[of s c out _ t] half[of t c out _ s] assms
      by (cases "dump_chain s c out"; cases "dump_chain t c out") auto
  qed
qed

lemma dump_rec_cong:
  fixes s t :: "'d fs"
  assumes "fat32_next_cluster t = fat32_next_cluster s"
  shows "fat32_dump_dir_rec t = fat32_dump_dir_rec s"
  by (intro ext) (simp only: fat32_dump_dir_rec_def dump_chain_cong[OF assms])

lemma dump_rec_same:
  assumes "same_store view s s'"
  shows "fat32_dump_dir_rec s' = fat32_dump_dir_rec s"
proof (rule dump_rec_cong)
  have "did_init s' = did_init s" using same_storeD(1)[OF assms] statics_eqD(3) by blast
  then show "fat32_next_cluster s' = fat32_next_cluster s"
    using same_storeD(9)[OF assms] by (simp add: fun_eq_iff fat32_next_cluster_def)
qed

text \<open>The reference: going through a list of records until a terminal.\<close>

fun dump_list :: "'d fs \<Rightarrow> dir_record list \<Rightarrow> bytes \<Rightarrow> (bool \<times> bytes) res option" where
  "dump_list s [] out = Some (Inr (False, out))"
| "dump_list s (d # ds) out =
     (case (if \<not> IS_LFN (dir_attr d) then fat32_dump_dir_rec s d out else Some (Inr out)) of
        None \<Rightarrow> None
      | Some (Inl f) \<Rightarrow> Some (Inl f)
      | Some (Inr out1) \<Rightarrow> if IS_TERMINAL d then Some (Inr (True, out1)) else dump_list s ds out1)"

lemma dump_records_list: "dump_records s buf is out = dump_list s (map (rec_at buf) is) out"
  by (induction "is" arbitrary: out) (auto simp: Let_def split: option.split sum.split)

lemma dump_list_append:
  "dump_list s (xs @ ys) out =
     (case dump_list s xs out of
        Some (Inr (False, out1)) \<Rightarrow> dump_list s ys out1
      | r \<Rightarrow> r)"
  by (induction xs arbitrary: out) (auto split: option.split sum.split bool.split)

lemma dump_list_cong: "fat32_dump_dir_rec t = fat32_dump_dir_rec s \<Longrightarrow> dump_list t ds out = dump_list s ds out"
  by (induction ds arbitrary: out) (auto split: option.split sum.split)

context block_device
begin

lemma dump_sectors_list:
  assumes "attached rd wr invar good s" "in_table s c" "\<And>k. k \<in> set ks \<Longrightarrow> k < spc s" "length buf = 512"
    and "dump_list s (cluster_records view s c ks) out = Some (Inr (b, out1))"
  shows "\<exists>buf' s'. dump_sectors c ks buf s out = Some (Inr (b, buf', s', out1))
    \<and> attached rd wr invar good s' \<and> same_store view s s' \<and> length buf' = 512"
  using assms
proof (induction ks arbitrary: buf s out)
  case Nil
  then show ?case by (simp add: cluster_records_def)
next
  case (Cons k ks)
  obtain s1 where r: "read_sector s (cluster_no_to_lba s c + of_nat k) buf = (dir_sector view s c k, s1)"
    and s1: "attached rd wr invar good s1" "same_store view s s1" "length (dir_sector view s c k) = 512"
    using read_dir_sector[OF Cons.prems(1,2) _ Cons.prems(4), of k] Cons.prems(3) by auto
  note st = same_storeD[OF s1(2)] and dl = dump_list_cong[OF dump_rec_same[OF s1(2)]]
  have d: "dump_records s1 (dir_sector view s c k) [0..<records_per_sector] out =
      dump_list s (sector_records (dir_sector view s c k)) out"
    by (simp add: dump_records_list sector_records_def dl)
  have split: "cluster_records view s c (k # ks) =
      sector_records (dir_sector view s c k) @ cluster_records view s c ks"
    by (simp add: cluster_records_def)
  obtain b1 o1 where b1: "dump_list s (sector_records (dir_sector view s c k)) out = Some (Inr (b1, o1))"
    using Cons.prems(5) by (auto simp: split dump_list_append split: option.splits sum.splits)
  show ?case
  proof (cases b1)
    case True
    then show ?thesis using b1 Cons.prems(5) r d s1 by (auto simp: split dump_list_append)
  next
    case False
    then have rest: "dump_list s1 (cluster_records view s1 c ks) o1 = Some (Inr (b, out1))"
      using b1 Cons.prems(5) by (simp add: split dump_list_append dl st)
    obtain buf' s' where "dump_sectors c ks (dir_sector view s c k) s1 o1 = Some (Inr (b, buf', s', out1))"
      "attached rd wr invar good s'" "same_store view s1 s'" "length buf' = 512"
      using Cons.IH[OF s1(1) _ _ s1(3) rest] Cons.prems(2,3) st geometry_statics(3)[OF st(1)] by auto
    then show ?thesis
      using r d b1 False same_store_trans[OF s1(2)] by (auto simp: Let_def)
  qed
qed

lemma dump_dir_list:
  assumes "attached rd wr invar good s" "dir_walk (next_of s) (c # cs)"
    and "\<And>d. d \<in> set (c # cs) \<Longrightarrow> in_table s d" "length buf = 512"
    and "dump_list s (dir_records view s (c # cs)) out = Some (Inr (True, out1))"
  shows "\<exists>s'. dump_dir c buf s out = Some (Inr (s', out1)) \<and> attached rd wr invar good s' \<and> same_store view s s'"
  using assms
proof (induction cs arbitrary: c buf s out)
  case Nil
  have t: "in_table s c" using Nil.prems(3) by simp
  have ne: "c \<noteq> - 1" using in_tableD(5)[OF attached_table[OF Nil.prems(1)] t] .
  have "dump_list s (cluster_records view s c [0..<spc s]) out = Some (Inr (True, out1))"
    using Nil.prems(5) by (simp add: dir_records_def)
  from dump_sectors_list[OF Nil.prems(1) t _ Nil.prems(4) this]
  obtain buf' s' where "dump_sectors c [0..<spc s] buf s out = Some (Inr (True, buf', s', out1))"
    "attached rd wr invar good s'" "same_store view s s'" by auto
  then show ?case
    using ne num_dir_sectors_spc[OF attached_geometry[OF Nil.prems(1)]] by (subst dump_dir.simps) simp
next
  case (Cons d cs)
  have t: "in_table s c" using Cons.prems(3) by simp
  have ne: "c \<noteq> - 1" using in_tableD(5)[OF attached_table[OF Cons.prems(1)] t] .
  have split: "dir_records view s (c # d # cs) = cluster_records view s c [0..<spc s] @ dir_records view s (d # cs)"
    by (simp add: dir_records_def)
  obtain b o1 where b: "dump_list s (cluster_records view s c [0..<spc s]) out = Some (Inr (b, o1))"
    using Cons.prems(5) by (auto simp: split dump_list_append split: option.splits sum.splits)
  from dump_sectors_list[OF Cons.prems(1) t _ Cons.prems(4) this]
  obtain buf1 s1 where r: "dump_sectors c [0..<spc s] buf s out = Some (Inr (b, buf1, s1, o1))"
    and s1: "attached rd wr invar good s1" "same_store view s s1" "length buf1 = 512" by auto
  note e = same_storeD[OF s1(2)] and n = num_dir_sectors_spc[OF attached_geometry[OF Cons.prems(1)]]
  show ?case
  proof (cases b)
    case True
    then show ?thesis
      using r s1 ne n b Cons.prems(5) by (subst dump_dir.simps) (simp add: split dump_list_append)
  next
    case False
    then have "dump_list s1 (dir_records view s1 (d # cs)) o1 = Some (Inr (True, out1))"
      using b Cons.prems(5) by (simp add: split dump_list_append dump_list_cong[OF dump_rec_same[OF s1(2)]] e)
    from Cons.IH[OF s1(1) _ _ s1(3) this]
    obtain s' where "dump_dir d buf1 s1 o1 = Some (Inr (s', out1))" "attached rd wr invar good s'"
      "same_store view s1 s'"
      using Cons.prems(2,3) by (auto simp: e)
    moreover have "did_init s1" "next_of s1 c = d"
      using attached_table[OF s1(1)] Cons.prems(2) by (simp_all add: table_ok_def e)
    ultimately show ?thesis
      using r ne n False same_store_trans[OF s1(2)] by (subst dump_dir.simps) (simp add: fat32_next_cluster_ok)
  qed
qed

end






lemma demo_list_attached: "attached ram_read ram_write ram_invar (\<lambda>_. True) demo_list"
  by (simp add: attached_def demo_list_def demo_geometry_ok)
     (simp add: demo_fs_def ram_invar_def demo_list_sector_def)



section \<open>Following a chain by hand\<close>

text \<open>
  \<open>follow_file_chain\<close> waits for an entry with all 32 bits set. The code itself ends every chain
  with 0x0FFFFFFF: as long as no word of memory is 0xFFFFFFFF the routine never returns, whatever
  cluster it starts from.
\<close>

theorem follow_file_chain_diverges:
  assumes "\<And>k. mem s k \<noteq> - 1" "c \<noteq> - 1"
  shows "follow_file_chain s c out = None"
proof -
  have "\<not> (s' = s \<and> c' \<noteq> - 1)" if "follow_file_chain s' c' out' = Some r" for s' c' out' r
  proof (rule follow_file_chain.raw_induct[OF _ that, where P = "\<lambda>s' c' out' r. \<not> (s' = s \<and> c' \<noteq> - 1)"])
    fix F s' c' out' r
    assume IH: "\<And>s' c' out' r. F s' c' out' = Some r \<Longrightarrow> \<not> (s' = s \<and> c' \<noteq> - 1)"
      and eq: "(if c' \<noteq> - 1 then
        (case say ''%d '' [Word32 c'] out' of
           Inl f \<Rightarrow> Some (Inl f)
         | Inr out1 \<Rightarrow> F s' (fat_at s' (CLUSTER_NO c')) out1)
      else Some (say (''%d'' @ nl) [Word32 c'] out')) = Some r"
    have t: "say ''%d '' [Word32 c'] out' = Inr (out' @ decimal c' @ [0x20])"
      by (simp add: say_simps)
    show "\<not> (s' = s \<and> c' \<noteq> - 1)"
    proof
      assume a: "s' = s \<and> c' \<noteq> - 1"
      then have "F s (fat_at s (CLUSTER_NO c')) (out' @ decimal c' @ [0x20]) = Some r"
        using eq t by simp
      from IH[OF this] show False using assms(1) by (simp add: fat_at_def)
    qed
  qed
  then show ?thesis using assms(2) by (metis option.exhaust)
qed

theorem follow_file_chain_diverges_witness:
  "follow_file_chain demo_list 9 [] = None"
  by (rule follow_file_chain_diverges) (simp_all add: demo_list_def demo_fs_def)

section \<open>Loading a directory\<close>

definition read_line :: "'d fs \<Rightarrow> u32 \<Rightarrow> bytes" where
  "read_line s c = ascii ''fat32: reading cluster '' @ decimal c @ ascii '' (lba ''
     @ decimal (cluster_no_to_lba s c) @ ascii ('')'' @ nl)"

lemma u32_at_chunk:
  assumes "off + n \<le> length bs" "j + 4 \<le> n"
  shows "u32_at bs (off + j) = u32_at (chunk off n bs) j"
  using assms by (simp add: u32_at_def add.assoc)

lemma unat_add_nat:
  fixes a :: "'a::len word"
  assumes "unat a + n < 2 ^ LENGTH('a)"
  shows "unat (a + of_nat n) = unat a + n"
  using assms by (simp add: unat_word_ariths unat_of_nat_small)

text \<open>The sectors of cluster \<open>c\<close> are in memory from word \<open>a\<close> on.\<close>

definition in_mem :: "('d \<Rightarrow> u32 \<Rightarrow> bytes) \<Rightarrow> 'd fs \<Rightarrow> 'd fs \<Rightarrow> u32 \<Rightarrow> nat \<Rightarrow> bool" where
  "in_mem view s s' c a \<longleftrightarrow> (\<forall>k < spc s. \<forall>w < 128.
     mem s' (of_nat (a + 128 * k + w)) = u32_at (dir_sector view s c k) (4 * w))"

context block_device
begin

lemma read_cluster_mem_run:
  assumes "attached rd wr invar good s" "in_table s c" "unat dst + 128 * spc s \<le> 2 ^ 30"
  obtains s1 where "read_cluster_mem s c dst out = Inr (s1, out @ read_line s c)"
    "attached rd wr invar good s1" "statics s1 = statics s" "view (dev s1) = view (dev s)"
    "\<And>x. unat x < unat dst \<or> unat dst + 128 * spc s \<le> unat x \<Longrightarrow> mem s1 x = mem s x"
    "in_mem view s s1 c (unat dst)"
proof -
  have n: "num_dir_sectors s = spc s" by (rule num_dir_sectors_spc[OF attached_geometry[OF assms(1)]])
  let ?old = "mem_bytes s dst (128 * spc s)"
  obtain bs t where r: "read_cluster_loop (spc s) 0 (cluster_no_to_lba s c + of_nat 0) ?old s = (bs, t)"
    and t: "same_store view s t" "attached rd wr invar good t" "length bs = 512 * spc s"
      "\<And>k. k < spc s \<Longrightarrow> chunk (512 * k) 512 bs = dir_sector view s c k"
    using read_cluster_loop_spec[OF assms(1,2), of 0 "spc s" ?old] by auto
  let ?s1 = "mem_store t dst bs"
  have m: "mem ?s1 x = (if unat dst \<le> unat x \<and> unat x < unat dst + 128 * spc s
      then u32_at bs (4 * (unat x - unat dst)) else mem s x)" for x
    using mem_store_range[OF assms(3), of bs t x] t(1,3) by (simp add: same_store_def)
  have "mem ?s1 (of_nat (unat dst + 128 * k + w)) = u32_at (dir_sector view s c k) (4 * w)"
    if kw: "k < spc s" "w < 128" for k w
  proof -
    have "Suc k * 128 \<le> spc s * 128" using kw(1) by (intro mult_le_mono1) simp
    then have le: "128 * k + 128 \<le> 128 * spc s" by simp
    have u: "unat (of_nat (unat dst + 128 * k + w) :: widx) = unat dst + 128 * k + w"
      by (rule unat_of_nat_small) (use assms(3) le kw(2) in simp)
    have "u32_at bs (512 * k + 4 * w) = u32_at (chunk (512 * k) 512 bs) (4 * w)"
      by (rule u32_at_chunk) (use le kw t(3) in simp_all)
    moreover have "4 * (unat dst + 128 * k + w - unat dst) = 512 * k + 4 * w" by simp
    ultimately show ?thesis using le kw(2) t(4)[OF kw(1)] by (simp only: m u) simp
  qed
  then have i: "in_mem view s ?s1 c (unat dst)" by (simp add: in_mem_def)
  have "read_cluster s c ?old = Inr (bs, t)"
    using r n by (simp add: read_cluster_def SD_SECTOR_SIZE_def)
  then have run: "read_cluster_mem s c dst out = Inr (?s1, out @ read_line s c)"
    by (simp add: read_cluster_mem_def n) (simp add: say_simps read_line_def)
  have a: "attached rd wr invar good ?s1"
    using t(2) geometry_statics[of ?s1 t] by (simp add: attached_def) (simp add: mem_store_def)
  show thesis
    by (rule that[OF run a _ _ _ i]) (use t(1) m in \<open>auto simp: same_store_def mem_store_def\<close>)
qed

lemma inspect_read_run:
  assumes "attached rd wr invar good s" "chain (next_of s) cs" "\<And>c. c \<in> set cs \<Longrightarrow> in_table s c"
    and "unat (FAT_end s) \<le> unat dst" "unat dst + 128 * spc s * length cs \<le> 2 ^ 30"
    and "words_of (bytes_per_cluster s) = of_nat (128 * spc s)"
  shows "\<exists>s1. inspect_read (hd cs) dst num s out =
      Some (Inr (FAT32_TERMINAL_CLUSTER_NO, num + of_nat (length cs), s1, out @ concat (map (read_line s) cs)))
    \<and> attached rd wr invar good s1 \<and> statics s1 = statics s \<and> view (dev s1) = view (dev s)
    \<and> (\<forall>x. unat x < unat dst \<longrightarrow> mem s1 x = mem s x)
    \<and> (\<forall>i < length cs. in_mem view s s1 (cs ! i) (unat dst + 128 * spc s * i))"
  using assms
proof (induction cs arbitrary: s dst num out)
  case (Cons c cs)
  have t: "in_table s c" and sp: "0 < spc s"
    using Cons.prems(3) attached_geometry[OF Cons.prems(1)] by (simp_all add: geometry_ok_def)
  obtain s2 where r: "read_cluster_mem s c dst out = Inr (s2, out @ read_line s c)"
    and s2: "attached rd wr invar good s2" "statics s2 = statics s" "view (dev s2) = view (dev s)"
      "\<And>x. unat x < unat dst \<or> unat dst + 128 * spc s \<le> unat x \<Longrightarrow> mem s2 x = mem s x"
      "in_mem view s s2 c (unat dst)"
    by (rule read_cluster_mem_run[OF Cons.prems(1) t]) (use Cons.prems(5) in auto)
  note g = geometry_statics[OF s2(2)] and fe = statics_eqD[OF s2(2)] and it = in_table_statics[OF s2(2)]
  have nx: "next_of s2 d = next_of s d" if "in_table s d" for d
  proof -
    have "unat (ucast d :: widx) = unat d"
      using in_tableD(1)[OF attached_table[OF Cons.prems(1)] that] by (rule unat_ucast_idx)
    then have "mem s2 (ucast d) = mem s (ucast d)"
      using that Cons.prems(4) by (intro s2(4)) (simp add: in_table_def)
    then show ?thesis by (simp add: next_of_def fat_at_def)
  qed
  have di: "did_init s2" using attached_table[OF s2(1)] by (simp add: table_ok_def)
  have step: "inspect_read c dst num s out =
      (if next_of s c \<noteq> FAT32_TERMINAL_CLUSTER_NO
       then inspect_read (next_of s c) (dst + of_nat (128 * spc s)) (num + 1) s2 (out @ read_line s c)
       else Some (Inr (next_of s c, num + 1, s2, out @ read_line s c)))"
    using nx[OF t] Cons.prems(6) by (subst inspect_read.simps) (simp add: r fat32_next_cluster_ok[OF di])
  show ?case
  proof (cases cs)
    case Nil
    then show ?thesis using step Cons.prems(2) s2 by (intro exI[of _ s2]) simp
  next
    case (Cons d ds)
    define d' where "d' = dst + of_nat (128 * spc s)"
    have room: "unat dst + 128 * spc s + 128 * spc s * length cs \<le> 2 ^ 30" "1 \<le> length cs"
      using Cons.prems(5) Cons by (simp_all add: algebra_simps)
    have "128 * spc s * 1 \<le> 128 * spc s * length cs" using room(2) by (rule mult_le_mono2)
    then have "unat dst + 128 * spc s < 2 ^ 30" using room(1) sp by linarith
    then have ud: "unat d' = unat dst + 128 * spc s" unfolding d'_def by (intro unat_add_nat) simp
    have ch: "chain (next_of s) cs" "next_of s c = d" using Cons.prems(2) Cons by auto
    have ne: "d \<noteq> FAT32_TERMINAL_CLUSTER_NO"
      using in_tableD(4)[OF attached_table[OF Cons.prems(1)], of d] Cons.prems(3) Cons by simp
    have ch2: "chain (next_of s2) cs"
      using ch(1) chain_cong[of cs "next_of s2" "next_of s"] nx Cons.prems(3) by auto
    have w2: "words_of (bytes_per_cluster s2) = of_nat (128 * spc s2)"
      using Cons.prems(6) fe g by (simp add: bytes_per_cluster_def)
    have ds: "dir_sector view s2 e k = dir_sector view s e k" for e k
      using s2(3) g by (simp add: dir_sector_def)
    have rl: "read_line s2 = read_line s" using g by (simp add: read_line_def fun_eq_iff)
    obtain s1 where IH: "inspect_read (hd cs) d' (num + 1) s2 (out @ read_line s c) =
        Some (Inr (FAT32_TERMINAL_CLUSTER_NO, num + 1 + of_nat (length cs), s1,
          (out @ read_line s c) @ concat (map (read_line s2) cs)))"
      "attached rd wr invar good s1" "statics s1 = statics s2" "view (dev s1) = view (dev s2)"
      "\<forall>x. unat x < unat d' \<longrightarrow> mem s1 x = mem s2 x"
      "\<forall>i < length cs. in_mem view s2 s1 (cs ! i) (unat d' + 128 * spc s2 * i)"
      using Cons.IH[OF s2(1) ch2 _ _ _ w2, of d' "num + 1" "out @ read_line s c"]
        Cons.prems(3,4) room(1) g(3) fe(7) it by (auto simp: ud)
    have m1: "mem s1 x = mem s x" if "unat x < unat dst" for x
      using that IH(5) s2(4) ud by simp
    have first: "in_mem view s s1 c (unat dst)"
      unfolding in_mem_def
    proof (intro allI impI)
      fix k w assume kw: "k < spc s" "w < (128 :: nat)"
      have "Suc k * 128 \<le> spc s * 128" using kw(1) by (intro mult_le_mono1) simp
      then have le: "128 * k + 128 \<le> 128 * spc s" by simp
      have "unat (of_nat (unat dst + 128 * k + w) :: widx) = unat dst + 128 * k + w"
        by (rule unat_of_nat_small) (use le kw(2) \<open>unat dst + 128 * spc s < 2 ^ 30\<close> in simp)
      then have "mem s1 (of_nat (unat dst + 128 * k + w)) = mem s2 (of_nat (unat dst + 128 * k + w))"
        using IH(5) ud le kw(2) by simp
      then show "mem s1 (of_nat (unat dst + 128 * k + w)) = u32_at (dir_sector view s c k) (4 * w)"
        using s2(5) kw by (simp add: in_mem_def)
    qed
    have rest: "in_mem view s s1 (cs ! i) (unat dst + 128 * spc s * Suc i)" if "i < length cs" for i
      using IH(6) that ud g(3) ds by (simp add: in_mem_def algebra_simps)
    have "in_mem view s s1 ((c # cs) ! i) (unat dst + 128 * spc s * i)" if "i < length (c # cs)" for i
      using first rest that by (cases i) simp_all
    moreover have "hd cs = d" using Cons by simp
    ultimately show ?thesis
      using step[folded d'_def] ne ch(2) IH(1-4) m1 s2(2,3) by (intro exI[of _ s1]) (simp add: rl add.commute add.left_commute)
  qed
qed simp

end

lemma words_of_cluster:
  assumes "bytes_per_sector (cur_vol_id s) = 512"
  shows "words_of (bytes_per_cluster s) = of_nat (128 * spc s)"
    "128 * spc s * n < 2 ^ 30 \<Longrightarrow> words_of (bytes_per_cluster s * of_nat n) = of_nat (128 * spc s * n)"
proof -
  have sp: "spc s < 256" using unsigned_less[of "vd_sectors_per_cluster (cur_vol s)", where ?'a = nat]
    by (simp add: spc_def)
  have b: "bytes_per_cluster s = of_nat (512 * spc s)"
    using assms by (simp add: bytes_per_cluster_def spc_def mult.commute)
  have w: "words_of (of_nat (512 * m)) = of_nat (128 * m)" if "128 * m < 2 ^ 30" for m
  proof -
    have "unat (of_nat (512 * m) div 4 :: u32) = 128 * m"
      using that by (simp add: unat_div unat_of_nat_small del: of_nat_mult)
    then show ?thesis unfolding words_of_def by (metis of_nat_unat)
  qed
  show "words_of (bytes_per_cluster s) = of_nat (128 * spc s)" using w[of "spc s"] sp b by simp
  show "words_of (bytes_per_cluster s * of_nat n) = of_nat (128 * spc s * n)" if "128 * spc s * n < 2 ^ 30"
    using w[of "spc s * n"] that b by (simp add: mult.assoc)
qed

text \<open>
  \<open>fat32_inspect_dir\<close> loads the whole directory behind the table. It reads every cluster of the
  directory's chain, in order and without gaps, to the words after the table's copy, which stays as it was,
  and lists the records of exactly that area. Its heading, though, always names directory 268435455: the
  loop has overwritten the number with the end mark.
\<close>

theorem fat32_inspect_dir_loads:
  assumes "block_device rd wr view good invar" "attached rd wr invar good s"
    and "chain (next_of s) cs" "\<And>c. c \<in> set cs \<Longrightarrow> in_table s c"
    and "bytes_per_sector (cur_vol_id s) = 512" "unat (FAT_end s) + 128 * spc s * length cs \<le> 2 ^ 30"
  shows "\<exists>s1. fat32_inspect_dir s (hd cs) out =
      (case inspect_recs s1 (FAT_end s) (FAT_end s + of_nat (128 * spc s * length cs))
              (out @ concat (map (read_line s) cs) @ ascii (''Files in directory 268435455 [0xfffffff]:'' @ nl)) of
         None \<Rightarrow> None
       | Some r \<Rightarrow> Some (ok_bind r (\<lambda>out'. Inr (s1, out'))))
    \<and> (\<forall>c. in_table s c \<longrightarrow> next_of s1 c = next_of s c)
    \<and> (\<forall>i < length cs. in_mem view s s1 (cs ! i) (unat (FAT_end s) + 128 * spc s * i))"
proof -
  have tok: "table_ok s" using attached_table[OF assms(2)] .
  have e: "2 \<le> unat (FAT_end s)" and di: "did_init s" using tok by (simp_all add: table_ok_def)
  obtain s1 where r: "inspect_read (hd cs) (FAT_end s) 0 s out = Some (Inr (FAT32_TERMINAL_CLUSTER_NO,
      0 + of_nat (length cs), s1, out @ concat (map (read_line s) cs)))"
    and s1: "statics s1 = statics s" "\<forall>x. unat x < unat (FAT_end s) \<longrightarrow> mem s1 x = mem s x"
      "\<forall>i < length cs. in_mem view s s1 (cs ! i) (unat (FAT_end s) + 128 * spc s * i)"
    using block_device.inspect_read_run[OF assms(1-4) order_refl assms(6) words_of_cluster(1)[OF assms(5)]]
    by blast
  have b: "bytes_per_cluster s * of_nat (length cs) = bytes_per_cluster s1 * of_nat (length cs)" "FAT_end s1 = FAT_end s"
    using statics_eqD[OF s1(1)] by (simp_all add: bytes_per_cluster_def)
  have w: "words_of (bytes_per_cluster s * of_nat (length cs)) = of_nat (128 * spc s * length cs)"
    by (rule words_of_cluster(2)[OF assms(5)]) (use assms(6) e in linarith)
  have "decimal 0x0FFFFFFF = ascii ''268435455''" "hex 0x0FFFFFFF = ascii ''0xfffffff''" by code_simp+
  then have h: "say (''Files in directory %d [%x]:'' @ nl) [Word32 FAT32_TERMINAL_CLUSTER_NO, Word32 FAT32_TERMINAL_CLUSTER_NO] o1
      = Inr (o1 @ ascii (''Files in directory 268435455 [0xfffffff]:'' @ nl))" for o1
    by (simp add: FAT32_TERMINAL_val) (simp add: say_simps)
  have nx: "next_of s1 c = next_of s c" if "in_table s c" for c
  proof -
    have "unat (ucast c :: widx) = unat c" using in_tableD(1)[OF tok that] by (rule unat_ucast_idx)
    then have "mem s1 (ucast c) = mem s (ucast c)" using that s1(2) by (simp add: in_table_def)
    then show ?thesis by (simp add: next_of_def fat_at_def)
  qed
  show ?thesis
    using r h b w di nx s1(3) by (intro exI[of _ s1]) (simp add: fat32_inspect_dir_def)
qed


theorem fat32_inspect_dir_loads_witness:
  "\<exists>s1. fat32_inspect_dir demo_list 2 [] =
      (case inspect_recs s1 (FAT_end demo_list) (FAT_end demo_list + of_nat (128 * spc demo_list * length [2 :: u32]))
              ([] @ concat (map (read_line demo_list) [2])
               @ ascii (''Files in directory 268435455 [0xfffffff]:'' @ nl)) of
         None \<Rightarrow> None
       | Some r \<Rightarrow> Some (ok_bind r (\<lambda>out'. Inr (s1, out'))))
    \<and> next_of s1 9 = 10 \<and> in_mem (\<lambda>d. d) demo_list s1 2 130"
proof -
  have t: "in_table demo_list c \<longleftrightarrow> 2 \<le> c \<and> c < 130" for c by (simp add: demo_list_def demo_in_table)
  have c: "chain (next_of demo_list) [2]" using demo_list_chain(3) by (simp add: FAT32_ROOT_CLUSTER_NO_def)
  have "bytes_per_sector (cur_vol_id demo_list) = 512" "unat (FAT_end demo_list) = 130"
    by (simp_all add: demo_list_def demo_fs_def cur_vol_id_def decode_volume_id_def u16_at_def le16_def)
  then have p: "bytes_per_sector (cur_vol_id demo_list) = 512"
    "unat (FAT_end demo_list) + 128 * spc demo_list * length [2 :: u32] \<le> 2 ^ 30" "unat (FAT_end demo_list) = 130"
    by (simp_all add: demo_list_def demo_spc)
  have n: "next_of demo_list 9 = 10" using demo_list_chain(1) by simp
  have r: "c \<in> set [2] \<Longrightarrow> in_table demo_list c" for c by (simp add: t)
  from fat32_inspect_dir_loads [OF ram.block_device_axioms demo_list_attached c r p(1,2), of "[]"]
  obtain s1 where "fat32_inspect_dir demo_list (hd [2]) [] =
      (case inspect_recs s1 (FAT_end demo_list) (FAT_end demo_list + of_nat (128 * spc demo_list * length [2 :: u32]))
              ([] @ concat (map (read_line demo_list) [2])
               @ ascii (''Files in directory 268435455 [0xfffffff]:'' @ nl)) of
         None \<Rightarrow> None
       | Some r \<Rightarrow> Some (ok_bind r (\<lambda>out'. Inr (s1, out'))))"
    "\<forall>c. in_table demo_list c \<longrightarrow> next_of s1 c = next_of demo_list c"
    "\<forall>i < length [2 :: u32]. in_mem (\<lambda>d. d) demo_list s1 ([2] ! i) (unat (FAT_end demo_list) + 128 * spc demo_list * i)"
    by blast
  moreover have "in_table demo_list 9" by (simp add: t)
  ultimately show ?thesis using n p(3) by (intro exI[of _ s1]) (simp only: list.sel, simp)
qed

end
