(* ===== verification/Fat32_Init.thy ===== *)
theory Fat32_Init
  imports Fat32_Insert
begin

text \<open>
  Mounting: \<open>fat32_init\<close> of \<open>src/pi-src/fat32.c\<close>. It picks the partition, derives the volume
  layout from the volume id, and reads the table into memory. The state it leaves is described
  exactly, including where in memory each table sector ends up.
\<close>

section \<open>The code\<close>

definition MBR_SECTOR :: u32 where "MBR_SECTOR = 0"

definition layout_of :: "u32 \<Rightarrow> volume_id \<Rightarrow> fat_volume_data" where
  "layout_of lba v =
     (let fat_begin = lba + ucast (num_reserved_sectors v)
      in \<lparr>fat_begin_lba = fat_begin,
          cluster_begin_lba = fat_begin + sectors_per_fat v * ucast (num_fats v),
          vd_sectors_per_cluster = sectors_per_cluster v,
          vd_root_dir_first_cluster = root_dir_first_cluster v\<rparr>)"

text \<open>What the loop over the four partition entries does with one that is in use. The line that shows the two
  sector sizes, printed just before the panic over them, is left out.\<close>

definition init_volume :: "'d fs \<Rightarrow> nat \<Rightarrow> partition_entry \<Rightarrow> 'd fs res" where
  "init_volume s i p =
     (let s1 = s\<lparr>partitions_in_use := partitions_in_use s OR push_bit i 1\<rparr>;
          (buf, s2) = read_sector s1 (lba_begin p) (all_vol_ids s1 ! i);
          s3 = s2\<lparr>all_vol_ids := (all_vol_ids s2)[i := buf]\<rparr>;
          v = decode_volume_id buf
      in if unat (bytes_per_sector v) \<noteq> SD_SECTOR_SIZE
         then Inl (Panic (''Partition uses different sector size than sd driver.'' @ nl))
         else Inr (s3\<lparr>vol_data := (vol_data s3)[i := layout_of (lba_begin p) v]\<rparr>))"

fun init_partitions :: "nat list \<Rightarrow> nat \<Rightarrow> 'd fs \<Rightarrow> 'd fs res" where
  "init_partitions [] num_valid_partitions s = Inr s"
| "init_partitions (i # is) num_valid_partitions s =
     (let p = partitions (decode_mbr (boot_sector s)) ! i
      in if num_sectors p \<noteq> 0 then
           (if num_valid_partitions + 1 = 2
            then Inl (Panic (''Found more than 1 valid partitions on this pi, don't know which to choose.'' @ nl))
            else case init_volume (s\<lparr>chosen_partition := i\<rparr>) i p of
                Inl f \<Rightarrow> Inl f
              | Inr s1 \<Rightarrow> init_partitions is (num_valid_partitions + 1) s1)
         else init_partitions is num_valid_partitions s)"

text \<open>
  The loop that reads the table: \<open>struct sector\<close> is declared with \<open>SD_SECTOR_SIZE\<close> 32-bit
  words, so the destination pointer advances by 512 words per sector.
\<close>

definition words_per_struct_sector :: nat where "words_per_struct_sector = 512"

fun load_fat :: "nat \<Rightarrow> nat \<Rightarrow> u32 \<Rightarrow> 'd fs \<Rightarrow> 'd fs" where
  "load_fat 0 i fat_begin s = s"
| "load_fat (Suc n) i fat_begin s =
     (let a = of_nat (words_per_struct_sector * i);
          (buf, s1) = read_sector s (fat_begin + of_nat i) (mem_bytes s a 128)
      in load_fat n (Suc i) fat_begin (mem_store s1 a buf))"

text \<open>The counter of the last loop is an \<open>int\<close>; counting it past \<open>INT_MAX\<close> is undefined.\<close>

definition fat32_init :: "'d fs \<Rightarrow> 'd read_fn \<Rightarrow> 'd write_fn \<Rightarrow> (int \<times> 'd fs) res" where
  "fat32_init s read write =
     (let s1 = s\<lparr>readsector := read, writesector := write\<rparr>;
          (buf, s2) = read_sector s1 MBR_SECTOR (boot_sector s1);
          s3 = s2\<lparr>boot_sector := buf\<rparr>
      in case init_partitions [0..<4] 0 s3 of
           Inl f \<Rightarrow> Inl f
         | Inr s4 \<Rightarrow>
             (let v = cur_vol_id s4 in
              if 2 ^ 31 \<le> unat (sectors_per_fat v) then Inl Undef
              else
                let s5 = load_fat (unat (sectors_per_fat v)) 0 (fat_begin_lba (cur_vol s4)) s4;
                    size = ucast (bytes_per_sector v) * sectors_per_fat v
                in Inr (0, s5\<lparr>FAT_end := ucast (drop_bit 2 size), did_init := True\<rparr>)))"

text \<open>The statics before the program runs: all zero. Memory past the kernel holds anything.\<close>

definition boot_fs :: "'d read_fn \<Rightarrow> 'd write_fn \<Rightarrow> (widx \<Rightarrow> u32) \<Rightarrow> 'd \<Rightarrow> 'd fs" where
  "boot_fs r w m d = \<lparr>readsector = r, writesector = w, did_init = False,
     partitions_in_use = 0, chosen_partition = 0, boot_sector = replicate 512 0,
     all_vol_ids = replicate 4 (replicate 512 0),
     vol_data = replicate 4 \<lparr>fat_begin_lba = 0, cluster_begin_lba = 0, vd_sectors_per_cluster = 0,
       vd_root_dir_first_cluster = 0\<rparr>,
     mem = m, FAT_end = 0, dev = d\<rparr>"

section \<open>Reading the table\<close>

lemma stride_div:
  fixes n i :: nat
  shows "512 * i \<le> n \<and> n < 512 * i + 128 \<longleftrightarrow> n div 512 = i \<and> n mod 512 < 128"
    and "n div 512 = i \<Longrightarrow> n - 512 * i = n mod 512"
proof -
  define q r where "q = n div 512" and "r = n mod 512"
  have n: "n = 512 * q + r" "r < 512" by (simp_all add: q_def r_def)
  have qi: "q = i" if "512 * i \<le> n" "n < 512 * i + 128"
  proof (rule antisym)
    show "q \<le> i" "i \<le> q" using that n by linarith+
  qed
  show "512 * i \<le> n \<and> n < 512 * i + 128 \<longleftrightarrow> n div 512 = i \<and> n mod 512 < 128"
  proof
    assume a: "512 * i \<le> n \<and> n < 512 * i + 128"
    then have "q = i" using qi by blast
    moreover have "r < 128" using a n \<open>q = i\<close> by linarith
    ultimately show "n div 512 = i \<and> n mod 512 < 128" by (simp add: q_def r_def)
  next
    assume "n div 512 = i \<and> n mod 512 < 128"
    then have "q = i" "r < 128" by (simp_all add: q_def r_def)
    then show "512 * i \<le> n \<and> n < 512 * i + 128" using n by linarith
  qed
  show "n div 512 = i \<Longrightarrow> n - 512 * i = n mod 512" using n by (simp flip: q_def r_def)
qed

lemma mem_store_unat:
  assumes "unat a + 128 \<le> 2 ^ 30" "length bs = 512"
  shows "mem (mem_store s a bs) x =
    (if unat a \<le> unat x \<and> unat x < unat a + 128 then u32_at bs (4 * (unat x - unat a)) else mem s x)"
  by (rule mem_store_range) (use assms in simp_all)

context block_device
begin

lemma load_fat_spec:
  assumes "readsector s = rd" "invar (dev s)" "\<And>q. i \<le> q \<Longrightarrow> q < i + n \<Longrightarrow> good (fb + of_nat q)"
    and "512 * (i + n) \<le> 2 ^ 30"
  shows "statics (load_fat n i fb s) = statics s \<and> invar (dev (load_fat n i fb s))
    \<and> view (dev (load_fat n i fb s)) = view (dev s)
    \<and> (\<forall>x. mem (load_fat n i fb s) x =
          (if i \<le> unat x div 512 \<and> unat x div 512 < i + n \<and> unat x mod 512 < 128
           then u32_at (view (dev s) (fb + of_nat (unat x div 512))) (4 * (unat x mod 512))
           else mem s x))"
  using assms
proof (induction n arbitrary: i s)
  case 0
  then show ?case by auto
next
  case (Suc n)
  define a :: widx where "a = of_nat (512 * i)"
  have ua: "unat a = 512 * i"
    unfolding a_def using Suc.prems(4) by (intro unat_of_nat_small) simp
  let ?l = "fb + of_nat i"
  have g: "good ?l" using Suc.prems(3)[of i] by simp
  have lm: "length (mem_bytes s a 128) = 512" by simp
  define s1 where "s1 = snd (read_sector s ?l (mem_bytes s a 128))"
  have r: "read_sector s ?l (mem_bytes s a 128) = (view (dev s) ?l, s1)"
    using rd_data[OF Suc.prems(2) g lm] Suc.prems(1)
    by (simp add: s1_def prod_eq_iff) (simp add: read_sector_def split_beta)
  have d1: "dev s1 = snd (snd (rd (dev s) ?l (mem_bytes s a 128) 1))"
    by (simp add: s1_def read_sector_def split_beta Suc.prems(1))
  have s1a: "statics s1 = statics s" unfolding s1_def by (rule read_sector_frame)
  have s1b: "mem s1 = mem s" unfolding s1_def by (rule read_sector_frame)
  have s1c: "invar (dev s1)" unfolding d1 by (rule rd_invar[OF Suc.prems(2) g lm])
  have s1d: "view (dev s1) = view (dev s)" unfolding d1 by (rule rd_view[OF Suc.prems(2) g lm])
  note s1 = s1a s1b s1c s1d
  have lv: "length (view (dev s) ?l) = 512" using view_length[OF Suc.prems(2) g] .
  let ?s2 = "mem_store s1 a (view (dev s) ?l)"
  have st2: "statics ?s2 = statics s" "dev ?s2 = dev s1" using s1 by (simp_all add: mem_store_def)
  have rs2: "readsector ?s2 = rd" using statics_eqD(1)[OF st2(1)] Suc.prems(1) by simp
  have m2: "mem ?s2 x = (if unat x div 512 = i \<and> unat x mod 512 < 128
      then u32_at (view (dev s) ?l) (4 * (unat x mod 512)) else mem s x)" for x
  proof -
    have "unat a + 128 \<le> 2 ^ 30" using Suc.prems(4) by (simp add: ua)
    from mem_store_unat[OF this lv, of s1 x] show ?thesis
      by (simp only: ua s1 stride_div(1)) (metis stride_div(2))
  qed
  have step: "load_fat (Suc n) i fb s = load_fat n (Suc i) fb ?s2"
    using r by (simp add: words_per_struct_sector_def a_def)
  have gg: "good (fb + of_nat q)" if "Suc i \<le> q" "q < Suc i + n" for q
    using Suc.prems(3)[of q] that by simp
  note IH = Suc.IH[OF rs2 _ gg, unfolded st2]
  show ?case
    unfolding step using IH s1(3,4) Suc.prems(4) by (auto simp: m2)
qed

end
section \<open>The state after mounting\<close>

definition partition_at :: "(u32 \<Rightarrow> bytes) \<Rightarrow> nat \<Rightarrow> partition_entry" where
  "partition_at D p = partitions (decode_mbr (D 0)) ! p"

definition volume_at :: "(u32 \<Rightarrow> bytes) \<Rightarrow> nat \<Rightarrow> volume_id" where
  "volume_at D p = decode_volume_id (D (lba_begin (partition_at D p)))"

definition layout_at :: "(u32 \<Rightarrow> bytes) \<Rightarrow> nat \<Rightarrow> fat_volume_data" where
  "layout_at D p = layout_of (lba_begin (partition_at D p)) (volume_at D p)"

definition table_sectors :: "(u32 \<Rightarrow> bytes) \<Rightarrow> nat \<Rightarrow> nat" where
  "table_sectors D p = unat (sectors_per_fat (volume_at D p))"

text \<open>Partition \<open>p\<close> is the only one in use, with 512-byte sectors and a table the loop can hold.\<close>

definition single_volume :: "(u32 \<Rightarrow> bytes) \<Rightarrow> nat \<Rightarrow> bool" where
  "single_volume D p \<longleftrightarrow> p < 4
     \<and> (\<forall>j < 4. num_sectors (partition_at D j) \<noteq> 0 \<longleftrightarrow> j = p)
     \<and> unat (bytes_per_sector (volume_at D p)) = SD_SECTOR_SIZE
     \<and> table_sectors D p < 2 ^ 21"

text \<open>The sectors mounting reads.\<close>

definition mount_lbas :: "(u32 \<Rightarrow> bytes) \<Rightarrow> nat \<Rightarrow> u32 set" where
  "mount_lbas D p = {0, lba_begin (partition_at D p)}
     \<union> (\<lambda>i. fat_begin_lba (layout_at D p) + of_nat i) ` {..<table_sectors D p}"

lemma init_partitions_skip:
  assumes "\<And>i. i \<in> set is \<Longrightarrow> num_sectors (partitions (decode_mbr (boot_sector s)) ! i) = 0"
  shows "init_partitions (is @ js) n s = init_partitions js n s"
  using assms by (induction "is") auto

lemma boot_fs_sel:
  "boot_sector (boot_fs r w m d) = replicate 512 0"
  "all_vol_ids (boot_fs r w m d) = replicate 4 (replicate 512 0)"
  "length (vol_data (boot_fs r w m d)) = 4" "mem (boot_fs r w m d) = m" "dev (boot_fs r w m d) = d"
  by (simp_all add: boot_fs_def)

context block_device
begin

text \<open>A read into one of the statics, on a state that already uses this device.\<close>

lemma read_static:
  assumes "readsector s = rd" "invar (dev s)" "good lba" "length buf = 512"
  shows "\<exists>d'. read_sector s lba buf = (view (dev s) lba, s\<lparr>dev := d'\<rparr>)
    \<and> invar d' \<and> view d' = view (dev s)"
proof -
  let ?r = "rd (dev s) lba buf 1"
  have "read_sector s lba buf = (fst (snd ?r), s\<lparr>dev := snd (snd ?r)\<rparr>)"
    by (simp add: read_sector_def assms(1) split_beta)
  then show ?thesis
    using rd_data[OF assms(2-4)] rd_view[OF assms(2-4)] rd_invar[OF assms(2-4)] by metis
qed

lemma init_partitions_single:
  assumes "readsector s = rd" "invar (dev s)" "D = view (dev s)" "single_volume D p"
    and "boot_sector s = D 0" "good (lba_begin (partition_at D p))"
    and "all_vol_ids s = replicate 4 (replicate 512 0)" "length (vol_data s) = 4"
  shows "\<exists>d'. init_partitions [0..<4] 0 s = Inr (s\<lparr>chosen_partition := p,
        partitions_in_use := partitions_in_use s OR push_bit p 1,
        all_vol_ids := (all_vol_ids s)[p := D (lba_begin (partition_at D p))],
        vol_data := (vol_data s)[p := layout_at D p], dev := d'\<rparr>)
      \<and> invar d' \<and> view d' = D"
proof -
  note sv = assms(4)[unfolded single_volume_def]
  have p4: "p < 4" using sv by blast
  have part: "partitions (decode_mbr (boot_sector s)) ! i = partition_at D i" for i
    by (simp add: assms(5) partition_at_def)
  have zero: "num_sectors (partition_at D i) = 0" if "i < 4" "i \<noteq> p" for i
    using sv that by blast
  have split: "[0..<4] = [0..<p] @ p # [Suc p..<4]" using p4 by (rule upt_split)
  let ?s1 = "s\<lparr>chosen_partition := p, partitions_in_use := partitions_in_use s OR push_bit p 1\<rparr>"
  let ?l = "lba_begin (partition_at D p)"
  obtain d' where rd1: "read_sector ?s1 ?l (replicate 512 0) = (D ?l, ?s1\<lparr>dev := d'\<rparr>)"
    and d': "invar d'" "view d' = D"
    using read_static[of ?s1 ?l "replicate 512 0"] assms(1,2,3,6) by auto
  let ?s2 = "s\<lparr>chosen_partition := p, partitions_in_use := partitions_in_use s OR push_bit p 1,
      all_vol_ids := (all_vol_ids s)[p := D ?l], vol_data := (vol_data s)[p := layout_at D p],
      dev := d'\<rparr>"
  have iv: "init_volume (s\<lparr>chosen_partition := p\<rparr>) p (partition_at D p) = Inr ?s2"
    using rd1 sv p4 by (simp add: init_volume_def assms(7) volume_at_def layout_at_def)
  have "init_partitions [Suc p..<4] 1 ?s2 = Inr ?s2"
    using init_partitions_skip[of "[Suc p..<4]" ?s2 "[]" 1] zero part by simp
  moreover have "init_partitions [0..<4] 0 s = init_partitions (p # [Suc p..<4]) 0 s"
    unfolding split using zero part p4 by (intro init_partitions_skip) simp
  moreover have "num_sectors (partition_at D p) \<noteq> 0" using sv by blast
  ultimately show ?thesis using iv part d' by (auto simp: Let_def)
qed

lemma fat32_init_spec:
  assumes "invar d" "D = view d" "single_volume D p" "\<And>l. l \<in> mount_lbas D p \<Longrightarrow> good l"
  shows "\<exists>s'. fat32_init (boot_fs r0 w0 m d) rd wr = Inr (0, s') \<and> readsector s' = rd
    \<and> writesector s' = wr \<and> did_init s' \<and> chosen_partition s' = p \<and> invar (dev s')
    \<and> view (dev s') = D \<and> cur_vol s' = layout_at D p \<and> cur_vol_id s' = volume_at D p
    \<and> unat (FAT_end s') = 128 * table_sectors D p
    \<and> (\<forall>x. mem s' x = (if unat x div 512 < table_sectors D p \<and> unat x mod 512 < 128
          then u32_at (D (fat_begin_lba (layout_at D p) + of_nat (unat x div 512))) (4 * (unat x mod 512))
          else m x))"
proof -
  note sv = assms(3)[unfolded single_volume_def]
  have p4: "p < 4" using sv by blast
  let ?s1 = "(boot_fs r0 w0 m d)\<lparr>readsector := rd, writesector := wr\<rparr>"
  have g0: "good 0" "good (lba_begin (partition_at D p))" using assms(4) by (simp_all add: mount_lbas_def)
  obtain d1 where r1: "read_sector ?s1 0 (replicate 512 0) = (D 0, ?s1\<lparr>dev := d1\<rparr>)"
    and d1: "invar d1" "view d1 = D"
    using read_static[of ?s1 0 "replicate 512 0"] g0(1) assms(1,2) by (auto simp: boot_fs_sel)
  let ?s3 = "?s1\<lparr>dev := d1, boot_sector := D 0\<rparr>"
  have "\<exists>d'. init_partitions [0..<4] 0 ?s3 = Inr (?s3\<lparr>chosen_partition := p,
        partitions_in_use := partitions_in_use ?s3 OR push_bit p 1,
        all_vol_ids := (all_vol_ids ?s3)[p := D (lba_begin (partition_at D p))],
        vol_data := (vol_data ?s3)[p := layout_at D p], dev := d'\<rparr>)
      \<and> invar d' \<and> view d' = D"
    by (rule init_partitions_single) (use d1 assms(3) g0(2) in \<open>simp_all add: boot_fs_sel\<close>)
  then obtain s4 where ip: "init_partitions [0..<4] 0 ?s3 = Inr s4"
    and s4: "readsector s4 = rd" "writesector s4 = wr" "chosen_partition s4 = p" "invar (dev s4)"
      "view (dev s4) = D" "cur_vol s4 = layout_at D p" "cur_vol_id s4 = volume_at D p" "mem s4 = m"
    using p4 by (auto simp: cur_vol_def cur_vol_id_def volume_at_def boot_fs_sel)
  let ?n = "table_sectors D p" and ?fb = "fat_begin_lba (layout_at D p)"
  define s5 where "s5 = load_fat ?n 0 ?fb s4"
  have n: "?n < 2 ^ 21" using sv by blast
  have gg: "good (?fb + of_nat q)" if "0 \<le> q" "q < 0 + ?n" for q
    using assms(4) that by (auto simp: mount_lbas_def)
  have b: "512 * (0 + ?n) \<le> 2 ^ 30" using n by simp
  note lf = load_fat_spec[OF s4(1,4) gg b, folded s5_def, unfolded s4(5,8)]
  note st = statics_eqD[of s5 s4]
  let ?size = "ucast (bytes_per_sector (volume_at D p)) * sectors_per_fat (volume_at D p) :: u32"
  have bps: "(ucast (bytes_per_sector (volume_at D p)) :: u32) = 512"
    using sv by (simp add: SD_SECTOR_SIZE_def word_unat_eq_iff unsigned_ucast_eq take_bit_nat_eq_self)
  have "unat ?size = 512 * ?n"
    using n by (simp add: bps table_sectors_def unat_word_ariths)
  moreover have "unat (drop_bit 2 ?size) = unat ?size div 4"
    by (simp add: drop_bit_eq_div unat_div)
  ultimately have "unat (drop_bit 2 ?size) = 128 * ?n" by simp
  then have fe: "unat (ucast (drop_bit 2 ?size) :: widx) = 128 * ?n"
    using n by (simp add: unsigned_ucast_eq take_bit_nat_eq_self)
  define s' where "s' = s5\<lparr>FAT_end := ucast (drop_bit 2 ?size), did_init := True\<rparr>"
  have "fat32_init (boot_fs r0 w0 m d) rd wr = Inr (0, s')"
    using r1 ip s4 n by (simp add: fat32_init_def MBR_SECTOR_def boot_fs_sel Let_def s'_def s5_def
        table_sectors_def)
  moreover have "statics s5 = statics s4" using lf by blast
  ultimately show ?thesis
    using st lf s4 fe by (intro exI[of _ s']) (simp add: s'_def cur_vol_def cur_vol_id_def)
qed

end

text \<open>
  C6: mounting a card with a single FAT32 partition succeeds, writes nothing, chooses that partition
  and derives its layout; and it says exactly what memory holds afterwards. Table sector \<open>i\<close> goes
  to the 128 words from word \<open>512 * i\<close> on, not from \<open>128 * i\<close>: the first sector is where the other
  routines look for it, the others are not, and every entry whose number is 128 to 511 modulo
  512 keeps what memory held before.
\<close>

theorem fat32_init_mounts:
  assumes "block_device rd wr view good invar" "invar d" "single_volume (view d) p"
    and "\<And>l. l \<in> mount_lbas (view d) p \<Longrightarrow> good l"
  shows "\<exists>s'. fat32_init (boot_fs r0 w0 m d) rd wr = Inr (0, s') \<and> did_init s'
    \<and> chosen_partition s' = p \<and> view (dev s') = view d \<and> cur_vol s' = layout_at (view d) p
    \<and> unat (FAT_end s') = 128 * table_sectors (view d) p
    \<and> (\<forall>x. mem s' x = (if unat x div 512 < table_sectors (view d) p \<and> unat x mod 512 < 128
          then u32_at (view d (fat_begin_lba (layout_at (view d) p) + of_nat (unat x div 512)))
                 (4 * (unat x mod 512))
          else m x))"
  using block_device.fat32_init_spec[OF assms(1,2) refl assms(3,4), of r0 w0 m] by auto

text \<open>
  A card with one partition at sector 30: 10 reserved sectors, one table of 3 sectors at 40,
  clusters of two sectors from 43 on, root directory at cluster 2. Cluster 200's entry is in use.
\<close>

definition demo_mbr :: bytes where
  "demo_mbr = ((replicate 512 0)[454 := 30])[458 := 1]"

definition demo_vid :: bytes where
  "demo_vid = ((((((replicate 512 0)[12 := 2])[13 := 2])[14 := 10])[16 := 1])[36 := 3])[44 := 2]"

definition demo_card :: "u32 \<Rightarrow> bytes" where
  "demo_card l = (if l = 0 then demo_mbr else if l = 30 then demo_vid
     else if l = 41 then (replicate 512 0)[288 := 0xff]
     else replicate 512 0)"

lemma demo_card_volume:
  "single_volume demo_card 0" "table_sectors demo_card 0 = 3"
  "layout_at demo_card 0 = \<lparr>fat_begin_lba = 40, cluster_begin_lba = 43, vd_sectors_per_cluster = 2,
     vd_root_dir_first_cluster = 2\<rparr>"
  "volume_at demo_card 0 = \<lparr>bytes_per_sector = 512, sectors_per_cluster = 2, num_reserved_sectors = 10,
     num_fats = 1, sectors_per_fat = 3, root_dir_first_cluster = 2, magic1 = 0, magic2 = 0\<rparr>"
proof -
  have u: "[0..<4] = [0, 1, 2, 3::nat]" by (simp add: upt_rec)
  have p0: "lba_begin (partition_at demo_card 0) = 30"
    by (simp add: partition_at_def demo_card_def decode_mbr_def u decode_partition_def u32_at_def
        demo_mbr_def le32_def)
  show v: "volume_at demo_card 0 = \<lparr>bytes_per_sector = 512, sectors_per_cluster = 2,
     num_reserved_sectors = 10, num_fats = 1, sectors_per_fat = 3, root_dir_first_cluster = 2,
     magic1 = 0, magic2 = 0\<rparr>"
    by (simp add: volume_at_def p0 demo_card_def decode_volume_id_def demo_vid_def u16_at_def
        u32_at_def le16_def le32_def)
  show ts: "table_sectors demo_card 0 = 3" by (simp add: table_sectors_def v)
  show "layout_at demo_card 0 = \<lparr>fat_begin_lba = 40, cluster_begin_lba = 43,
     vd_sectors_per_cluster = 2, vd_root_dir_first_cluster = 2\<rparr>"
    by (simp add: layout_at_def layout_of_def p0 v)
  have "num_sectors (partition_at demo_card j) \<noteq> 0 \<longleftrightarrow> j = 0" if "j < 4" for j
  proof -
    have "j = 0 \<or> j = 1 \<or> j = 2 \<or> j = 3" using that by linarith
    then show ?thesis
      by (elim disjE) (simp_all add: partition_at_def demo_card_def decode_mbr_def u decode_partition_def
          u32_at_def demo_mbr_def le32_def)
  qed
  then show "single_volume demo_card 0"
    by (simp add: single_volume_def ts v SD_SECTOR_SIZE_def)
qed

lemma demo_card_invar: "ram_invar demo_card"
  by (simp add: ram_invar_def demo_card_def demo_mbr_def demo_vid_def)

theorem fat32_init_mounts_witness:
  "\<exists>s'. fat32_init (boot_fs ram_read ram_write (\<lambda>_. 0) demo_card) ram_read ram_write = Inr (0, s')
    \<and> did_init s' \<and> chosen_partition s' = 0 \<and> dev s' = demo_card \<and> cur_vol s' = layout_at demo_card 0
    \<and> unat (FAT_end s') = 128 * table_sectors demo_card 0
    \<and> (\<forall>x. mem s' x = (if unat x div 512 < table_sectors demo_card 0 \<and> unat x mod 512 < 128
          then u32_at (demo_card (fat_begin_lba (layout_at demo_card 0) + of_nat (unat x div 512)))
                 (4 * (unat x mod 512))
          else 0))"
  using fat32_init_mounts [of ram_read ram_write "\<lambda>d. d" "\<lambda>_. True" ram_invar demo_card 0]
    ram.block_device_axioms demo_card_invar demo_card_volume(1) by blast


text \<open>On the example card the entry of cluster 200 says \<open>in use\<close>.\<close>

lemma demo_card_200: "u32_at (demo_card 41) (4 * (200 - 128)) = 0xff"
  by (simp add: demo_card_def u32_at_def le32_def)


text \<open>
  The layout a mounted volume needs for the other routines: root directory at cluster 2, the table
  before the data area, the data area inside the 32-bit sector numbers and inside the card.
\<close>

definition layout_ok :: "(u32 \<Rightarrow> bytes) \<Rightarrow> nat \<Rightarrow> bool" where
  "layout_ok D p \<longleftrightarrow>
     (let vd = layout_at D p; n = table_sectors D p; spc = unat (vd_sectors_per_cluster vd)
      in vd_root_dir_first_cluster vd = FAT32_ROOT_CLUSTER_NO \<and> 0 < spc \<and> 0 < n
         \<and> unat (fat_begin_lba vd) + n \<le> unat (cluster_begin_lba vd)
         \<and> unat (cluster_begin_lba vd) + (128 * n - 2) * spc < 2 ^ 32)"

definition data_lbas :: "(u32 \<Rightarrow> bytes) \<Rightarrow> nat \<Rightarrow> u32 set" where
  "data_lbas D p =
     (let vd = layout_at D p; n = table_sectors D p; spc = unat (vd_sectors_per_cluster vd)
      in {lba. unat (fat_begin_lba vd) \<le> unat lba
             \<and> unat lba < unat (cluster_begin_lba vd) + (128 * n - 2) * spc})"

lemma init_attached:
  assumes "block_device rd wr view good invar" "invar d" "single_volume (view d) p"
    and "layout_ok (view d) p"
    and "\<And>l. l \<in> mount_lbas (view d) p \<union> data_lbas (view d) p \<Longrightarrow> good l"
  shows "\<exists>s'. fat32_init (boot_fs r0 w0 m d) rd wr = Inr (0, s')
    \<and> attached rd wr invar good s' \<and> mirrored view s' 0
    \<and> view (dev s') = view d \<and> cur_vol s' = layout_at (view d) p
    \<and> unat (FAT_end s') = 128 * table_sectors (view d) p"
proof -
  let ?D = "view d"
  have good: "good l" if "l \<in> mount_lbas ?D p" for l using assms(5) that by blast
  obtain s' where s': "fat32_init (boot_fs r0 w0 m d) rd wr = Inr (0, s')" "readsector s' = rd"
    "writesector s' = wr" "did_init s'" "invar (dev s')" "view (dev s') = ?D"
    "cur_vol s' = layout_at ?D p" "cur_vol_id s' = volume_at ?D p"
    "unat (FAT_end s') = 128 * table_sectors ?D p"
    "\<forall>x. mem s' x = (if unat x div 512 < table_sectors ?D p \<and> unat x mod 512 < 128
          then u32_at (?D (fat_begin_lba (layout_at ?D p) + of_nat (unat x div 512))) (4 * (unat x mod 512))
          else m x)"
    using block_device.fat32_init_spec[OF assms(1,2) refl assms(3) good, of r0 w0 m] by blast
  have lo: "vd_root_dir_first_cluster (layout_at ?D p) = FAT32_ROOT_CLUSTER_NO"
    "0 < unat (vd_sectors_per_cluster (layout_at ?D p))" "0 < table_sectors ?D p"
    "unat (fat_begin_lba (layout_at ?D p)) + table_sectors ?D p \<le> unat (cluster_begin_lba (layout_at ?D p))"
    "unat (cluster_begin_lba (layout_at ?D p))
       + (128 * table_sectors ?D p - 2) * unat (vd_sectors_per_cluster (layout_at ?D p)) < 2 ^ 32"
    using assms(4) by (simp_all add: layout_ok_def Let_def)
  have n: "table_sectors ?D p < 2 ^ 21" using assms(3) by (simp add: single_volume_def)
  have fs: "fat_sectors s' = table_sectors ?D p" by (simp add: fat_sectors_def s'(9))
  have sp: "sectors_per_cluster (volume_at ?D p) = vd_sectors_per_cluster (layout_at ?D p)"
    by (simp add: layout_at_def layout_of_def Let_def)
  have geo: "geometry_ok s'"
    using s'(4,7,8,9) lo n sp by (simp add: geometry_ok_def table_ok_def spc_def fs)
  have v: "volume_lbas s' = data_lbas ?D p"
    using s'(7,9) by (simp add: volume_lbas_def data_lbas_def Let_def spc_def)
  have at: "attached rd wr invar good s'"
    using geo s'(2,3,5) v assms(5) by (auto simp: attached_def)
  have "fat_begin_lba (layout_at ?D p) \<in> mount_lbas ?D p"
    using lo(3) by (force simp: mount_lbas_def)
  then have g: "good (fat_begin_lba (layout_at ?D p))" by (rule good)
  have len: "length (?D (fat_begin_lba (layout_at ?D p))) = 512"
    using block_device.view_length[OF assms(1,2) g] .
  have "mem s' (of_nat j) = u32_at (?D (fat_begin_lba (layout_at ?D p))) (4 * j)" if "j < 128" for j
  proof -
    have "unat (of_nat j :: widx) = j" using that by (intro unat_of_nat_small) simp
    then show ?thesis using s'(10) that lo(3) by simp
  qed
  then have "map (\<lambda>j. mem s' (0 + of_nat j)) [0..<128] = words_of_bytes (?D (fat_begin_lba (layout_at ?D p)))"
    by (intro nth_equalityI) (simp_all add: len)
  then have "mirrored view s' 0"
    using bytes_words_roundtrip[of "?D (fat_begin_lba (layout_at ?D p))" 128] len
    by (simp add: mirrored_def mem_bytes_def s'(6,7))
  then show ?thesis using s'(1,6,7,9) at by (intro exI[of _ s'] conjI)
qed

text \<open>
  C22: mounting a card with the usual layout puts the filesystem in the state all properties of the
  allocation, insertion and lookup routines start from, with the first table sector in memory as
  it is on the card.
\<close>

theorem fat32_init_attached:
  assumes "block_device rd wr view good invar" "invar d" "single_volume (view d) p"
    and "layout_ok (view d) p"
    and "\<And>l. l \<in> mount_lbas (view d) p \<union> data_lbas (view d) p \<Longrightarrow> good l"
  shows "\<exists>s'. fat32_init (boot_fs r0 w0 m d) rd wr = Inr (0, s')
    \<and> attached rd wr invar good s' \<and> mirrored view s' 0"
  using init_attached[OF assms] by blast

theorem fat32_init_attached_witness:
  "\<exists>s'. fat32_init (boot_fs ram_read ram_write (\<lambda>_. 0) demo_card) ram_read ram_write = Inr (0, s')
    \<and> attached ram_read ram_write ram_invar (\<lambda>_. True) s' \<and> mirrored (\<lambda>d. d) s' 0"
  by (rule fat32_init_attached [where p = 0])
     (simp_all add: ram.block_device_axioms demo_card_invar demo_card_volume layout_ok_def
       FAT32_ROOT_CLUSTER_NO_def)

section \<open>Refusals\<close>

lemma init_partitions_second:
  "\<exists>i \<in> set is. num_sectors (partitions (decode_mbr (boot_sector s)) ! i) \<noteq> 0 \<Longrightarrow>
   init_partitions is 1 s =
     Inl (Panic (''Found more than 1 valid partitions on this pi, don't know which to choose.'' @ nl))"
  by (induction "is") (auto simp: Let_def)

text \<open>
  Mounting refuses a card it cannot use. If the first partition in use does not have 512-byte
  sectors, or if there is a second partition in use, \<open>fat32_init\<close> panics with the message for
  that case, before it reads any of the table.
\<close>

theorem fat32_init_refuses:
  assumes "block_device rd wr view good invar" "invar d" "p < 4"
    and "num_sectors (partition_at (view d) p) \<noteq> 0"
    and "\<And>j. j < p \<Longrightarrow> num_sectors (partition_at (view d) j) = 0"
    and "good 0" "good (lba_begin (partition_at (view d) p))"
    and "unat (bytes_per_sector (volume_at (view d) p)) \<noteq> 512
      \<or> (\<exists>q. p < q \<and> q < 4 \<and> num_sectors (partition_at (view d) q) \<noteq> 0)"
  shows "fat32_init (boot_fs r0 w0 m d) rd wr =
      (if unat (bytes_per_sector (volume_at (view d) p)) \<noteq> 512
       then Inl (Panic (''Partition uses different sector size than sd driver.'' @ nl))
       else Inl (Panic (''Found more than 1 valid partitions on this pi, don't know which to choose.'' @ nl)))"
proof -
  let ?D = "view d" and ?l = "lba_begin (partition_at (view d) p)"
  let ?s1 = "(boot_fs r0 w0 m d)\<lparr>readsector := rd, writesector := wr\<rparr>"
  obtain d1 where r1: "read_sector ?s1 0 (replicate 512 0) = (?D 0, ?s1\<lparr>dev := d1\<rparr>)"
    and d1: "invar d1" "view d1 = ?D"
    using block_device.read_static[OF assms(1), of ?s1 0 "replicate 512 0"] assms(2,6)
    by (auto simp: boot_fs_sel)
  let ?s3 = "?s1\<lparr>dev := d1, boot_sector := ?D 0\<rparr>"
  let ?s4 = "?s3\<lparr>chosen_partition := p, partitions_in_use := partitions_in_use ?s3 OR push_bit p 1\<rparr>"
  obtain d2 where r2: "read_sector ?s4 ?l (replicate 512 0) = (?D ?l, ?s4\<lparr>dev := d2\<rparr>)"
    using block_device.read_static[OF assms(1), of ?s4 ?l "replicate 512 0"] d1 assms(7)
    by (auto simp: boot_fs_sel)
  have part: "partitions (decode_mbr (?D 0)) ! i = partition_at ?D i" for i
    by (simp add: partition_at_def)
  have "init_partitions [0..<4] 0 ?s3 = init_partitions (p # [Suc p..<4]) 0 ?s3"
    unfolding upt_split[OF assms(3)] using assms(5) by (intro init_partitions_skip) (simp add: part)
  also have "\<dots> = (case init_volume (?s3\<lparr>chosen_partition := p\<rparr>) p (partition_at ?D p) of
      Inl f \<Rightarrow> Inl f | Inr s1 \<Rightarrow> init_partitions [Suc p..<4] 1 s1)"
    using assms(4) by (simp add: part Let_def cong: sum.case_cong)
  finally have ip: "init_partitions [0..<4] 0 ?s3 = \<dots>" .
  let ?s5 = "?s4\<lparr>dev := d2, all_vol_ids := (all_vol_ids ?s3)[p := ?D ?l],
      vol_data := (vol_data ?s3)[p := layout_at ?D p]\<rparr>"
  have iv: "init_volume (?s3\<lparr>chosen_partition := p\<rparr>) p (partition_at ?D p) =
      (if unat (bytes_per_sector (volume_at ?D p)) \<noteq> 512
       then Inl (Panic (''Partition uses different sector size than sd driver.'' @ nl)) else Inr ?s5)"
    using r2 assms(3) by (simp add: init_volume_def boot_fs_sel volume_at_def layout_at_def SD_SECTOR_SIZE_def)
  have "init_partitions [Suc p..<4] 1 ?s5 =
      Inl (Panic (''Found more than 1 valid partitions on this pi, don't know which to choose.'' @ nl))"
    if "p < q" "q < 4" "num_sectors (partition_at ?D q) \<noteq> 0" for q
    using that by (intro init_partitions_second) (auto simp: part intro!: bexI[of _ q])
  then show ?thesis
    using r1 ip iv assms(8) by (auto simp: fat32_init_def MBR_SECTOR_def boot_fs_sel Let_def)
qed

theorem fat32_init_refuses_witness:
  "let D = demo_card(0 := demo_mbr[474 := 1]) in
    fat32_init (boot_fs ram_read ram_write (\<lambda>_. 0) D) ram_read ram_write =
      (if unat (bytes_per_sector (volume_at D 0)) \<noteq> 512
       then Inl (Panic (''Partition uses different sector size than sd driver.'' @ nl))
       else Inl (Panic (''Found more than 1 valid partitions on this pi, don't know which to choose.'' @ nl)))"
proof -
  let ?D = "demo_card(0 := demo_mbr[474 := 1])"
  have u: "[0..<4] = [0, 1, 2, 3::nat]" by (simp add: upt_rec)
  have "num_sectors (partition_at ?D 0) \<noteq> 0" "num_sectors (partition_at ?D 1) \<noteq> 0"
    by (simp_all add: partition_at_def decode_mbr_def u decode_partition_def u32_at_def demo_mbr_def
        le32_def)
  moreover have "ram_invar ?D"
    using demo_card_invar by (simp add: ram_invar_def demo_mbr_def)
  ultimately show ?thesis
    unfolding Let_def
    by (intro fat32_init_refuses [where view = "\<lambda>d. d" and good = "\<lambda>_. True" and invar = ram_invar])
       (auto simp: ram.block_device_axioms intro!: exI[of _ 1])
qed

end
