(* ===== verification/Dfs.thy ===== *)
theory Dfs
  imports Fat32_Init
begin

text \<open>
  The configuration file of the distributed file store: finding or creating it
  (\<open>src/pi-src/fat32-dfs.c\<close>) and looking up or recording this machine's id in its first
  sector (\<open>id_for_dfs\<close> of \<open>src/pi-src/main.c\<close>). The sector is 16 entries of a 30-byte name and
  a 16-bit id; the two driver calls \<open>id_for_dfs\<close> makes are the arguments \<open>rd\<close> and \<open>wr\<close>.
\<close>

section \<open>The configuration file\<close>

definition FAT32_DFS_CFG_FILENAME :: bytes where
  "FAT32_DFS_CFG_FILENAME = ascii ''FS32-DFSCFG'' @ [0]"

definition MAX_DFS_NAME_LEN :: nat where "MAX_DFS_NAME_LEN = 30"

text \<open>The two buffers are the uninitialised locals of the two routines called.\<close>

definition dfs_init_config :: "'d fs \<Rightarrow> bytes \<Rightarrow> bytes \<Rightarrow> (u32 \<times> 'd fs) res option" where
  "dfs_init_config s records1 records2 =
     (case fat32_get_cluster_no s FAT32_DFS_CFG_FILENAME records1 of
        None \<Rightarrow> None
      | Some (Inl f) \<Rightarrow> Some (Inl f)
      | Some (Inr (config_cluster_no, s1)) \<Rightarrow>
          if config_cluster_no = - 1
          then fat32_alloc_local_file s1 2 FAT32_DFS_CFG_FILENAME records2
          else Some (Inr (config_cluster_no, s1)))"

section \<open>The id of this machine\<close>

definition num_entries :: nat where "num_entries = 16"

definition dfs_id :: "bytes \<Rightarrow> nat \<Rightarrow> bytes" where
  "dfs_id sec i = chunk (32 * i) 30 sec"

definition entry_id :: "bytes \<Rightarrow> nat \<Rightarrow> u16" where
  "entry_id sec i = u16_at sec (32 * i + 30)"

definition set_entry :: "bytes \<Rightarrow> nat \<Rightarrow> bytes \<Rightarrow> u16 \<Rightarrow> bytes" where
  "set_entry sec i name v = splice (32 * i + 30) (bytes16 v) (splice (32 * i) name sec)"

text \<open>\<open>Some id\<close> is the \<open>return\<close> inside the loop, \<open>None\<close> a \<open>break\<close> or the end of the loop.\<close>

fun config_scan :: "nat list \<Rightarrow> bytes \<Rightarrow> int \<Rightarrow> bytes \<Rightarrow> (int option \<times> bytes) res" where
  "config_scan [] dfs_name id_if_unassigned sec = Inr (None, sec)"
| "config_scan (i # is) dfs_name id_if_unassigned sec =
     (if dfs_id sec i ! 0 = 0 then
        (if id_if_unassigned = - 1 then Inl Halted
         else case strncpy (dfs_id sec i) dfs_name (of_nat MAX_DFS_NAME_LEN) of
             None \<Rightarrow> Inl Undef
           | Some name \<Rightarrow> Inr (None, set_entry sec i name (of_int id_if_unassigned)))
      else case strncmp (dfs_id sec i) dfs_name (of_nat MAX_DFS_NAME_LEN) of
          None \<Rightarrow> Inl Undef
        | Some r \<Rightarrow> if r = 0 then Inr (Some (uint (entry_id sec i)), sec)
                   else config_scan is dfs_name id_if_unassigned sec)"

definition id_for_dfs ::
  "'d read_fn \<Rightarrow> 'd write_fn \<Rightarrow> 'd fs \<Rightarrow> u32 \<Rightarrow> bytes \<Rightarrow> int \<Rightarrow> bytes \<Rightarrow> (int \<times> 'd fs) res" where
  "id_for_dfs rd wr s cfg_cluster_no dfs_name id_if_unassigned buf =
     (let (r, sec, d) = rd (dev s) (cluster_no_to_lba s cfg_cluster_no) buf 1;
          s1 = s\<lparr>dev := d\<rparr>
      in case config_scan [0..<num_entries] dfs_name id_if_unassigned sec of
           Inl f \<Rightarrow> Inl f
         | Inr (Some i, sec') \<Rightarrow> Inr (i, s1)
         | Inr (None, sec') \<Rightarrow>
             Inr (- 1, s1\<lparr>dev := snd (wr (dev s1) sec' (cluster_no_to_lba s1 cfg_cluster_no) 1)\<rparr>))"

section \<open>The file is found again\<close>

lemma blank_entry: "n < 16 \<Longrightarrow> dfs_id blank_sector n ! 0 = 0"
  by (simp add: dfs_id_def blank_sector_def chunk_def)

lemma config_name: "length FAT32_DFS_CFG_FILENAME = 12" "FAT32_DFS_CFG_FILENAME ! 0 = 0x46"
  by (simp_all add: FAT32_DFS_CFG_FILENAME_def ascii_def)

lemma slot_find_none:
  assumes "dir_slot view s pre c k i"
    and "\<And>dr. dr \<in> set (records_before view s pre c k i) \<Longrightarrow> \<not> name_matches fn dr"
  shows "find_record fn (dir_records view s (pre @ [c])) = Some (- 1)"
proof -
  note slot = assms(1)[unfolded dir_slot_def]
  have ki: "k < spc s" "i < 16" using slot by blast+
  obtain rest where "dir_records view s (pre @ [c]) =
      records_before view s pre c k i @ rec_at (dir_sector view s c k) i # rest"
    using records_split[OF ki, of view pre c] by blast
  moreover have "find_record fn (records_before view s pre c k i) = None"
    using slot assms(2) by (simp add: find_record_None)
  ultimately show ?thesis using slot by (simp add: find_record_append)
qed

lemma slot_lookup:
  assumes "block_device rd wr view good invar" "attached rd wr invar good s"
    and "dir_slot view s pre c k i" "find_record fn (dir_records view s (pre @ [c])) = Some r"
    and "11 \<le> length fn" "length buf = 512"
  shows "\<exists>s'. fat32_get_cluster_no s fn buf = Some (Inr (r, s')) \<and> same_store view s s'
    \<and> attached rd wr invar good s'"
proof -
  note slot = assms(3)[unfolded dir_slot_def]
  obtain cs where pc: "pre @ [c] = FAT32_ROOT_CLUSTER_NO # cs" using slot by (cases "pre @ [c]") auto
  have di: "did_init s" using attached_table[OF assms(2)] by (simp add: table_ok_def)
  show ?thesis
    using block_device.lookup_dir_walk[OF assms(1,2), of FAT32_ROOT_CLUSTER_NO cs buf fn]
      slot assms(4-6) di unfolding pc fat32_get_cluster_no_def by auto
qed

lemma dir_slot_same_store:
  assumes "same_store view s s'"
  shows "dir_slot view s' pre c k i = dir_slot view s pre c k i"
    "records_before view s' pre c k i = records_before view s pre c k i"
  using same_storeD[OF assms] geometry_statics(3)[OF same_storeD(1)[OF assms]]
  by (simp_all add: dir_slot_def records_before_def)

lemma file_inserted_same_store:
  assumes "same_store view s t"
  shows "file_inserted view t pre c k i name a s' = file_inserted view s pre c k i name a s'"
  using same_storeD[OF assms] geometry_statics(3)[OF same_storeD(1)[OF assms]]
    dir_slot_same_store(2)[OF assms]
  by (simp add: file_inserted_def)

lemma config_find:
  assumes "dir_slot view s pre c k i"
    and "\<And>dr. dr \<in> set (records_before view s pre c k i) \<Longrightarrow> \<not> name_matches FAT32_DFS_CFG_FILENAME dr"
  shows "find_record FAT32_DFS_CFG_FILENAME (records_before view s pre c k i
      @ [file_record (rec_at (dir_sector view s c k) i) FAT32_DFS_CFG_FILENAME a]) = Some a"
  using assms config_name by (intro find_record_file) (auto simp: dir_slot_def)

text \<open>The file is created when it is missing.\<close>

lemma config_created:
  assumes "block_device rd wr view good invar" "attached rd wr invar good s"
    and "dir_slot view s pre c k i" "2 \<le> card (free_clusters s)"
    and "\<And>dr. dr \<in> set (records_before view s pre c k i) \<Longrightarrow> \<not> name_matches FAT32_DFS_CFG_FILENAME dr"
    and "length b1 = 512" "length b2 = 512"
  obtains a s' where "dfs_init_config s b1 b2 = Some (Inr (a, s'))" "attached rd wr invar good s'"
    "file_inserted view s pre c k i FAT32_DFS_CFG_FILENAME a s'" "file_fresh view s c 2 a s'"
    "a \<in> free_clusters s" "a \<noteq> - 1"
proof -
  let ?fn = FAT32_DFS_CFG_FILENAME
  have n11: "11 \<le> length ?fn" using config_name by simp
  obtain s1 where s1: "fat32_get_cluster_no s ?fn b1 = Some (Inr (- 1, s1))" "same_store view s s1"
    "attached rd wr invar good s1"
    using slot_lookup[OF assms(1-3) slot_find_none[OF assms(3,5)] _ assms(6)] config_name by auto
  have slot1: "dir_slot view s1 pre c k i" using assms(3) dir_slot_same_store(1)[OF s1(2)] by simp
  have two: "0 <s (2 :: u32)" "nat (sint (2 :: u32)) \<le> card (free_clusters s1)"
    using assms(4) same_storeD(7)[OF s1(2)] by (simp_all add: word_sless_alt)
  obtain a s' where r: "fat32_alloc_local_file s1 2 ?fn b2 = Some (Inr (a, s'))"
    "attached rd wr invar good s'" "file_inserted view s1 pre c k i ?fn a s'" "file_fresh view s1 c 2 a s'"
    using alloc_file_inserted[OF assms(1) s1(3) slot1 assms(7) two n11] by auto
  have ins: "file_inserted view s pre c k i ?fn a s'" "file_fresh view s c 2 a s'"
    using r(3,4) file_inserted_same_store[OF s1(2)] file_fresh_same_store[OF s1(2)] by simp_all
  have a: "a \<in> free_clusters s" using ins(1) by (simp add: file_inserted_def)
  have "a \<noteq> - 1" using in_tableD(5)[OF attached_table[OF assms(2)] free_in_table[OF a]] .
  moreover have "dfs_init_config s b1 b2 = Some (Inr (a, s'))"
    using s1(1) r(1) by (simp add: dfs_init_config_def)
  ultimately show thesis by (intro that[of a s'] r(2) ins a)
qed

text \<open>
  C21: preparing the configuration file is stable. On a volume whose directory has no file of
  that name and room for one, \<open>dfs_init_config\<close> creates the file and returns its first cluster, whose
  first sector then has sixteen free entries; run again it finds that cluster and leaves the card and
  the table as they are.
\<close>

theorem dfs_init_config_stable:
  assumes "block_device rd wr view good invar" "attached rd wr invar good s"
    and "dir_slot view s pre c k i" "2 \<le> card (free_clusters s)"
    and "\<And>dr. dr \<in> set (records_before view s pre c k i) \<Longrightarrow> \<not> name_matches FAT32_DFS_CFG_FILENAME dr"
    and "length b1 = 512" "length b2 = 512" "length b3 = 512" "length b4 = 512"
  shows "\<exists>a s'. dfs_init_config s b1 b2 = Some (Inr (a, s')) \<and> a \<in> free_clusters s
    \<and> attached rd wr invar good s' \<and> (\<forall>n < 16. dfs_id (dir_sector view s' a 0) n ! 0 = 0)
    \<and> (\<exists>s''. dfs_init_config s' b3 b4 = Some (Inr (a, s'')) \<and> same_store view s' s'')"
proof -
  let ?fn = FAT32_DFS_CFG_FILENAME
  obtain a s' where r: "dfs_init_config s b1 b2 = Some (Inr (a, s'))" "attached rd wr invar good s'"
    "file_inserted view s pre c k i ?fn a s'" "file_fresh view s c 2 a s'" "a \<in> free_clusters s" "a \<noteq> - 1"
    using config_created[OF assms(1-7)] by metis
  obtain s'' where s'': "fat32_get_cluster_no s' ?fn b3 = Some (Inr (a, s''))" "same_store view s' s''"
    using lookup_inserted[OF assms(1) r(2) assms(3) r(3) config_find[OF assms(3,5)] _ assms(8)] config_name
    by auto
  have "dfs_id (dir_sector view s' a 0) n ! 0 = 0" if "n < 16" for n
    using r(4) blank_entry[OF that] by (simp add: file_fresh_def Let_def)
  then show ?thesis
    using r(1,2,5,6) s'' by (simp add: dfs_init_config_def)
qed

theorem dfs_init_config_stable_witness:
  "\<exists>a s'. dfs_init_config demo0 (replicate 512 0) (replicate 512 1) = Some (Inr (a, s'))
    \<and> a \<in> free_clusters demo0 \<and> attached ram_read ram_write ram_invar (\<lambda>_. True) s'
    \<and> (\<forall>n < 16. dfs_id (dir_sector (\<lambda>d. d) s' a 0) n ! 0 = 0)
    \<and> (\<exists>s''. dfs_init_config s' (replicate 512 2) (replicate 512 3) = Some (Inr (a, s''))
          \<and> same_store (\<lambda>d. d) s' s'')"
  by (rule dfs_init_config_stable [OF ram.block_device_axioms demo0_attached demo0_slot demo0_free_card])
     (simp_all add: demo0_records_before)

section \<open>Entries of the configuration sector\<close>

lemma dfs_id_set_entry:
  assumes "length sec = 512" "i < 16" "j < 16" "length name = 30"
  shows "dfs_id (set_entry sec i name v) j = (if i = j then name else dfs_id sec j)"
    and "entry_id (set_entry sec i name v) j = (if i = j then v else entry_id sec j)"
    and "length (set_entry sec i name v) = 512"
proof -
  let ?t = "splice (32 * i) name sec"
  have t: "length ?t = 512" using assms by simp
  show "length (set_entry sec i name v) = 512" using t assms(2) by (simp add: set_entry_def)
  have e16: "u16_at bs (32 * j + 30) = le16 (chunk (32 * j + 30) 2 bs ! 0) (chunk (32 * j + 30) 2 bs ! 1)"
    if "length bs = 512" for bs
    using that assms(3) by (simp add: u16_at_def)
  show "dfs_id (set_entry sec i name v) j = (if i = j then name else dfs_id sec j)"
  proof (cases "i = j")
    case True
    then show ?thesis using assms t by (simp add: dfs_id_def set_entry_def chunk_splice_other)
  next
    case False
    then have "32 * j + 32 \<le> 32 * i \<or> 32 * i + 32 \<le> 32 * j" by linarith
    then show ?thesis
      using False assms t by (auto simp: dfs_id_def set_entry_def chunk_splice_other)
  qed
  show "entry_id (set_entry sec i name v) j = (if i = j then v else entry_id sec j)"
  proof (cases "i = j")
    case True
    then have "chunk (32 * j + 30) 2 (set_entry sec i name v) = bytes16 v"
      using assms t by (simp add: set_entry_def)
    then show ?thesis
      using True e16[of "set_entry sec i name v"] \<open>length (set_entry sec i name v) = 512\<close>
      by (simp add: entry_id_def bytes16_def le16_bytes_Suc)
  next
    case False
    then have "32 * j + 32 \<le> 32 * i \<or> 32 * i + 32 \<le> 32 * j" by linarith
    then have "chunk (32 * j + 30) 2 (set_entry sec i name v) = chunk (32 * j + 30) 2 sec"
      using False assms t by (auto simp: set_entry_def chunk_splice_other)
    then show ?thesis
      using False e16[of "set_entry sec i name v"] e16[of sec] assms(1)
        \<open>length (set_entry sec i name v) = 512\<close> by (simp add: entry_id_def)
  qed
qed

text \<open>Entry \<open>i\<close> is in use and is not taken for \<open>name\<close>.\<close>

definition other_entry :: "bytes \<Rightarrow> bytes \<Rightarrow> nat \<Rightarrow> bool" where
  "other_entry sec name i \<longleftrightarrow> dfs_id sec i ! 0 \<noteq> 0 \<and> \<not> same_prefix (dfs_id sec i) (take 30 name)"

lemma strncmp_entry:
  assumes "length sec = 512" "i < 16" "30 \<le> length name"
  shows "strncmp (dfs_id sec i) name (of_nat MAX_DFS_NAME_LEN) =
    Some (if same_prefix (dfs_id sec i) (take 30 name) then 0 else - 1)"
  using strncmp_same_prefix[of 30 "dfs_id sec i" name] assms
  by (simp add: MAX_DFS_NAME_LEN_def dfs_id_def)

lemma config_scan_skip:
  assumes "length sec = 512" "30 \<le> length name" "\<And>i. i \<in> set is \<Longrightarrow> i < 16 \<and> other_entry sec name i"
  shows "config_scan (is @ js) name v sec = config_scan js name v sec"
  using assms(3)
proof (induction "is")
  case Nil
  then show ?case by simp
next
  case (Cons i "is")
  have i: "i < 16" "dfs_id sec i ! 0 \<noteq> 0" "\<not> same_prefix (dfs_id sec i) (take 30 name)"
    using Cons.prems[of i] by (simp_all add: other_entry_def)
  have "config_scan ((i # is) @ js) name v sec = config_scan (is @ js) name v sec"
    using i strncmp_entry[OF assms(1) i(1) assms(2)] by simp
  then show ?case using Cons.IH Cons.prems by simp
qed

lemma config_scan_known:
  assumes "length sec = 512" "30 \<le> length name" "n < 16" "\<And>i. i < n \<Longrightarrow> other_entry sec name i"
    and "dfs_id sec n ! 0 \<noteq> 0" "same_prefix (dfs_id sec n) (take 30 name)"
  shows "config_scan [0..<num_entries] name v sec = Inr (Some (uint (entry_id sec n)), sec)"
proof -
  have "config_scan [0..<num_entries] name v sec = config_scan (n # [Suc n..<16]) name v sec"
    unfolding num_entries_def upt_split[OF assms(3)]
    by (rule config_scan_skip[OF assms(1,2)]) (use assms(3,4) in auto)
  then show ?thesis using assms(5,6) strncmp_entry[OF assms(1,3,2)] by simp
qed

lemma take_str_of_prefix: "str_of (take n bs) = take n (str_of bs)"
  by (induction bs arbitrary: n) (auto simp: str_of_def take_Cons split: nat.split)

lemma strncpy_entry:
  assumes "length dst = 30" "30 \<le> length name"
  shows "\<exists>out. strncpy dst name (of_nat MAX_DFS_NAME_LEN) = Some out \<and> length out = 30
    \<and> out = take 29 (str_of name) @ 0 # drop (Suc (length (take 29 (str_of name)))) dst
    \<and> str_of out = take 29 (str_of name)"
proof -
  have u: "unat (of_nat MAX_DFS_NAME_LEN :: u32) = 30" by (simp add: MAX_DFS_NAME_LEN_def)
  have r: "strncpy dst name (of_nat MAX_DFS_NAME_LEN) = Some (strncpy_result dst name 30)"
    using strncpy_result_eq[of "of_nat MAX_DFS_NAME_LEN" dst name] assms u
    by (simp add: MAX_DFS_NAME_LEN_def)
  have "str_of (take 29 (str_of name) @ 0 # drop (Suc (length (take 29 (str_of name)))) dst) =
      take 29 (str_of name)"
    by (rule str_of_terminated) (auto dest: in_set_takeD str_of_no_term)
  then show ?thesis using r assms by (simp add: strncpy_result_def Let_def)
qed

context block_device
begin

lemma id_for_dfs_read:
  assumes "invar (dev s)" "lba = cluster_no_to_lba s cfg" "good lba" "length buf = 512"
    and "sec = view (dev s) lba"
  shows "\<exists>d. invar d \<and> view d = view (dev s) \<and> length sec = 512 \<and>
    id_for_dfs rd wr s cfg name v buf =
      (case config_scan [0..<num_entries] name v sec of
         Inl f \<Rightarrow> Inl f
       | Inr (Some i, sec') \<Rightarrow> Inr (i, s\<lparr>dev := d\<rparr>)
       | Inr (None, sec') \<Rightarrow> Inr (- 1, s\<lparr>dev := snd (wr d sec' lba 1)\<rparr>))"
proof -
  let ?r = "rd (dev s) lba buf 1"
  have st: "cluster_no_to_lba (s\<lparr>dev := d\<rparr>) cfg = cluster_no_to_lba s cfg" for d
    by (simp add: cluster_no_to_lba_def cur_vol_def)
  have "id_for_dfs rd wr s cfg name v buf =
      (case config_scan [0..<num_entries] name v (fst (snd ?r)) of
         Inl f \<Rightarrow> Inl f
       | Inr (Some i, sec') \<Rightarrow> Inr (i, s\<lparr>dev := snd (snd ?r)\<rparr>)
       | Inr (None, sec') \<Rightarrow> Inr (- 1, s\<lparr>dev := snd (wr (snd (snd ?r)) sec' lba 1)\<rparr>))"
    by (simp add: id_for_dfs_def split_beta st assms(2) Let_def cong: sum.case_cong option.case_cong)
  then show ?thesis
    using rd_data[OF assms(1,3,4)] rd_view[OF assms(1,3,4)] rd_invar[OF assms(1,3,4)]
      view_length[OF assms(1,3)] assms(5) by metis
qed

end

text \<open>
  An id that is recorded is found. The scan returns the id of the first entry that is in use
  and agrees with the name up to the shorter of the two: one name being a prefix of the other is
  enough. Nothing on the card changes.
\<close>

theorem id_for_dfs_known:
  assumes "block_device rd wr view good invar" "invar (dev s)" "lba = cluster_no_to_lba s cfg"
    and "good lba" "length buf = 512" "30 \<le> length name" "sec = view (dev s) lba"
    and "n < 16" "\<And>i. i < n \<Longrightarrow> other_entry sec name i"
    and "dfs_id sec n ! 0 \<noteq> 0" "same_prefix (dfs_id sec n) (take 30 name)"
  shows "\<exists>s'. id_for_dfs rd wr s cfg name v buf = Inr (uint (entry_id sec n), s')
    \<and> view (dev s') = view (dev s)"
proof -
  obtain d where d: "view d = view (dev s)" "length sec = 512"
    "id_for_dfs rd wr s cfg name v buf =
      (case config_scan [0..<num_entries] name v sec of
         Inl f \<Rightarrow> Inl f
       | Inr (Some i, sec') \<Rightarrow> Inr (i, s\<lparr>dev := d\<rparr>)
       | Inr (None, sec') \<Rightarrow> Inr (- 1, s\<lparr>dev := snd (wr d sec' lba 1)\<rparr>))"
    using block_device.id_for_dfs_read[OF assms(1-5,7)] by blast
  then show ?thesis
    using config_scan_known[OF d(2) assms(6,8-11)] by (intro exI[of _ "s\<lparr>dev := d\<rparr>"]) simp
qed

text \<open>A card whose configuration sector has one entry, the store \<open>ab\<close> with id 7.\<close>

definition demo_config :: bytes where
  "demo_config = [97, 98] @ replicate 28 0 @ [7, 0] @ replicate 480 0"

lemma demo_config_entries:
  "dfs_id demo_config 0 = [97, 98] @ replicate 28 0" "entry_id demo_config 0 = 7"
  by (simp_all add: dfs_id_def demo_config_def chunk_def entry_id_def u16_at_def le16_def nth_append)

lemma demo_config_invar: "ram_invar (\<lambda>_. demo_config)"
  by (simp add: ram_invar_def demo_config_def)

text \<open>Looking up the store \<open>abc\<close> finds the id of \<open>ab\<close>.\<close>

theorem id_for_dfs_known_witness:
  "\<exists>s'. id_for_dfs ram_read ram_write (demo_fs (\<lambda>_. demo_config) (\<lambda>_. 0)) 3
       ([97, 98, 99] @ replicate 27 0) 5 (replicate 512 0) = Inr (uint (entry_id demo_config 0), s')
    \<and> dev s' = dev (demo_fs (\<lambda>_. demo_config) (\<lambda>_. 0))"
proof -
  have "same_prefix (dfs_id demo_config 0) (take 30 ([97, 98, 99] @ replicate 27 0))"
    by (simp add: demo_config_entries same_prefix_def str_of_def is_term_def)
  then show ?thesis
    using demo_config_invar
    by (intro id_for_dfs_known [OF ram.block_device_axioms _ refl])
       (simp_all add: demo_fs_def demo_config_entries)
qed

lemma other_entry_set:
  assumes "length sec = 512" "n < 16" "i < n" "length nm = 30"
  shows "other_entry (set_entry sec n nm v) name i = other_entry sec name i"
proof -
  have "dfs_id (set_entry sec n nm v) i = dfs_id sec i"
    using dfs_id_set_entry(1)[OF assms(1,2) _ assms(4), of i v] assms(2,3) by simp
  then show ?thesis by (simp add: other_entry_def)
qed

lemma config_scan_register:
  assumes "length sec = 512" "30 \<le> length name" "n < 16" "\<And>i. i < n \<Longrightarrow> other_entry sec name i"
    and "dfs_id sec n ! 0 = 0" "v \<noteq> - 1"
  shows "\<exists>nm. config_scan [0..<num_entries] name v sec = Inr (None, set_entry sec n nm (of_int v))
    \<and> length nm = 30 \<and> str_of nm = take 29 (str_of name)
    \<and> nm ! 0 = (if str_of name = [] then 0 else name ! 0)"
proof -
  have "length (dfs_id sec n) = 30" using assms(1,3) by (simp add: dfs_id_def)
  from strncpy_entry[OF this assms(2)] obtain nm where
    nm: "strncpy (dfs_id sec n) name (of_nat MAX_DFS_NAME_LEN) = Some nm" "length nm = 30"
      "nm = take 29 (str_of name) @ 0 # drop (Suc (length (take 29 (str_of name)))) (dfs_id sec n)"
      "str_of nm = take 29 (str_of name)" by blast
  have "config_scan [0..<num_entries] name v sec = config_scan (n # [Suc n..<16]) name v sec"
    unfolding num_entries_def upt_split[OF assms(3)]
    by (rule config_scan_skip[OF assms(1,2)]) (use assms(3,4) in auto)
  then have "config_scan [0..<num_entries] name v sec = Inr (None, set_entry sec n nm (of_int v))"
    using assms(5,6) nm(1) by simp
  moreover have "nm ! 0 = (if str_of name = [] then 0 else name ! 0)"
  proof (cases name)
    case Nil
    then show ?thesis using assms(2) by simp
  next
    case (Cons x xs)
    then show ?thesis using nm(3) by (simp add: str_of_def)
  qed
  ultimately show ?thesis using nm(2,4) by blast
qed

text \<open>
  C12: recording an id is permanent. With a free entry and no entry that is taken for the name,
  \<open>id_for_dfs\<close> returns -1 (the offered id was used), writes only the configuration sector, stores the
  name cut to 29 bytes with the offered id, and keeps the other entries; asked again for that name,
  whatever id is offered then, it returns the recorded one.
\<close>

theorem id_for_dfs_registers:
  assumes "block_device rd wr view good invar" "invar (dev s)" "lba = cluster_no_to_lba s cfg"
    and "good lba" "length buf = 512" "30 \<le> length name" "sec = view (dev s) lba"
    and "n < 16" "\<And>i. i < n \<Longrightarrow> other_entry sec name i" "dfs_id sec n ! 0 = 0"
    and "str_of name \<noteq> []" "0 \<le> v" "v < 256"
  shows "\<exists>s' sec'. id_for_dfs rd wr s cfg name v buf = Inr (- 1, s')
    \<and> view (dev s') = (view (dev s))(lba := sec')
    \<and> str_of (dfs_id sec' n) = take 29 (str_of name) \<and> entry_id sec' n = of_int v
    \<and> (\<forall>i < 16. i \<noteq> n \<longrightarrow> dfs_id sec' i = dfs_id sec i \<and> entry_id sec' i = entry_id sec i)
    \<and> (\<forall>v2 buf2. length buf2 = 512 \<longrightarrow>
          (\<exists>s''. id_for_dfs rd wr s' cfg name v2 buf2 = Inr (v, s'') \<and> view (dev s'') = view (dev s')))"
proof -
  obtain d where d: "invar d" "view d = view (dev s)" "length sec = 512"
    "id_for_dfs rd wr s cfg name v buf =
      (case config_scan [0..<num_entries] name v sec of
         Inl f \<Rightarrow> Inl f
       | Inr (Some i, sec') \<Rightarrow> Inr (i, s\<lparr>dev := d\<rparr>)
       | Inr (None, sec') \<Rightarrow> Inr (- 1, s\<lparr>dev := snd (wr d sec' lba 1)\<rparr>))"
    using block_device.id_for_dfs_read[OF assms(1-5,7)] by blast
  obtain nm where nm: "config_scan [0..<num_entries] name v sec = Inr (None, set_entry sec n nm (of_int v))"
    "length nm = 30" "str_of nm = take 29 (str_of name)" "nm ! 0 = name ! 0"
    using config_scan_register[OF d(3) assms(6,8-10), of v] assms(11,12) by auto
  let ?sec = "set_entry sec n nm (of_int v)"
  define s' where "s' = s\<lparr>dev := snd (wr d ?sec lba 1)\<rparr>"
  note se = dfs_id_set_entry[OF d(3) assms(8) _ nm(2), of _ "of_int v"]
  have l: "length ?sec = 512" using se(3)[OF assms(8)] .
  have run: "id_for_dfs rd wr s cfg name v buf = Inr (- 1, s')" using d(4) nm(1) by (simp add: s'_def)
  have inv': "invar (dev s')" and v': "view (dev s') = (view (dev s))(lba := ?sec)"
    using block_device.wr_view[OF assms(1) d(1) assms(4) l]
      block_device.wr_invar[OF assms(1) d(1) assms(4) l] d(2) by (simp_all add: s'_def)
  have lba': "lba = cluster_no_to_lba s' cfg"
    using assms(3) by (simp add: s'_def cluster_no_to_lba_def cur_vol_def)
  have hd: "\<not> is_term (name ! 0)"
    using assms(11) by (cases name) (auto simp: str_of_def split: if_splits)
  have "prefix (str_of nm) (str_of (take 30 name))"
    using take_is_prefix[of 29 "take 30 (str_of name)"]
    by (simp add: nm(3) take_str_of_prefix min_def)
  then have same: "same_prefix (dfs_id ?sec n) (take 30 name)"
    using se(1)[OF assms(8)] by (simp add: same_prefix_def)
  have nz: "dfs_id ?sec n ! 0 \<noteq> 0" using se(1)[OF assms(8)] nm(4) hd by (simp add: is_term_def)
  have others: "other_entry ?sec name i" if "i < n" for i
    using other_entry_set[OF d(3) assms(8) that nm(2)] assms(9)[OF that] by simp
  have id: "uint (entry_id ?sec n) = v"
    using se(2)[OF assms(8)] assms(12,13) by (simp add: unsigned_of_int take_bit_int_eq_self)
  have "\<exists>s''. id_for_dfs rd wr s' cfg name v2 buf2 = Inr (v, s'') \<and> view (dev s'') = view (dev s')"
    if b2: "length buf2 = 512" for v2 buf2
  proof -
    obtain d' where "view d' = view (dev s')"
      "id_for_dfs rd wr s' cfg name v2 buf2 =
        (case config_scan [0..<num_entries] name v2 ?sec of
           Inl f \<Rightarrow> Inl f
         | Inr (Some i, sec') \<Rightarrow> Inr (i, s'\<lparr>dev := d'\<rparr>)
         | Inr (None, sec') \<Rightarrow> Inr (- 1, s'\<lparr>dev := snd (wr d' sec' lba 1)\<rparr>))"
      using block_device.id_for_dfs_read[OF assms(1) inv' lba' assms(4) b2, of ?sec] v' by auto
    then show ?thesis
      using config_scan_known[OF l assms(6,8) others nz same, of v2] id by simp
  qed
  then show ?thesis
    using run v' se nm(3) assms(8) by (intro exI[of _ s'] exI[of _ ?sec]) simp
qed

theorem id_for_dfs_registers_witness:
  "\<exists>s' sec'. id_for_dfs ram_read ram_write (demo_fs (\<lambda>_. demo_config) (\<lambda>_. 0)) 3
       ([99, 100] @ replicate 28 0) 5 (replicate 512 0) = Inr (- 1, s')
    \<and> dev s' = (dev (demo_fs (\<lambda>_. demo_config) (\<lambda>_. 0)))(52 := sec')
    \<and> str_of (dfs_id sec' 1) = take 29 (str_of ([99, 100] @ replicate 28 0)) \<and> entry_id sec' 1 = of_int 5
    \<and> (\<forall>i < 16. i \<noteq> 1 \<longrightarrow> dfs_id sec' i = dfs_id demo_config i \<and> entry_id sec' i = entry_id demo_config i)
    \<and> (\<forall>v2 buf2. length buf2 = 512 \<longrightarrow>
          (\<exists>s''. id_for_dfs ram_read ram_write s' 3 ([99, 100] @ replicate 28 0) v2 buf2 = Inr (5, s'')
            \<and> dev s'' = dev s'))"
proof -
  have e0: "other_entry demo_config ([99, 100] @ replicate 28 0) 0"
    by (simp add: other_entry_def demo_config_entries same_prefix_def str_of_def is_term_def)
  have e1: "dfs_id demo_config 1 ! 0 = 0"
    by (simp add: dfs_id_def demo_config_def nth_append)
  show ?thesis
    by (rule id_for_dfs_registers [OF ram.block_device_axioms, where cfg = 3 and n = 1])
       (use demo_config_invar e0 e1 in \<open>simp_all add: demo_fs_def cluster_no_to_lba_def cur_vol_def
          demo_vol_def str_of_def is_term_def\<close>)
qed

text \<open>
  C39: a full configuration sector loses ids silently. When all sixteen entries are in use by other
  stores, \<open>id_for_dfs\<close> also returns -1, which its caller reports as "the offered id was used", but
  the sector is written back as it was: the id is recorded nowhere.
\<close>

theorem id_for_dfs_full:
  assumes "block_device rd wr view good invar" "invar (dev s)" "lba = cluster_no_to_lba s cfg"
    and "good lba" "length buf = 512" "30 \<le> length name"
    and "\<And>i. i < 16 \<Longrightarrow> other_entry (view (dev s) lba) name i"
  shows "\<exists>s'. id_for_dfs rd wr s cfg name v buf = Inr (- 1, s') \<and> view (dev s') = view (dev s)"
proof -
  let ?sec = "view (dev s) lba"
  obtain d where d: "invar d" "view d = view (dev s)" "length ?sec = 512"
    "id_for_dfs rd wr s cfg name v buf =
      (case config_scan [0..<num_entries] name v ?sec of
         Inl f \<Rightarrow> Inl f
       | Inr (Some i, sec') \<Rightarrow> Inr (i, s\<lparr>dev := d\<rparr>)
       | Inr (None, sec') \<Rightarrow> Inr (- 1, s\<lparr>dev := snd (wr d sec' lba 1)\<rparr>))"
    using block_device.id_for_dfs_read[OF assms(1-5) refl] by blast
  have "config_scan ([0..<16] @ []) name v ?sec = config_scan [] name v ?sec"
    by (rule config_scan_skip[OF d(3) assms(6)]) (use assms(7) in auto)
  then have "id_for_dfs rd wr s cfg name v buf = Inr (- 1, s\<lparr>dev := snd (wr d ?sec lba 1)\<rparr>)"
    using d(4) by (simp add: num_entries_def)
  moreover have "view (snd (wr d ?sec lba 1)) = view (dev s)"
    using block_device.wr_view[OF assms(1) d(1) assms(4) d(3)] d(2) by simp
  ultimately show ?thesis by simp
qed

theorem id_for_dfs_full_witness:
  "\<exists>s'. id_for_dfs ram_read ram_write (demo_fs (\<lambda>_. replicate 512 65) (\<lambda>_. 0)) 3
       (replicate 30 66) 5 (replicate 512 0) = Inr (- 1, s')
    \<and> dev s' = dev (demo_fs (\<lambda>_. replicate 512 65) (\<lambda>_. 0))"
proof -
  have "other_entry (replicate 512 65) (replicate 30 66) i" if "i < 16" for i
  proof -
    have "dfs_id (replicate 512 65) i = 65 # replicate 29 65"
      using that by (simp add: dfs_id_def chunk_def min_def flip: replicate_Suc)
    moreover have "take 30 (replicate 30 (66 :: u8)) = 66 # replicate 29 66"
      by (simp flip: replicate_Suc)
    ultimately show ?thesis by (simp add: other_entry_def is_term_def)
  qed
  then show ?thesis
    by (intro id_for_dfs_full [OF ram.block_device_axioms _ refl])
       (simp_all add: demo_fs_def ram_invar_def)
qed

end
