(* ===== verification/Mmio.thy ===== *)
theory Mmio
  imports Prelude "HOL-Library.State_Monad"
begin

text \<open>
  The machine below the drivers: 32-bit device registers and the passing of time. \<open>get32\<close> and
  \<open>put32\<close> are assembly routines and the registers are hardware, so both are parameters, gathered in a
  record \<open>'h bus\<close> over an arbitrary hardware state: reading a register (which may change that
  state), writing one, \<open>delay_us\<close> and \<open>delay_cycles\<close>. Code that drives hardware is written in the
  library's state monad. A C \<open>int\<close> that holds register bits or a status is kept as the 32-bit word
  it is.
\<close>

record 'h bus =
  bus_read :: "'h \<Rightarrow> u32 \<Rightarrow> u32 \<times> 'h"
  bus_write :: "'h \<Rightarrow> u32 \<Rightarrow> u32 \<Rightarrow> 'h"
  bus_wait :: "'h \<Rightarrow> u32 \<Rightarrow> 'h"
  bus_spin :: "'h \<Rightarrow> u32 \<Rightarrow> 'h"

definition gets :: "('s \<Rightarrow> 'a) \<Rightarrow> ('s, 'a) state" where
  "gets f = State (\<lambda>s. (f s, s))"

definition modify :: "('s \<Rightarrow> 's) \<Rightarrow> ('s, unit) state" where
  "modify f = State (\<lambda>s. ((), f s))"

named_theorems run_simps "running the primitive steps"

lemma run_gets [run_simps, simp]: "run_state (gets f) s = (f s, s)"
  by (simp add: gets_def)

lemma run_modify [run_simps, simp]: "run_state (modify f) s = ((), f s)"
  by (simp add: modify_def)

text \<open>
  The polling idiom of the drivers: with a counter starting at \<open>n\<close>, repeat \<open>body\<close> while \<open>cond\<close> holds
  and the counter is not used up; the result is what the counter holds afterwards.
\<close>

function poll :: "nat \<Rightarrow> ('s, bool) state \<Rightarrow> ('s, unit) state \<Rightarrow> ('s, int) state" where
  "poll n cond body =
     do { b \<leftarrow> cond;
          if b then (if n = 0 then State_Monad.return (- 1)
                     else do { body; poll (n - 1) cond body })
          else State_Monad.return (int n) }"
  by pat_completeness auto
termination
  by (relation "measure (\<lambda>(n, c, b). n)") auto

declare poll.simps [simp del]

text \<open>
  A loop that counts down on a flag leaves with a positive counter when the flag clears in time:
  \<open>m\<close> bounds how many more turns it takes.
\<close>

lemma poll_in_time:
  assumes "I s" "m s < n"
    and "\<And>s. I s \<Longrightarrow> I (snd (run_state cond s)) \<and> m (snd (run_state cond s)) \<le> m s"
    and "\<And>s. I s \<Longrightarrow> fst (run_state cond s) \<Longrightarrow> 0 < m (snd (run_state cond s))"
    and "\<And>s. I s \<Longrightarrow> 0 < m s \<Longrightarrow> I (snd (run_state body s)) \<and> m (snd (run_state body s)) < m s"
  shows "0 < fst (run_state (poll n cond body) s) \<and> I (snd (run_state (poll n cond body) s))
    \<and> (\<exists>t. I t \<and> snd (run_state cond t) = snd (run_state (poll n cond body) s) \<and> \<not> fst (run_state cond t))"
  using assms(1,2)
proof (induction n arbitrary: s)
  case 0
  then show ?case by simp
next
  case (Suc n)
  obtain b t where c: "run_state cond s = (b, t)" by force
  have t: "I t" "m t \<le> m s" using assms(3)[OF Suc.prems(1)] c by simp_all
  show ?case
  proof (cases b)
    case False
    then have r: "run_state (poll (Suc n) cond body) s = (int (Suc n), t)"
      using c by (subst poll.simps) simp
    have "\<exists>t'. I t' \<and> snd (run_state cond t') = t \<and> \<not> fst (run_state cond t')"
      using c False Suc.prems(1) by (intro exI[of _ s]) simp
    then show ?thesis using t r by simp
  next
    case True
    have "0 < m t" using assms(4)[OF Suc.prems(1)] c True by simp
    obtain u where u: "run_state body t = ((), u)" by (cases "run_state body t") auto
    have "I u" "m u < m t" using assms(5)[OF t(1) \<open>0 < m t\<close>] u by simp_all
    then have "m u < n" using t(2) Suc.prems(2) by simp
    have "run_state (poll (Suc n) cond body) s = run_state (poll n cond body) u"
      using c u True by (subst poll.simps) simp
    then show ?thesis using Suc.IH[OF \<open>I u\<close> \<open>m u < n\<close>] by simp
  qed
qed

lemma poll_le: "fst (run_state (poll n cond body) s) \<le> int n"
proof (induction n arbitrary: s)
  case (Suc n)
  obtain b t where c: "run_state cond s = (b, t)" by force
  obtain u where u: "run_state body t = ((), u)" by (cases "run_state body t") auto
  show ?case
  proof (cases b)
    case True
    then have "run_state (poll (Suc n) cond body) s = run_state (poll n cond body) u"
      using c u by (subst poll.simps) simp
    then show ?thesis using Suc.IH[of u] by simp
  qed (subst poll.simps, simp add: c)
qed (subst poll.simps, auto split: prod.split)

text \<open>A flag that never clears uses the counter up: it ends at -1.\<close>

lemma poll_stuck:
  assumes "I s" "\<And>s. I s \<Longrightarrow> fst (run_state cond s) \<and> I (snd (run_state cond s))"
    and "\<And>s. I s \<Longrightarrow> I (snd (run_state body s))"
  shows "fst (run_state (poll n cond body) s) = - 1 \<and> I (snd (run_state (poll n cond body) s))"
  using assms(1)
proof (induction n arbitrary: s)
  case 0
  then show ?case using assms(2)[OF 0] by (subst (1 2) poll.simps) (auto split: prod.split)
next
  case (Suc n)
  obtain b t where c: "run_state cond s = (b, t)" by force
  obtain u where u: "run_state body t = ((), u)" by (cases "run_state body t") auto
  have "b" "I t" using assms(2)[OF Suc.prems] c by simp_all
  then have "I u" using assms(3)[of t] u by simp
  have "run_state (poll (Suc n) cond body) s = run_state (poll n cond body) u"
    using c u \<open>b\<close> by (subst poll.simps) simp
  then show ?case using Suc.IH[OF \<open>I u\<close>] by simp
qed

end
