(* ===== verification/Sd.thy ===== *)
theory Sd
  imports Mmio Block_Device
begin

text \<open>
  The SD card driver \<open>src/pi-src/bzt-sd.c\<close> on an arbitrary host controller: every register access
  and delay of the code, in its order, as a step of the state monad over the hardware and the
  driver's global variables. \<open>unsigned long\<close> is 32 bits on this machine. The debug output
  (\<open>uart_puts\<close>, \<open>uart_hex\<close>) is compiled to calls of \<open>ignore\<close> and is left out.
\<close>

section \<open>Registers and constants\<close>

definition MMIO_BASE :: u32 where "MMIO_BASE = 0x20000000"

definition EMMC_BLKSIZECNT :: u32 where "EMMC_BLKSIZECNT = MMIO_BASE + 0x00300004"
definition EMMC_ARG1 :: u32 where "EMMC_ARG1 = MMIO_BASE + 0x00300008"
definition EMMC_CMDTM :: u32 where "EMMC_CMDTM = MMIO_BASE + 0x0030000C"
definition EMMC_RESP0 :: u32 where "EMMC_RESP0 = MMIO_BASE + 0x00300010"
definition EMMC_RESP1 :: u32 where "EMMC_RESP1 = MMIO_BASE + 0x00300014"
definition EMMC_RESP2 :: u32 where "EMMC_RESP2 = MMIO_BASE + 0x00300018"
definition EMMC_RESP3 :: u32 where "EMMC_RESP3 = MMIO_BASE + 0x0030001C"
definition EMMC_DATA :: u32 where "EMMC_DATA = MMIO_BASE + 0x00300020"
definition EMMC_STATUS :: u32 where "EMMC_STATUS = MMIO_BASE + 0x00300024"
definition EMMC_CONTROL0 :: u32 where "EMMC_CONTROL0 = MMIO_BASE + 0x00300028"
definition EMMC_CONTROL1 :: u32 where "EMMC_CONTROL1 = MMIO_BASE + 0x0030002C"
definition EMMC_INTERRUPT :: u32 where "EMMC_INTERRUPT = MMIO_BASE + 0x00300030"
definition EMMC_INT_MASK :: u32 where "EMMC_INT_MASK = MMIO_BASE + 0x00300034"
definition EMMC_INT_EN :: u32 where "EMMC_INT_EN = MMIO_BASE + 0x00300038"
definition EMMC_SLOTISR_VER :: u32 where "EMMC_SLOTISR_VER = MMIO_BASE + 0x003000FC"

definition GPFSEL4 :: u32 where "GPFSEL4 = MMIO_BASE + 0x00200010"
definition GPFSEL5 :: u32 where "GPFSEL5 = MMIO_BASE + 0x00200014"
definition GPHEN1 :: u32 where "GPHEN1 = MMIO_BASE + 0x00200068"
definition GPPUD :: u32 where "GPPUD = MMIO_BASE + 0x00200094"
definition GPPUDCLK1 :: u32 where "GPPUDCLK1 = MMIO_BASE + 0x0020009C"

definition CMD_NEED_APP :: u32 where "CMD_NEED_APP = 0x80000000"
definition CMD_RSPNS_48 :: u32 where "CMD_RSPNS_48 = 0x00020000"
definition CMD_ERRORS_MASK :: u32 where "CMD_ERRORS_MASK = 0xfff9c004"
definition CMD_RCA_MASK :: u32 where "CMD_RCA_MASK = 0xffff0000"

definition CMD_GO_IDLE :: u32 where "CMD_GO_IDLE = 0x00000000"
definition CMD_ALL_SEND_CID :: u32 where "CMD_ALL_SEND_CID = 0x02010000"
definition CMD_SEND_REL_ADDR :: u32 where "CMD_SEND_REL_ADDR = 0x03020000"
definition CMD_CARD_SELECT :: u32 where "CMD_CARD_SELECT = 0x07030000"
definition CMD_SEND_IF_COND :: u32 where "CMD_SEND_IF_COND = 0x08020000"
definition CMD_STOP_TRANS :: u32 where "CMD_STOP_TRANS = 0x0C030000"
definition CMD_READ_SINGLE :: u32 where "CMD_READ_SINGLE = 0x11220010"
definition CMD_READ_MULTI :: u32 where "CMD_READ_MULTI = 0x12220032"
definition CMD_SET_BLOCKCNT :: u32 where "CMD_SET_BLOCKCNT = 0x17020000"
definition CMD_WRITE_SINGLE :: u32 where "CMD_WRITE_SINGLE = 0x18220000"
definition CMD_WRITE_MULTI :: u32 where "CMD_WRITE_MULTI = 0x19220022"
definition CMD_APP_CMD :: u32 where "CMD_APP_CMD = 0x37000000"
definition CMD_SET_BUS_WIDTH :: u32 where "CMD_SET_BUS_WIDTH = 0x06020000 OR CMD_NEED_APP"
definition CMD_SEND_OP_COND :: u32 where "CMD_SEND_OP_COND = 0x29020000 OR CMD_NEED_APP"
definition CMD_SEND_SCR :: u32 where "CMD_SEND_SCR = 0x33220010 OR CMD_NEED_APP"

definition SR_READ_AVAILABLE :: u32 where "SR_READ_AVAILABLE = 0x00000800"
definition SR_WRITE_AVAILABLE :: u32 where "SR_WRITE_AVAILABLE = 0x00000400"
definition SR_DAT_INHIBIT :: u32 where "SR_DAT_INHIBIT = 0x00000002"
definition SR_CMD_INHIBIT :: u32 where "SR_CMD_INHIBIT = 0x00000001"
definition SR_APP_CMD :: u32 where "SR_APP_CMD = 0x00000020"

definition INT_DATA_TIMEOUT :: u32 where "INT_DATA_TIMEOUT = 0x00100000"
definition INT_CMD_TIMEOUT :: u32 where "INT_CMD_TIMEOUT = 0x00010000"
definition INT_READ_RDY :: u32 where "INT_READ_RDY = 0x00000020"
definition INT_WRITE_RDY :: u32 where "INT_WRITE_RDY = 0x00000010"
definition INT_DATA_DONE :: u32 where "INT_DATA_DONE = 0x00000002"
definition INT_CMD_DONE :: u32 where "INT_CMD_DONE = 0x00000001"
definition INT_ERROR_MASK :: u32 where "INT_ERROR_MASK = 0x017E8000"

definition C0_HCTL_DWITDH :: u32 where "C0_HCTL_DWITDH = 0x00000002"
definition C1_SRST_HC :: u32 where "C1_SRST_HC = 0x01000000"
definition C1_TOUNIT_MAX :: u32 where "C1_TOUNIT_MAX = 0x000e0000"
definition C1_CLK_EN :: u32 where "C1_CLK_EN = 0x00000004"
definition C1_CLK_STABLE :: u32 where "C1_CLK_STABLE = 0x00000002"
definition C1_CLK_INTLEN :: u32 where "C1_CLK_INTLEN = 0x00000001"

definition HOST_SPEC_NUM :: u32 where "HOST_SPEC_NUM = 0x00ff0000"
definition HOST_SPEC_V2 :: u32 where "HOST_SPEC_V2 = 1"

definition SCR_SD_BUS_WIDTH_4 :: u32 where "SCR_SD_BUS_WIDTH_4 = 0x00000400"
definition SCR_SUPP_SET_BLKCNT :: u32 where "SCR_SUPP_SET_BLKCNT = 0x02000000"
definition SCR_SUPP_CCS :: u32 where "SCR_SUPP_CCS = 0x00000001"

definition ACMD41_VOLTAGE :: u32 where "ACMD41_VOLTAGE = 0x00ff8000"
definition ACMD41_CMD_COMPLETE :: u32 where "ACMD41_CMD_COMPLETE = 0x80000000"
definition ACMD41_CMD_CCS :: u32 where "ACMD41_CMD_CCS = 0x40000000"
definition ACMD41_ARG_HC :: u32 where "ACMD41_ARG_HC = 0x51ff8000"

definition SD_OK :: u32 where "SD_OK = 0"
definition SD_TIMEOUT :: u32 where "SD_TIMEOUT = - 1"
definition SD_ERROR :: u32 where "SD_ERROR = - 2"

section \<open>State\<close>

record 'h sd =
  hw :: 'h
  sd_scr0 :: u32
  sd_scr1 :: u32
  sd_err :: u32
  sd_hv :: u32
  sd_rca :: u64

definition get32 :: "'h bus \<Rightarrow> u32 \<Rightarrow> ('h sd, u32) state" where
  "get32 bus a = State (\<lambda>s. let (v, h) = bus_read bus (hw s) a in (v, s\<lparr>hw := h\<rparr>))"

definition put32 :: "'h bus \<Rightarrow> u32 \<Rightarrow> u32 \<Rightarrow> ('h sd, unit) state" where
  "put32 bus a v = State (\<lambda>s. ((), s\<lparr>hw := bus_write bus (hw s) a v\<rparr>))"

definition wait_msec :: "'h bus \<Rightarrow> u32 \<Rightarrow> ('h sd, unit) state" where
  "wait_msec bus ms = State (\<lambda>s. ((), s\<lparr>hw := bus_wait bus (hw s) (ms * 1000)\<rparr>))"

definition wait_cycles :: "'h bus \<Rightarrow> u32 \<Rightarrow> ('h sd, unit) state" where
  "wait_cycles bus n = State (\<lambda>s. ((), s\<lparr>hw := bus_spin bus (hw s) n\<rparr>))"

definition set_err :: "u32 \<Rightarrow> ('h sd, unit) state" where
  "set_err e = modify (\<lambda>s. s\<lparr>sd_err := e\<rparr>)"

lemma run_get32 [run_simps]:
  "run_state (get32 bus a) s = (fst (bus_read bus (hw s) a), s\<lparr>hw := snd (bus_read bus (hw s) a)\<rparr>)"
  by (simp add: get32_def split_beta)

lemma run_put32 [run_simps]: "run_state (put32 bus a v) s = ((), s\<lparr>hw := bus_write bus (hw s) a v\<rparr>)"
  by (simp add: put32_def)

lemma run_wait_msec [run_simps]:
  "run_state (wait_msec bus n) s = ((), s\<lparr>hw := bus_wait bus (hw s) (n * 1000)\<rparr>)"
  by (simp add: wait_msec_def)

lemma run_wait_cycles [run_simps]:
  "run_state (wait_cycles bus n) s = ((), s\<lparr>hw := bus_spin bus (hw s) n\<rparr>)"
  by (simp add: wait_cycles_def)

lemma run_set_err [run_simps]: "run_state (set_err e) s = ((), s\<lparr>sd_err := e\<rparr>)"
  by (simp add: set_err_def)

section \<open>Waiting and commands\<close>

text \<open>
  The two conditions are evaluated left to right and stop at the first that decides, so which
  registers are read depends on what was read.
\<close>

definition busy :: "'h bus \<Rightarrow> u32 \<Rightarrow> ('h sd, bool) state" where
  "busy bus mask_bits =
     do { st \<leftarrow> get32 bus EMMC_STATUS;
          if st AND mask_bits \<noteq> 0 then
            do { i \<leftarrow> get32 bus EMMC_INTERRUPT;
                 State_Monad.return (i AND INT_ERROR_MASK = 0) }
          else State_Monad.return False }"

definition sd_status :: "'h bus \<Rightarrow> u32 \<Rightarrow> ('h sd, u32) state" where
  "sd_status bus mask_bits =
     do { cnt \<leftarrow> poll 1000000 (busy bus mask_bits) (wait_msec bus 1);
          if cnt \<le> 0 then State_Monad.return SD_ERROR
          else do { i \<leftarrow> get32 bus EMMC_INTERRUPT;
                    State_Monad.return (if i AND INT_ERROR_MASK \<noteq> 0 then SD_ERROR else SD_OK) } }"

definition no_interrupt :: "'h bus \<Rightarrow> u32 \<Rightarrow> ('h sd, bool) state" where
  "no_interrupt bus m =
     do { i \<leftarrow> get32 bus EMMC_INTERRUPT; State_Monad.return (i AND m = 0) }"

definition sd_int :: "'h bus \<Rightarrow> u32 \<Rightarrow> ('h sd, u32) state" where
  "sd_int bus mask_bits =
     do { cnt \<leftarrow> poll 1000000 (no_interrupt bus (mask_bits OR INT_ERROR_MASK)) (wait_msec bus 1);
          r \<leftarrow> get32 bus EMMC_INTERRUPT;
          if cnt \<le> 0 \<or> r AND INT_CMD_TIMEOUT \<noteq> 0 \<or> r AND INT_DATA_TIMEOUT \<noteq> 0
          then do { put32 bus EMMC_INTERRUPT r; State_Monad.return SD_TIMEOUT }
          else if r AND INT_ERROR_MASK \<noteq> 0
          then do { put32 bus EMMC_INTERRUPT r; State_Monad.return SD_ERROR }
          else do { put32 bus EMMC_INTERRUPT mask_bits; State_Monad.return 0 } }"

text \<open>Reading the response, according to the command.\<close>

definition cmd_response :: "'h bus \<Rightarrow> u32 \<Rightarrow> u32 \<Rightarrow> ('h sd, u32) state" where
  "cmd_response bus code arg =
     do { r \<leftarrow> get32 bus EMMC_RESP0;
          if code = CMD_GO_IDLE \<or> code = CMD_APP_CMD then State_Monad.return 0
          else if code = CMD_APP_CMD OR CMD_RSPNS_48 then State_Monad.return (r AND SR_APP_CMD)
          else if code = CMD_SEND_OP_COND then State_Monad.return r
          else if code = CMD_SEND_IF_COND then State_Monad.return (if r = arg then SD_OK else SD_ERROR)
          else if code = CMD_ALL_SEND_CID then
            do { r3 \<leftarrow> get32 bus EMMC_RESP3; r2 \<leftarrow> get32 bus EMMC_RESP2; r1 \<leftarrow> get32 bus EMMC_RESP1;
                 State_Monad.return (r OR r3 OR r2 OR r1) }
          else if code = CMD_SEND_REL_ADDR then
            do { set_err (((r AND 0x1fff) OR push_bit 6 (r AND 0x2000) OR push_bit 8 (r AND 0x4000)
                            OR push_bit 8 (r AND 0x8000)) AND CMD_ERRORS_MASK);
                 State_Monad.return (r AND CMD_RCA_MASK) }
          else State_Monad.return (r AND CMD_ERRORS_MASK) }"

text \<open>Issuing one command, from the wait for the command line to the response.\<close>

definition send_cmd :: "'h bus \<Rightarrow> u32 \<Rightarrow> u32 \<Rightarrow> ('h sd, u32) state" where
  "send_cmd bus code arg =
     do { st \<leftarrow> sd_status bus SR_CMD_INHIBIT;
          if st \<noteq> 0 then do { set_err SD_TIMEOUT; State_Monad.return 0 }
          else
            do { i \<leftarrow> get32 bus EMMC_INTERRUPT;
                 put32 bus EMMC_INTERRUPT i;
                 put32 bus EMMC_ARG1 arg;
                 put32 bus EMMC_CMDTM code;
                 (if code = CMD_SEND_OP_COND then wait_msec bus 1000
                  else if code = CMD_SEND_IF_COND \<or> code = CMD_APP_CMD then wait_msec bus 100
                  else State_Monad.return ());
                 r \<leftarrow> sd_int bus INT_CMD_DONE;
                 if r \<noteq> 0 then do { set_err r; State_Monad.return 0 }
                 else cmd_response bus code arg } }"

lemma app_cmd_plain:
  "(CMD_APP_CMD OR (if b then CMD_RSPNS_48 else 0)) AND CMD_NEED_APP = 0"
  by (simp add: CMD_APP_CMD_def CMD_RSPNS_48_def CMD_NEED_APP_def)

text \<open>The prefix command of an application command is sent by a recursive call.\<close>

function sd_cmd :: "'h bus \<Rightarrow> u32 \<Rightarrow> u32 \<Rightarrow> ('h sd, u32) state" where
  "sd_cmd bus code arg =
     do { set_err SD_OK;
          if code AND CMD_NEED_APP \<noteq> 0 then
            do { rca \<leftarrow> gets sd_rca;
                 r \<leftarrow> sd_cmd bus (CMD_APP_CMD OR (if rca \<noteq> 0 then CMD_RSPNS_48 else 0)) (ucast rca);
                 if rca \<noteq> 0 \<and> r = 0 then do { set_err SD_ERROR; State_Monad.return 0 }
                 else send_cmd bus (code AND NOT CMD_NEED_APP) arg }
          else send_cmd bus code arg }"
  by pat_completeness auto
termination
  by (relation "measure (\<lambda>(bus, code, arg). if code AND CMD_NEED_APP \<noteq> 0 then 1 else 0)")
     (simp_all add: app_cmd_plain)

declare sd_cmd.simps [simp del]

section \<open>Blocks\<close>

definition supp_ccs :: "'h sd \<Rightarrow> bool" where
  "supp_ccs s \<longleftrightarrow> sd_scr0 s AND SCR_SUPP_CCS \<noteq> 0"

definition supp_blkcnt :: "'h sd \<Rightarrow> bool" where
  "supp_blkcnt s \<longleftrightarrow> sd_scr0 s AND SCR_SUPP_SET_BLKCNT \<noteq> 0"

text \<open>Announcing the transfer: the part both routines do before their loop. \<open>True\<close> is a return of 0.\<close>

definition start_transfer ::
  "'h bus \<Rightarrow> u32 \<Rightarrow> u32 \<Rightarrow> u32 \<Rightarrow> u32 \<Rightarrow> ('h sd, bool) state" where
  "start_transfer bus single multi lba num =
     do { ccs \<leftarrow> gets supp_ccs;
          if ccs then
            do { blkcnt \<leftarrow> gets supp_blkcnt;
                 e1 \<leftarrow> (if 1 < num \<and> blkcnt
                        then do { sd_cmd bus CMD_SET_BLOCKCNT num; gets sd_err }
                        else State_Monad.return 0);
                 if e1 \<noteq> 0 then State_Monad.return True
                 else
                   do { put32 bus EMMC_BLKSIZECNT (push_bit 16 num OR 512);
                        sd_cmd bus (if num = 1 then single else multi) lba;
                        e2 \<leftarrow> gets sd_err;
                        State_Monad.return (e2 \<noteq> 0) } }
          else do { put32 bus EMMC_BLKSIZECNT (push_bit 16 1 OR 512); State_Monad.return False } }"

text \<open>The command for one block, which only byte-addressed cards need.\<close>

definition block_cmd :: "'h bus \<Rightarrow> u32 \<Rightarrow> u32 \<Rightarrow> nat \<Rightarrow> ('h sd, bool) state" where
  "block_cmd bus single lba c =
     do { ccs \<leftarrow> gets supp_ccs;
          if \<not> ccs then
            do { sd_cmd bus single ((lba + of_nat c) * 512); e \<leftarrow> gets sd_err; State_Monad.return (e \<noteq> 0) }
          else State_Monad.return False }"

text \<open>The words of one block, through the data register.\<close>

fun read_words :: "'h bus \<Rightarrow> nat \<Rightarrow> ('h sd, u32 list) state" where
  "read_words bus 0 = State_Monad.return []"
| "read_words bus (Suc n) =
     do { w \<leftarrow> get32 bus EMMC_DATA; ws \<leftarrow> read_words bus n; State_Monad.return (w # ws) }"

fun write_words :: "'h bus \<Rightarrow> u32 list \<Rightarrow> ('h sd, unit) state" where
  "write_words bus [] = State_Monad.return ()"
| "write_words bus (w # ws) = do { put32 bus EMMC_DATA w; write_words bus ws }"

text \<open>
  The loop over blocks, \<open>k\<close> of them to go from block \<open>c\<close> on. The first component says whether the
  loop was left by a \<open>return 0\<close>. The caller's buffer has 512 bytes for each block.
\<close>

fun read_blocks :: "'h bus \<Rightarrow> u32 \<Rightarrow> nat \<Rightarrow> nat \<Rightarrow> bytes \<Rightarrow> ('h sd, bool \<times> bytes) state" where
  "read_blocks bus lba 0 c buf = State_Monad.return (False, buf)"
| "read_blocks bus lba (Suc k) c buf =
     do { e \<leftarrow> block_cmd bus CMD_READ_SINGLE lba c;
          if e then State_Monad.return (True, buf)
          else
            do { r \<leftarrow> sd_int bus INT_READ_RDY;
                 if r \<noteq> 0 then do { set_err r; State_Monad.return (True, buf) }
                 else
                   do { ws \<leftarrow> read_words bus 128;
                        read_blocks bus lba k (Suc c) (splice (512 * c) (bytes_of_words ws) buf) } } }"

definition stop_transfer :: "'h bus \<Rightarrow> u32 \<Rightarrow> ('h sd, unit) state" where
  "stop_transfer bus num =
     do { blkcnt \<leftarrow> gets supp_blkcnt;
          ccs \<leftarrow> gets supp_ccs;
          if 1 < num \<and> \<not> blkcnt \<and> ccs
          then do { sd_cmd bus CMD_STOP_TRANS 0; State_Monad.return () }
          else State_Monad.return () }"

definition finish_transfer :: "'h bus \<Rightarrow> u32 \<Rightarrow> ('h sd, int) state" where
  "finish_transfer bus num =
     do { stop_transfer bus num;
          e \<leftarrow> gets sd_err;
          State_Monad.return (if e \<noteq> SD_OK then 0 else sint (num * 512)) }"

definition sd_readblock :: "'h bus \<Rightarrow> u32 \<Rightarrow> bytes \<Rightarrow> u32 \<Rightarrow> ('h sd, int \<times> bytes) state" where
  "sd_readblock bus lba buffer num0 =
     (let num = (if num0 < 1 then 1 else num0) in
      do { st \<leftarrow> sd_status bus SR_DAT_INHIBIT;
           if st \<noteq> 0 then do { set_err SD_TIMEOUT; State_Monad.return (0, buffer) }
           else
             do { e \<leftarrow> start_transfer bus CMD_READ_SINGLE CMD_READ_MULTI lba num;
                  if e then State_Monad.return (0, buffer)
                  else
                    do { (failed, buf) \<leftarrow> read_blocks bus lba (unat num) 0 buffer;
                         if failed then State_Monad.return (0, buf)
                         else do { r \<leftarrow> finish_transfer bus num; State_Monad.return (r, buf) } } } })"

fun write_blocks :: "'h bus \<Rightarrow> u32 \<Rightarrow> nat \<Rightarrow> nat \<Rightarrow> bytes \<Rightarrow> ('h sd, bool) state" where
  "write_blocks bus lba 0 c buf = State_Monad.return False"
| "write_blocks bus lba (Suc k) c buf =
     do { e \<leftarrow> block_cmd bus CMD_WRITE_SINGLE lba c;
          if e then State_Monad.return True
          else
            do { r \<leftarrow> sd_int bus INT_WRITE_RDY;
                 if r \<noteq> 0 then do { set_err r; State_Monad.return True }
                 else
                   do { write_words bus (words_of_bytes (chunk (512 * c) 512 buf));
                        write_blocks bus lba k (Suc c) buf } } }"

definition sd_writeblock :: "'h bus \<Rightarrow> bytes \<Rightarrow> u32 \<Rightarrow> u32 \<Rightarrow> ('h sd, int) state" where
  "sd_writeblock bus buffer lba num0 =
     (let num = (if num0 < 1 then 1 else num0) in
      do { st \<leftarrow> sd_status bus (SR_DAT_INHIBIT OR SR_WRITE_AVAILABLE);
           if st \<noteq> 0 then do { set_err SD_TIMEOUT; State_Monad.return 0 }
           else
             do { e \<leftarrow> start_transfer bus CMD_WRITE_SINGLE CMD_WRITE_MULTI lba num;
                  if e then State_Monad.return 0
                  else
                    do { failed \<leftarrow> write_blocks bus lba (unat num) 0 buffer;
                         if failed then State_Monad.return 0
                         else
                           do { r \<leftarrow> sd_int bus INT_DATA_DONE;
                                if r \<noteq> 0 then do { set_err r; State_Monad.return 0 }
                                else finish_transfer bus num } } } })"

text \<open>The driver as the pair of functions \<open>fat32_init\<close> is given.\<close>

definition sd_read_fn :: "'h bus \<Rightarrow> 'h sd read_fn" where
  "sd_read_fn bus s lba buf num =
     (let ((r, buf'), s') = run_state (sd_readblock bus lba buf num) s in (r, buf', s'))"

definition sd_write_fn :: "'h bus \<Rightarrow> 'h sd write_fn" where
  "sd_write_fn bus s buf lba num = run_state (sd_writeblock bus buf lba num) s"

end
