(* ===== verification/Sd_Card.thy ===== *)
theory Sd_Card
  imports Sd
begin

text \<open>
  What the driver achieves on a host controller and card that keep the protocol of the SD host
  specification: \<open>emmc_host\<close> states that protocol for single-block transfers, one law per register
  access, over the phase of the current transfer; the driver is then shown to provide the
  \<open>block_device\<close> contract the FAT32 code is verified against. A simulated controller with a card
  that answers late shows the laws can hold.
\<close>

section \<open>The protocol of a single-block transfer\<close>

datatype xfer =
    Quiet
  | ReadPending u32
  | ReadData u32 nat
  | WritePending u32
  | WriteData u32 "u32 list"
  | WriteDone

text \<open>The interrupt bit a phase waits for, and the phase after acknowledging it.\<close>

fun flag_of :: "xfer \<Rightarrow> u32" where
  "flag_of (ReadPending l) = INT_CMD_DONE"
| "flag_of (WritePending l) = INT_CMD_DONE"
| "flag_of (ReadData l k) = INT_READ_RDY"
| "flag_of (WriteData l ws) = INT_WRITE_RDY"
| "flag_of WriteDone = INT_DATA_DONE"
| "flag_of Quiet = 0"

fun ack :: "xfer \<Rightarrow> xfer" where
  "ack (ReadPending l) = ReadData l 0"
| "ack (WritePending l) = WriteData l []"
| "ack WriteDone = Quiet"
| "ack p = p"

definition busy_bits :: u32 where
  "busy_bits = SR_CMD_INHIBIT OR SR_DAT_INHIBIT OR SR_WRITE_AVAILABLE"

text \<open>The driver at rest: no transfer under way, and the card's addressing mode recorded.\<close>

definition at_rest :: "('h \<Rightarrow> xfer) \<Rightarrow> ('h \<Rightarrow> bool) \<Rightarrow> bool \<Rightarrow> 'h sd \<Rightarrow> bool" where
  "at_rest phase ok ccs s \<longleftrightarrow> ok (hw s) \<and> phase (hw s) = Quiet \<and> supp_ccs s = ccs"

text \<open>
  \<open>late\<close> bounds how many more milliseconds pass before the flag the phase waits for is up; the
  driver's polling loops allow for a million.
\<close>

locale emmc_host =
  fixes bus :: "'h bus"
    and phase :: "'h \<Rightarrow> xfer"
    and disk :: "'h \<Rightarrow> u32 \<Rightarrow> bytes"
    and arg1 :: "'h \<Rightarrow> u32"
    and late :: "'h \<Rightarrow> nat"
    and ok :: "'h \<Rightarrow> bool"
    and sect :: "u32 \<Rightarrow> u32"
    and ccs :: bool
    and good :: "u32 \<Rightarrow> bool"
  assumes late_bound: "ok h \<Longrightarrow> late h < 1000000"
    and disk_length: "ok h \<Longrightarrow> good l \<Longrightarrow> length (disk h l) = 512"
    and sect_arg: "good l \<Longrightarrow> sect (if ccs then l else l * 512) = l"
    and wait_law: "ok h \<Longrightarrow> ok (bus_wait bus h us) \<and> phase (bus_wait bus h us) = phase h
        \<and> disk (bus_wait bus h us) = disk h \<and> late (bus_wait bus h us) \<le> late h"
    and wait_progress: "ok h \<Longrightarrow> 0 < late h \<Longrightarrow> late (bus_wait bus h 1000) < late h"
    and read_keeps: "ok h \<Longrightarrow> a \<in> {EMMC_STATUS, EMMC_INTERRUPT, EMMC_RESP0} \<Longrightarrow>
        ok (snd (bus_read bus h a)) \<and> phase (snd (bus_read bus h a)) = phase h
        \<and> disk (snd (bus_read bus h a)) = disk h \<and> late (snd (bus_read bus h a)) \<le> late h"
    and status_law: "ok h \<Longrightarrow> phase h = Quiet \<Longrightarrow>
        fst (bus_read bus h EMMC_STATUS) AND busy_bits \<noteq> 0 \<Longrightarrow>
        0 < late (snd (bus_read bus h EMMC_STATUS))"
    and no_errors: "ok h \<Longrightarrow> fst (bus_read bus h EMMC_INTERRUPT) AND (INT_ERROR_MASK OR INT_CMD_TIMEOUT) = 0"
    and error_read_late: "ok h \<Longrightarrow> late (snd (bus_read bus h EMMC_INTERRUPT)) = late h"
    and flag_law: "ok h \<Longrightarrow> phase h \<noteq> Quiet \<Longrightarrow>
        fst (bus_read bus h EMMC_INTERRUPT) AND flag_of (phase h) = 0 \<Longrightarrow> 0 < late h"
    and ack_law: "ok h \<Longrightarrow> ok (bus_write bus h EMMC_INTERRUPT (flag_of (phase h)))
        \<and> phase (bus_write bus h EMMC_INTERRUPT (flag_of (phase h))) = ack (phase h)
        \<and> disk (bus_write bus h EMMC_INTERRUPT (flag_of (phase h))) = disk h"
    and quiet_ack: "ok h \<Longrightarrow> phase h = Quiet \<Longrightarrow> ok (bus_write bus h EMMC_INTERRUPT v)
        \<and> phase (bus_write bus h EMMC_INTERRUPT v) = Quiet
        \<and> disk (bus_write bus h EMMC_INTERRUPT v) = disk h"
    and arg_law: "ok h \<Longrightarrow> phase h = Quiet \<Longrightarrow> ok (bus_write bus h EMMC_ARG1 v)
        \<and> phase (bus_write bus h EMMC_ARG1 v) = Quiet \<and> disk (bus_write bus h EMMC_ARG1 v) = disk h
        \<and> arg1 (bus_write bus h EMMC_ARG1 v) = v"
    and size_law: "ok h \<Longrightarrow> phase h = Quiet \<Longrightarrow>
        ok (bus_write bus h EMMC_BLKSIZECNT (push_bit 16 1 OR 512))
        \<and> phase (bus_write bus h EMMC_BLKSIZECNT (push_bit 16 1 OR 512)) = Quiet
        \<and> disk (bus_write bus h EMMC_BLKSIZECNT (push_bit 16 1 OR 512)) = disk h"
    and read_cmd: "ok h \<Longrightarrow> phase h = Quiet \<Longrightarrow> good (sect (arg1 h)) \<Longrightarrow>
        ok (bus_write bus h EMMC_CMDTM CMD_READ_SINGLE)
        \<and> phase (bus_write bus h EMMC_CMDTM CMD_READ_SINGLE) = ReadPending (sect (arg1 h))
        \<and> disk (bus_write bus h EMMC_CMDTM CMD_READ_SINGLE) = disk h"
    and write_cmd: "ok h \<Longrightarrow> phase h = Quiet \<Longrightarrow> good (sect (arg1 h)) \<Longrightarrow>
        ok (bus_write bus h EMMC_CMDTM CMD_WRITE_SINGLE)
        \<and> phase (bus_write bus h EMMC_CMDTM CMD_WRITE_SINGLE) = WritePending (sect (arg1 h))
        \<and> disk (bus_write bus h EMMC_CMDTM CMD_WRITE_SINGLE) = disk h"
    and read_data: "ok h \<Longrightarrow> phase h = ReadData l k \<Longrightarrow> good l \<Longrightarrow> k < 128 \<Longrightarrow>
        fst (bus_read bus h EMMC_DATA) = words_of_bytes (disk h l) ! k
        \<and> ok (snd (bus_read bus h EMMC_DATA)) \<and> disk (snd (bus_read bus h EMMC_DATA)) = disk h
        \<and> phase (snd (bus_read bus h EMMC_DATA)) = (if k = 127 then Quiet else ReadData l (k + 1))"
    and write_data: "ok h \<Longrightarrow> phase h = WriteData l ws \<Longrightarrow> good l \<Longrightarrow> length ws < 128 \<Longrightarrow>
        ok (bus_write bus h EMMC_DATA w)
        \<and> phase (bus_write bus h EMMC_DATA w) =
            (if length ws = 127 then WriteDone else WriteData l (ws @ [w]))
        \<and> disk (bus_write bus h EMMC_DATA w) =
            (if length ws = 127 then (disk h)(l := bytes_of_words (ws @ [w])) else disk h)"
begin

text \<open>States that differ from \<open>s\<close> in the hardware only, in the same phase with the same disk.\<close>

definition near :: "'h sd \<Rightarrow> 'h sd \<Rightarrow> bool" where
  "near s s' \<longleftrightarrow> (\<exists>h. s' = s\<lparr>hw := h\<rparr> \<and> ok h \<and> phase h = phase (hw s) \<and> disk h = disk (hw s))"

lemma near_upd: "near s t \<Longrightarrow> ok h \<Longrightarrow> phase h = phase (hw t) \<Longrightarrow> disk h = disk (hw t)
  \<Longrightarrow> near s (t\<lparr>hw := h\<rparr>)"
  by (auto simp: near_def)

lemma near_refl: "ok (hw s) \<Longrightarrow> near s s"
  by (auto simp: near_def intro!: exI[of _ "hw s"])

lemma nearD:
  "near s t \<Longrightarrow> ok (hw t)" "near s t \<Longrightarrow> phase (hw t) = phase (hw s)"
  "near s t \<Longrightarrow> disk (hw t) = disk (hw s)" "near s t \<Longrightarrow> sd_err t = sd_err s"
  "near s t \<Longrightarrow> supp_ccs t = supp_ccs s" "near s t \<Longrightarrow> supp_blkcnt t = supp_blkcnt s"
  by (auto simp: near_def supp_ccs_def supp_blkcnt_def)

lemma near_read:
  assumes "near s t" "a \<in> {EMMC_STATUS, EMMC_INTERRUPT, EMMC_RESP0}"
  shows "near s (t\<lparr>hw := snd (bus_read bus (hw t) a)\<rparr>)"
  using read_keeps[OF nearD(1)[OF assms(1)] assms(2)] assms(1) by (intro near_upd) auto

lemma near_wait: "near s t \<Longrightarrow> near s (t\<lparr>hw := bus_wait bus (hw t) us\<rparr>)"
  using wait_law[OF nearD(1)] by (intro near_upd) auto

lemma no_error_bits:
  assumes "ok h"
  shows "fst (bus_read bus h EMMC_INTERRUPT) AND INT_ERROR_MASK = 0"
    "fst (bus_read bus h EMMC_INTERRUPT) AND INT_CMD_TIMEOUT = 0"
    "fst (bus_read bus h EMMC_INTERRUPT) AND INT_DATA_TIMEOUT = 0"
proof -
  let ?v = "fst (bus_read bus h EMMC_INTERRUPT)"
  show e: "?v AND INT_ERROR_MASK = 0" and "?v AND INT_CMD_TIMEOUT = 0"
    using no_errors[OF assms] by (simp_all add: bit.conj_disj_distrib or_eq_0_iff)
  have "INT_DATA_TIMEOUT = INT_ERROR_MASK AND INT_DATA_TIMEOUT"
    by (simp add: INT_DATA_TIMEOUT_def INT_ERROR_MASK_def)
  then have "?v AND INT_DATA_TIMEOUT = (?v AND INT_ERROR_MASK) AND INT_DATA_TIMEOUT"
    by (metis and.assoc)
  then show "?v AND INT_DATA_TIMEOUT = 0" by (simp add: e)
qed

lemma sd_status_ok:
  assumes "ok (hw s)" "phase (hw s) = Quiet" "m = m AND busy_bits"
  shows "\<exists>s'. run_state (sd_status bus m) s = (SD_OK, s') \<and> near s s'"
proof -
  let ?cond = "busy bus m" and ?body = "wait_msec bus 1"
  have mb: "v AND busy_bits \<noteq> 0" if "v AND m \<noteq> 0" for v
  proof
    assume "v AND busy_bits = 0"
    moreover have "v AND m = (v AND busy_bits) AND m" by (subst assms(3)) (simp add: ac_simps)
    ultimately show False using that by simp
  qed
  have cond: "near s (snd (run_state ?cond t)) \<and> late (hw (snd (run_state ?cond t))) \<le> late (hw t)"
    if "near s t" for t
    using near_read[OF that, of EMMC_STATUS] near_read[OF near_read[OF that], of EMMC_STATUS EMMC_INTERRUPT]
      read_keeps[OF nearD(1)[OF that], of EMMC_STATUS]
      read_keeps[OF nearD(1)[OF near_read[OF that]], of EMMC_STATUS EMMC_INTERRUPT]
    by (simp add: busy_def run_simps)
  have late: "0 < late (hw (snd (run_state ?cond t)))" if "near s t" "fst (run_state ?cond t)" for t
  proof -
    let ?t1 = "t\<lparr>hw := snd (bus_read bus (hw t) EMMC_STATUS)\<rparr>"
    have n1: "near s ?t1" using near_read[OF that(1)] by simp
    have "fst (bus_read bus (hw t) EMMC_STATUS) AND m \<noteq> 0"
      using that(2) by (simp add: busy_def run_simps split: if_splits)
    then have "0 < late (hw ?t1)"
      using status_law[OF nearD(1)[OF that(1)]] nearD(2)[OF that(1)] assms(2) mb by simp
    then show ?thesis
      using error_read_late[OF nearD(1)[OF n1]]
      by (simp add: busy_def run_simps)
  qed
  have body: "near s (snd (run_state ?body t)) \<and> late (hw (snd (run_state ?body t))) < late (hw t)"
    if "near s t" "0 < late (hw t)" for t
    using near_wait[OF that(1)] wait_progress[OF nearD(1)[OF that(1)] that(2)] by (simp add: run_simps)
  have p: "0 < fst (run_state (poll 1000000 ?cond ?body) s)
      \<and> near s (snd (run_state (poll 1000000 ?cond ?body) s))"
    using poll_in_time[of "near s" s "\<lambda>t. late (hw t)" 1000000 ?cond ?body] near_refl[OF assms(1)]
      late_bound[OF assms(1)] cond late body by blast
  obtain c t where t: "run_state (poll 1000000 ?cond ?body) s = (c, t)" by force
  then have ct: "0 < c" "near s t" using p by simp_all
  show ?thesis
    using t ct no_error_bits(1)[OF nearD(1)[OF ct(2)]] near_read[OF ct(2), of EMMC_INTERRUPT]
    by (simp add: sd_status_def run_simps)
qed

text \<open>Waiting for the flag of the current phase succeeds and acknowledges it.\<close>

lemma sd_int_ok:
  assumes "ok (hw s)" "phase (hw s) \<noteq> Quiet" "m = flag_of (phase (hw s))"
  shows "\<exists>h. run_state (sd_int bus m) s = (0, s\<lparr>hw := h\<rparr>) \<and> ok h
    \<and> phase h = ack (phase (hw s)) \<and> disk h = disk (hw s)"
proof -
  let ?cond = "no_interrupt bus (m OR INT_ERROR_MASK)" and ?body = "wait_msec bus 1"
  have cond: "near s (snd (run_state ?cond t)) \<and> late (hw (snd (run_state ?cond t))) \<le> late (hw t)"
    if "near s t" for t
    using near_read[OF that, of EMMC_INTERRUPT] read_keeps[OF nearD(1)[OF that], of EMMC_INTERRUPT]
    by (simp add: no_interrupt_def run_simps)
  have late: "0 < late (hw (snd (run_state ?cond t)))" if "near s t" "fst (run_state ?cond t)" for t
  proof -
    have "fst (bus_read bus (hw t) EMMC_INTERRUPT) AND m = 0"
      using that(2) by (simp add: no_interrupt_def run_simps bit.conj_disj_distrib or_eq_0_iff)
    then have "0 < late (hw t)"
      using flag_law[OF nearD(1)[OF that(1)]] nearD(2)[OF that(1)] assms(2,3) by simp
    then show ?thesis
      using error_read_late[OF nearD(1)[OF that(1)]] by (simp add: no_interrupt_def run_simps)
  qed
  have body: "near s (snd (run_state ?body t)) \<and> late (hw (snd (run_state ?body t))) < late (hw t)"
    if "near s t" "0 < late (hw t)" for t
    using near_wait[OF that(1)] wait_progress[OF nearD(1)[OF that(1)] that(2)] by (simp add: run_simps)
  have p: "0 < fst (run_state (poll 1000000 ?cond ?body) s)
      \<and> near s (snd (run_state (poll 1000000 ?cond ?body) s))"
    using poll_in_time[of "near s" s "\<lambda>t. late (hw t)" 1000000 ?cond ?body] near_refl[OF assms(1)]
      late_bound[OF assms(1)] cond late body by blast
  obtain c t where t: "run_state (poll 1000000 ?cond ?body) s = (c, t)" by force
  then have ct: "0 < c" "near s t" using p by simp_all
  let ?h1 = "snd (bus_read bus (hw t) EMMC_INTERRUPT)"
  have n1: "near s (t\<lparr>hw := ?h1\<rparr>)" using near_read[OF ct(2)] by simp
  note e = no_error_bits[OF nearD(1)[OF ct(2)]]
  have h1: "ok ?h1" "phase ?h1 = phase (hw s)" "disk ?h1 = disk (hw s)"
    using nearD(1-3)[OF n1] by simp_all
  have run: "run_state (sd_int bus m) s = (0, t\<lparr>hw := bus_write bus ?h1 EMMC_INTERRUPT m\<rparr>)"
    using t ct(1) e by (simp add: sd_int_def run_simps)
  obtain h0 where "t = s\<lparr>hw := h0\<rparr>" using ct(2) by (auto simp: near_def)
  then show ?thesis
    using run ack_law[OF h1(1)] h1 assms(3) by auto
qed

text \<open>A single-block command takes the controller from rest to the data phase.\<close>

definition data_phase :: "u32 \<Rightarrow> u32 \<Rightarrow> xfer" where
  "data_phase code l = (if code = CMD_READ_SINGLE then ReadData l 0 else WriteData l [])"

lemma sd_cmd_data:
  assumes "ok (hw s)" "phase (hw s) = Quiet" "good (sect arg)"
    and "code = CMD_READ_SINGLE \<or> code = CMD_WRITE_SINGLE"
  shows "\<exists>h v. run_state (sd_cmd bus code arg) s = (v, s\<lparr>sd_err := 0, hw := h\<rparr>) \<and> ok h
    \<and> phase h = data_phase code (sect arg) \<and> disk h = disk (hw s)"
proof -
  let ?s0 = "s\<lparr>sd_err := 0\<rparr>"
  have "SR_CMD_INHIBIT = SR_CMD_INHIBIT AND busy_bits"
    by (simp add: busy_bits_def SR_CMD_INHIBIT_def SR_DAT_INHIBIT_def SR_WRITE_AVAILABLE_def)
  then obtain s1 where s1: "run_state (sd_status bus SR_CMD_INHIBIT) ?s0 = (SD_OK, s1)" "near ?s0 s1"
    using sd_status_ok[of ?s0] assms(1,2) by auto
  obtain h1 where h1: "s1 = s\<lparr>sd_err := 0, hw := h1\<rparr>" "ok h1" "phase h1 = Quiet" "disk h1 = disk (hw s)"
    using s1(2) assms(2) by (auto simp: near_def)
  define h2 where "h2 = snd (bus_read bus h1 EMMC_INTERRUPT)"
  have h2: "ok h2" "phase h2 = Quiet" "disk h2 = disk (hw s)"
    using read_keeps[OF h1(2), of EMMC_INTERRUPT] h1 by (simp_all add: h2_def)
  define h3 where "h3 = bus_write bus h2 EMMC_INTERRUPT (fst (bus_read bus h1 EMMC_INTERRUPT))"
  have h3: "ok h3" "phase h3 = Quiet" "disk h3 = disk (hw s)"
    using quiet_ack[OF h2(1,2)] h2(3) by (simp_all add: h3_def)
  define h4 where "h4 = bus_write bus h3 EMMC_ARG1 arg"
  have h4: "ok h4" "phase h4 = Quiet" "disk h4 = disk (hw s)" "arg1 h4 = arg"
    using arg_law[OF h3(1,2)] h3(3) by (simp_all add: h4_def)
  define h5 where "h5 = bus_write bus h4 EMMC_CMDTM code"
  have h5: "ok h5" "phase h5 \<noteq> Quiet" "flag_of (phase h5) = INT_CMD_DONE" "disk h5 = disk (hw s)"
    "ack (phase h5) = data_phase code (sect arg)"
    using read_cmd[OF h4(1,2)] write_cmd[OF h4(1,2)] h4(3,4) assms(3,4)
    by (auto simp: h5_def data_phase_def CMD_READ_SINGLE_def CMD_WRITE_SINGLE_def)
  obtain h6 where h6: "run_state (sd_int bus INT_CMD_DONE) (s\<lparr>sd_err := 0, hw := h5\<rparr>) =
      (0, s\<lparr>sd_err := 0, hw := h6\<rparr>)" "ok h6" "phase h6 = data_phase code (sect arg)" "disk h6 = disk (hw s)"
    using sd_int_ok[of "s\<lparr>sd_err := 0, hw := h5\<rparr>" INT_CMD_DONE] h5 by auto
  define h7 where "h7 = snd (bus_read bus h6 EMMC_RESP0)"
  have h7: "ok h7" "phase h7 = data_phase code (sect arg)" "disk h7 = disk (hw s)"
    using read_keeps[OF h6(2), of EMMC_RESP0] h6 by (simp_all add: h7_def)
  have codes: "code \<noteq> CMD_SEND_OP_COND" "code \<noteq> CMD_SEND_IF_COND" "code \<noteq> CMD_APP_CMD"
    "code \<noteq> CMD_GO_IDLE" "code \<noteq> CMD_APP_CMD OR CMD_RSPNS_48" "code \<noteq> CMD_ALL_SEND_CID"
    "code \<noteq> CMD_SEND_REL_ADDR" "code AND CMD_NEED_APP = 0"
    using assms(4) by (auto simp: CMD_READ_SINGLE_def CMD_WRITE_SINGLE_def CMD_SEND_OP_COND_def
        CMD_SEND_IF_COND_def CMD_APP_CMD_def CMD_GO_IDLE_def CMD_RSPNS_48_def CMD_ALL_SEND_CID_def
        CMD_SEND_REL_ADDR_def CMD_NEED_APP_def)
  have "run_state (cmd_response bus code arg) (s\<lparr>sd_err := 0, hw := h6\<rparr>) =
      (fst (bus_read bus h6 EMMC_RESP0) AND CMD_ERRORS_MASK, s\<lparr>sd_err := 0, hw := h7\<rparr>)"
    using codes by (simp add: cmd_response_def run_simps h7_def)
  then have "run_state (sd_cmd bus code arg) s =
      (fst (bus_read bus h6 EMMC_RESP0) AND CMD_ERRORS_MASK, s\<lparr>sd_err := 0, hw := h7\<rparr>)"
    using codes s1(1) h6(1) unfolding h1(1)
    by (subst sd_cmd.simps)
       (simp add: send_cmd_def run_simps SD_OK_def h2_def h3_def h4_def h5_def)
  then show ?thesis using h7 by blast
qed

section \<open>Transfers\<close>

lemma read_words_ok:
  assumes "ok (hw s)" "phase (hw s) = ReadData l k" "good l" "k + Suc n = 128"
  shows "\<exists>h. run_state (read_words bus (Suc n)) s =
      (drop k (words_of_bytes (disk (hw s) l)), s\<lparr>hw := h\<rparr>) \<and> ok h \<and> phase h = Quiet
      \<and> disk h = disk (hw s)"
  using assms
proof (induction n arbitrary: s k)
  case 0
  then have k: "k = 127" by simp
  have len: "length (words_of_bytes (disk (hw s) l)) = 128" using disk_length[OF 0(1,3)] by simp
  have "drop 127 ws = [ws ! 127]" if "length ws = 128" for ws :: "u32 list"
    using that by (intro nth_equalityI) auto
  then show ?case
    using read_data[OF 0(1,2,3)] len
    by (intro exI[of _ "snd (bus_read bus (hw s) EMMC_DATA)"]) (simp add: run_simps k)
next
  case (Suc n)
  have len: "length (words_of_bytes (disk (hw s) l)) = 128" using disk_length[OF Suc(2,4)] by simp
  have k: "k < 127" using Suc.prems(4) by simp
  let ?h = "snd (bus_read bus (hw s) EMMC_DATA)"
  have r: "fst (bus_read bus (hw s) EMMC_DATA) = words_of_bytes (disk (hw s) l) ! k" "ok ?h"
    "disk ?h = disk (hw s)" "phase ?h = ReadData l (Suc k)"
    using read_data[OF Suc.prems(1,2,3)] k by simp_all
  obtain h' where "run_state (read_words bus (Suc n)) (s\<lparr>hw := ?h\<rparr>) =
      (drop (Suc k) (words_of_bytes (disk (hw s) l)), s\<lparr>hw := h'\<rparr>)" "ok h'" "phase h' = Quiet"
    "disk h' = disk (hw s)"
    using Suc.IH[of "s\<lparr>hw := ?h\<rparr>" "Suc k"] r Suc.prems(3,4) by auto
  moreover have "words_of_bytes (disk (hw s) l) ! k # drop (Suc k) (words_of_bytes (disk (hw s) l)) =
      drop k (words_of_bytes (disk (hw s) l))"
    by (rule Cons_nth_drop_Suc) (use k len in linarith)
  ultimately show ?case
    using r(1) by (intro exI[of _ h'], subst read_words.simps)
      (simp add: run_simps del: read_words.simps words_of_bytes_nth)
qed

lemma write_words_ok:
  assumes "ok (hw s)" "phase (hw s) = WriteData l pre" "good l" "length pre + length ws = 128" "ws \<noteq> []"
  shows "\<exists>h. run_state (write_words bus ws) s = ((), s\<lparr>hw := h\<rparr>) \<and> ok h \<and> phase h = WriteDone
      \<and> disk h = (disk (hw s))(l := bytes_of_words (pre @ ws))"
  using assms
proof (induction ws arbitrary: s pre)
  case Nil
  then show ?case by simp
next
  case (Cons w ws)
  let ?h = "bus_write bus (hw s) EMMC_DATA w"
  note wl = write_data[OF Cons.prems(1,2,3), of w]
  show ?case
  proof (cases "ws = []")
    case True
    then show ?thesis using wl Cons.prems(4) by (auto simp: run_simps)
  next
    case False
    then have lp: "length pre < 127" using Cons.prems(4) by (cases ws) auto
    have d: "disk (hw (s\<lparr>hw := ?h\<rparr>)) = disk (hw s)" using wl lp by simp
    have p: "ok (hw (s\<lparr>hw := ?h\<rparr>))" "phase (hw (s\<lparr>hw := ?h\<rparr>)) = WriteData l (pre @ [w])"
      "length (pre @ [w]) + length ws = 128" using wl lp Cons.prems(4) by simp_all
    obtain h where h: "run_state (write_words bus ws) (s\<lparr>hw := ?h\<rparr>) = ((), s\<lparr>hw := h\<rparr>)" "ok h"
      "phase h = WriteDone" "disk h = (disk (hw s))(l := bytes_of_words ((pre @ [w]) @ ws))"
      using Cons.IH[of "s\<lparr>hw := ?h\<rparr>" "pre @ [w]", unfolded d, OF p(1,2) Cons.prems(3) p(3) False]
      by (elim exE conjE) (rule that, simp_all only:, simp)
    show ?thesis using h by (intro exI[of _ h]) (simp add: run_simps)
  qed
qed

text \<open>Both ways of starting: one command before the loop, or one per block in the loop.\<close>

lemma start_ok:
  assumes "at_rest phase ok ccs s" "good lba" "code = CMD_READ_SINGLE \<or> code = CMD_WRITE_SINGLE"
  shows "\<exists>s1 h. run_state (start_transfer bus code multi lba 1) s = (False, s1)
    \<and> run_state (block_cmd bus code lba 0) s1 = (False, s\<lparr>sd_err := 0, hw := h\<rparr>)
    \<and> ok h \<and> phase h = data_phase code lba \<and> disk h = disk (hw s)"
proof -
  have d: "ok (hw s)" "phase (hw s) = Quiet" "supp_ccs s = ccs" using assms(1) by (simp_all add: at_rest_def)
  define h0 where "h0 = bus_write bus (hw s) EMMC_BLKSIZECNT (push_bit 16 1 OR 512)"
  have h0: "ok h0" "phase h0 = Quiet" "disk h0 = disk (hw s)"
    using size_law[OF d(1,2)] by (simp_all add: h0_def)
  have sec: "sect (if ccs then lba else lba * 512) = lba" by (rule sect_arg[OF assms(2)])
  have c: "supp_ccs (s\<lparr>sd_err := e, hw := h\<rparr>) = ccs" "supp_ccs (s\<lparr>hw := h\<rparr>) = ccs" for h e
    using d(3) by (simp_all add: supp_ccs_def)
  obtain h v where r: "run_state (sd_cmd bus code (if ccs then lba else lba * 512)) (s\<lparr>hw := h0\<rparr>) =
      (v, s\<lparr>sd_err := 0, hw := h\<rparr>)" "ok h" "phase h = data_phase code lba" "disk h = disk (hw s)"
    using sd_cmd_data[of "s\<lparr>hw := h0\<rparr>" "if ccs then lba else lba * 512" code] h0 assms(2,3) sec by auto
  show ?thesis
  proof (cases ccs)
    case True
    then have "run_state (start_transfer bus code multi lba 1) s = (False, s\<lparr>sd_err := 0, hw := h\<rparr>)"
      using d r(1) by (simp add: start_transfer_def run_simps h0_def)
    moreover have "run_state (block_cmd bus code lba 0) (s\<lparr>sd_err := 0, hw := h\<rparr>) =
        (False, s\<lparr>sd_err := 0, hw := h\<rparr>)"
      using True c by (simp add: block_cmd_def run_simps)
    ultimately show ?thesis using r(2-4) by auto
  next
    case False
    then have "run_state (start_transfer bus code multi lba 1) s = (False, s\<lparr>hw := h0\<rparr>)"
      using d by (simp add: start_transfer_def run_simps h0_def)
    moreover have "run_state (block_cmd bus code lba 0) (s\<lparr>hw := h0\<rparr>) =
        (False, s\<lparr>sd_err := 0, hw := h\<rparr>)"
      using False c r(1) by (simp add: block_cmd_def run_simps)
    ultimately show ?thesis using r(2-4) by auto
  qed
qed

lemma finish_ok:
  "sd_err s = 0 \<Longrightarrow> run_state (finish_transfer bus 1) s = (512, s)"
  by (simp add: finish_transfer_def stop_transfer_def run_simps SD_OK_def)

lemma sd_readblock_ok:
  assumes "at_rest phase ok ccs s" "good lba" "length buf = 512"
  shows "\<exists>s'. run_state (sd_readblock bus lba buf 1) s = ((512, disk (hw s) lba), s')
    \<and> at_rest phase ok ccs s' \<and> disk (hw s') = disk (hw s)"
proof -
  have d: "ok (hw s)" "phase (hw s) = Quiet" "supp_ccs s = ccs" using assms(1) by (simp_all add: at_rest_def)
  have "SR_DAT_INHIBIT = SR_DAT_INHIBIT AND busy_bits"
    by (simp add: busy_bits_def SR_CMD_INHIBIT_def SR_DAT_INHIBIT_def SR_WRITE_AVAILABLE_def)
  then obtain s1 where s1: "run_state (sd_status bus SR_DAT_INHIBIT) s = (SD_OK, s1)" "near s s1"
    using sd_status_ok[OF d(1,2)] by blast
  note n1 = nearD[OF s1(2)]
  have di1: "at_rest phase ok ccs s1" using n1 d by (simp add: at_rest_def)
  obtain s2 h where st: "run_state (start_transfer bus CMD_READ_SINGLE CMD_READ_MULTI lba 1) s1 = (False, s2)"
    "run_state (block_cmd bus CMD_READ_SINGLE lba 0) s2 = (False, s1\<lparr>sd_err := 0, hw := h\<rparr>)"
    "ok h" "phase h = ReadData lba 0" "disk h = disk (hw s)"
    using start_ok[OF di1 assms(2), of CMD_READ_SINGLE CMD_READ_MULTI] n1(3)
    by (auto simp: data_phase_def)
  obtain h2 where h2: "run_state (sd_int bus INT_READ_RDY) (s1\<lparr>sd_err := 0, hw := h\<rparr>) =
      (0, s1\<lparr>sd_err := 0, hw := h2\<rparr>)" "ok h2" "phase h2 = ReadData lba 0" "disk h2 = disk (hw s)"
    using sd_int_ok[of "s1\<lparr>sd_err := 0, hw := h\<rparr>" INT_READ_RDY] st(3-5) by auto
  obtain h3 where h3: "run_state (read_words bus 128) (s1\<lparr>sd_err := 0, hw := h2\<rparr>) =
      (words_of_bytes (disk (hw s) lba), s1\<lparr>sd_err := 0, hw := h3\<rparr>)" "ok h3" "phase h3 = Quiet"
    "disk h3 = disk (hw s)"
    using read_words_ok[of "s1\<lparr>sd_err := 0, hw := h2\<rparr>" lba 0 127] h2 assms(2)
    by (auto simp del: read_words.simps)
  have len: "length (disk (hw s) lba) = 512" using disk_length[OF d(1) assms(2)] .
  have sp: "splice 0 (bytes_of_words (words_of_bytes (disk (hw s) lba))) buf = disk (hw s) lba"
    using len assms(3) bytes_words_roundtrip[of "disk (hw s) lba" 128] by (simp add: splice_def)
  have rb: "run_state (read_blocks bus lba (Suc 0) 0 buf) s2 =
      ((False, disk (hw s) lba), s1\<lparr>sd_err := 0, hw := h3\<rparr>)"
    using st(2) h2(1) h3(1) sp by (simp del: read_words.simps)
  have "run_state (sd_readblock bus lba buf 1) s = ((512, disk (hw s) lba), s1\<lparr>sd_err := 0, hw := h3\<rparr>)"
    using s1(1) st(1) rb finish_ok[of "s1\<lparr>sd_err := 0, hw := h3\<rparr>"]
    by (simp add: sd_readblock_def SD_OK_def del: read_blocks.simps)
  moreover have "at_rest phase ok ccs (s1\<lparr>sd_err := 0, hw := h3\<rparr>)"
    using h3 n1(5) d(3) by (simp add: at_rest_def supp_ccs_def)
  ultimately show ?thesis using h3(4) by auto
qed

lemma sd_writeblock_ok:
  assumes "at_rest phase ok ccs s" "good lba" "length buf = 512"
  shows "\<exists>s'. run_state (sd_writeblock bus buf lba 1) s = (512, s')
    \<and> at_rest phase ok ccs s' \<and> disk (hw s') = (disk (hw s))(lba := buf)"
proof -
  have d: "ok (hw s)" "phase (hw s) = Quiet" "supp_ccs s = ccs" using assms(1) by (simp_all add: at_rest_def)
  have "SR_DAT_INHIBIT OR SR_WRITE_AVAILABLE = (SR_DAT_INHIBIT OR SR_WRITE_AVAILABLE) AND busy_bits"
    by (simp add: busy_bits_def SR_CMD_INHIBIT_def SR_DAT_INHIBIT_def SR_WRITE_AVAILABLE_def)
  then obtain s1 where s1: "run_state (sd_status bus (SR_DAT_INHIBIT OR SR_WRITE_AVAILABLE)) s = (SD_OK, s1)"
    "near s s1"
    using sd_status_ok[OF d(1,2)] by blast
  note n1 = nearD[OF s1(2)]
  have di1: "at_rest phase ok ccs s1" using n1 d by (simp add: at_rest_def)
  obtain s2 h where st: "run_state (start_transfer bus CMD_WRITE_SINGLE CMD_WRITE_MULTI lba 1) s1 = (False, s2)"
    "run_state (block_cmd bus CMD_WRITE_SINGLE lba 0) s2 = (False, s1\<lparr>sd_err := 0, hw := h\<rparr>)"
    "ok h" "phase h = WriteData lba []" "disk h = disk (hw s)"
    using start_ok[OF di1 assms(2), of CMD_WRITE_SINGLE CMD_WRITE_MULTI] n1(3)
    by (auto simp: data_phase_def CMD_READ_SINGLE_def CMD_WRITE_SINGLE_def)
  obtain h2 where h2: "run_state (sd_int bus INT_WRITE_RDY) (s1\<lparr>sd_err := 0, hw := h\<rparr>) =
      (0, s1\<lparr>sd_err := 0, hw := h2\<rparr>)" "ok h2" "phase h2 = WriteData lba []" "disk h2 = disk (hw s)"
    using sd_int_ok[of "s1\<lparr>sd_err := 0, hw := h\<rparr>" INT_WRITE_RDY] st(3-5) by auto
  have lw: "length (words_of_bytes buf) = 128" using assms(3) by simp
  then have ne: "words_of_bytes buf \<noteq> []" by (metis list.size(3) zero_neq_numeral)
  obtain h3 where h3: "run_state (write_words bus (words_of_bytes buf)) (s1\<lparr>sd_err := 0, hw := h2\<rparr>) =
      ((), s1\<lparr>sd_err := 0, hw := h3\<rparr>)" "ok h3" "phase h3 = WriteDone"
    "disk h3 = (disk (hw s))(lba := bytes_of_words (words_of_bytes buf))"
    using write_words_ok[of "s1\<lparr>sd_err := 0, hw := h2\<rparr>" lba "[]" "words_of_bytes buf"] h2 assms(2) lw ne
    by auto
  obtain h4 where h4: "run_state (sd_int bus INT_DATA_DONE) (s1\<lparr>sd_err := 0, hw := h3\<rparr>) =
      (0, s1\<lparr>sd_err := 0, hw := h4\<rparr>)" "ok h4" "phase h4 = Quiet" "disk h4 = disk h3"
    using sd_int_ok[of "s1\<lparr>sd_err := 0, hw := h3\<rparr>" INT_DATA_DONE] h3(2,3) by auto
  have ck: "chunk 0 512 buf = buf" using assms(3) by (simp add: chunk_def)
  have wb: "run_state (write_blocks bus lba (Suc 0) 0 buf) s2 = (False, s1\<lparr>sd_err := 0, hw := h3\<rparr>)"
    using st(2) h2(1) h3(1) ck by simp
  have "run_state (sd_writeblock bus buf lba 1) s = (512, s1\<lparr>sd_err := 0, hw := h4\<rparr>)"
    using s1(1) st(1) wb h4(1) finish_ok[of "s1\<lparr>sd_err := 0, hw := h4\<rparr>"]
    by (simp add: sd_writeblock_def SD_OK_def del: write_blocks.simps)
  moreover have "at_rest phase ok ccs (s1\<lparr>sd_err := 0, hw := h4\<rparr>)"
    using h4 n1(5) d(3) by (simp add: at_rest_def supp_ccs_def)
  moreover have "disk h4 = (disk (hw s))(lba := buf)"
    using h4(4) h3(4) bytes_words_roundtrip[of buf 128] assms(3) by simp
  ultimately show ?thesis by auto
qed

end

text \<open>The driver on such a controller is a block device.\<close>

sublocale emmc_host \<subseteq> drv: block_device "sd_read_fn bus" "sd_write_fn bus" "\<lambda>s. disk (hw s)" good "at_rest phase ok ccs"
proof unfold_locales
  fix s and lba :: u32 and buf :: bytes
  assume s: "at_rest phase ok ccs s" "good lba"
  show "length (disk (hw s) lba) = 512"
    using s by (simp add: disk_length at_rest_def)
  assume "length buf = 512"
  note r = sd_readblock_ok[OF s this] and w = sd_writeblock_ok[OF s this]
  show "fst (snd (sd_read_fn bus s lba buf 1)) = disk (hw s) lba"
    "(\<lambda>s. disk (hw s)) (snd (snd (sd_read_fn bus s lba buf 1))) = disk (hw s)"
    "at_rest phase ok ccs (snd (snd (sd_read_fn bus s lba buf 1)))"
    using r by (auto simp: sd_read_fn_def)
  show "(\<lambda>s. disk (hw s)) (snd (sd_write_fn bus s buf lba 1)) = (disk (hw s))(lba := buf)"
    "at_rest phase ok ccs (snd (sd_write_fn bus s buf lba 1))"
    using w by (auto simp: sd_write_fn_def)
qed

section \<open>A simulated controller\<close>

text \<open>
  A block-addressed card behind a controller whose flags come up two milliseconds after each
  command.
\<close>

record sim =
  sm_phase :: xfer
  sm_disk :: "u32 \<Rightarrow> bytes"
  sm_arg :: u32
  sm_late :: nat

definition sim_read :: "sim \<Rightarrow> u32 \<Rightarrow> u32 \<times> sim" where
  "sim_read h a =
     (if a = EMMC_STATUS then (if sm_late h = 0 then 0 else SR_CMD_INHIBIT, h)
      else if a = EMMC_INTERRUPT then (if sm_late h = 0 then flag_of (sm_phase h) else 0, h)
      else if a = EMMC_DATA then
        (case sm_phase h of
           ReadData l k \<Rightarrow> (words_of_bytes (sm_disk h l) ! k,
             h\<lparr>sm_phase := if k = 127 then Quiet else ReadData l (k + 1)\<rparr>)
         | _ \<Rightarrow> (0, h))
      else (0, h))"

definition sim_write :: "sim \<Rightarrow> u32 \<Rightarrow> u32 \<Rightarrow> sim" where
  "sim_write h a v =
     (if a = EMMC_INTERRUPT then
        (if v AND flag_of (sm_phase h) \<noteq> 0 then h\<lparr>sm_phase := ack (sm_phase h)\<rparr> else h)
      else if a = EMMC_ARG1 then h\<lparr>sm_arg := v\<rparr>
      else if a = EMMC_CMDTM then
        (if v = CMD_READ_SINGLE then h\<lparr>sm_phase := ReadPending (sm_arg h), sm_late := 2\<rparr>
         else if v = CMD_WRITE_SINGLE then h\<lparr>sm_phase := WritePending (sm_arg h), sm_late := 2\<rparr>
         else h)
      else if a = EMMC_DATA then
        (case sm_phase h of
           WriteData l ws \<Rightarrow>
             if length ws = 127
             then h\<lparr>sm_phase := WriteDone, sm_disk := (sm_disk h)(l := bytes_of_words (ws @ [v])), sm_late := 2\<rparr>
             else h\<lparr>sm_phase := WriteData l (ws @ [v])\<rparr>
         | _ \<Rightarrow> h)
      else h)"

definition sim_bus :: "sim bus" where
  "sim_bus = \<lparr>bus_read = sim_read, bus_write = sim_write,
     bus_wait = (\<lambda>h us. h\<lparr>sm_late := sm_late h - 1\<rparr>), bus_spin = (\<lambda>h n. h)\<rparr>"

definition sim_ok :: "sim \<Rightarrow> bool" where
  "sim_ok h \<longleftrightarrow> ram_invar (sm_disk h) \<and> sm_late h \<le> 2"

lemmas register_defs =
  MMIO_BASE_def EMMC_STATUS_def EMMC_INTERRUPT_def EMMC_DATA_def EMMC_ARG1_def EMMC_CMDTM_def
  EMMC_RESP0_def EMMC_BLKSIZECNT_def

lemma register_distinct:
  "EMMC_STATUS \<noteq> EMMC_INTERRUPT" "EMMC_STATUS \<noteq> EMMC_DATA" "EMMC_INTERRUPT \<noteq> EMMC_DATA"
  "EMMC_RESP0 \<noteq> EMMC_STATUS" "EMMC_RESP0 \<noteq> EMMC_INTERRUPT" "EMMC_RESP0 \<noteq> EMMC_DATA"
  "EMMC_ARG1 \<noteq> EMMC_INTERRUPT" "EMMC_CMDTM \<noteq> EMMC_INTERRUPT" "EMMC_CMDTM \<noteq> EMMC_ARG1"
  "EMMC_BLKSIZECNT \<noteq> EMMC_INTERRUPT" "EMMC_BLKSIZECNT \<noteq> EMMC_ARG1" "EMMC_BLKSIZECNT \<noteq> EMMC_CMDTM"
  "EMMC_BLKSIZECNT \<noteq> EMMC_DATA" "EMMC_DATA \<noteq> EMMC_INTERRUPT" "EMMC_DATA \<noteq> EMMC_ARG1"
  "EMMC_DATA \<noteq> EMMC_CMDTM" "EMMC_DATA \<noteq> EMMC_STATUS" "EMMC_INTERRUPT \<noteq> EMMC_STATUS"
  "CMD_WRITE_SINGLE \<noteq> CMD_READ_SINGLE"
  by (simp_all add: register_defs CMD_WRITE_SINGLE_def CMD_READ_SINGLE_def)

lemma flag_values:
  "flag_of p AND (INT_ERROR_MASK OR INT_CMD_TIMEOUT) = 0"
  "p \<noteq> Quiet \<Longrightarrow> flag_of p \<noteq> 0" "flag_of p = 0 \<Longrightarrow> p = Quiet"
  by (cases p; simp add: INT_ERROR_MASK_def INT_CMD_TIMEOUT_def INT_CMD_DONE_def INT_READ_RDY_def
      INT_WRITE_RDY_def INT_DATA_DONE_def)+

lemma length_bytes_block: "length ws = 127 \<Longrightarrow> length (bytes_of_words (ws @ [v])) = 512"
  by simp

interpretation sim: emmc_host sim_bus sm_phase sm_disk sm_arg sm_late sim_ok "\<lambda>a. a" True "\<lambda>_. True"
proof (unfold_locales, goal_cases)
  case (11 h)
  then show ?case
    by (cases "sm_phase h") (auto simp: sim_bus_def sim_write_def sim_ok_def flag_values
          INT_CMD_DONE_def INT_DATA_DONE_def)
qed (auto simp: sim_bus_def sim_read_def sim_write_def sim_ok_def register_distinct
       register_distinct[THEN not_sym] flag_values
       ram_invar_def length_bytes_block busy_bits_def SR_CMD_INHIBIT_def SR_DAT_INHIBIT_def
       SR_WRITE_AVAILABLE_def split: if_splits)

section \<open>What the FAT32 code gets\<close>

context emmc_host
begin

lemma driver_device:
  "block_device (sd_read_fn bus) (sd_write_fn bus) (\<lambda>s. disk (hw s)) good (at_rest phase ok ccs)"
  by (rule drv.block_device_axioms)

end



text \<open>
  A block written with \<open>sd_writeblock\<close> and read with \<open>sd_readblock\<close> comes back unchanged; both
  calls report 512 bytes, and no other block of the card changes.
\<close>

theorem sd_write_then_read:
  assumes "emmc_host bus phase disk arg1 late ok sect ccs good" "at_rest phase ok ccs s" "good lba"
    and "length data = 512" "length buf = 512"
  shows "\<exists>s1 s2. run_state (sd_writeblock bus data lba 1) s = (512, s1)
    \<and> run_state (sd_readblock bus lba buf 1) s1 = ((512, data), s2)
    \<and> disk (hw s2) = (disk (hw s))(lba := data) \<and> at_rest phase ok ccs s2"
proof -
  obtain s1 where s1: "run_state (sd_writeblock bus data lba 1) s = (512, s1)" "at_rest phase ok ccs s1"
    "disk (hw s1) = (disk (hw s))(lba := data)"
    using emmc_host.sd_writeblock_ok[OF assms(1-4)] by blast
  obtain s2 where "run_state (sd_readblock bus lba buf 1) s1 = ((512, disk (hw s1) lba), s2)"
    "at_rest phase ok ccs s2" "disk (hw s2) = disk (hw s1)"
    using emmc_host.sd_readblock_ok[OF assms(1) s1(2) assms(3,5)] by blast
  then show ?thesis using s1 by auto
qed

text \<open>The simulated card of the witnesses, holding zeros, with the driver's globals after set-up.\<close>

definition demo_sd :: "(u32 \<Rightarrow> bytes) \<Rightarrow> sim sd" where
  "demo_sd d = \<lparr>hw = \<lparr>sm_phase = Quiet, sm_disk = d, sm_arg = 0, sm_late = 1\<rparr>,
     sd_scr0 = SCR_SUPP_CCS, sd_scr1 = 0, sd_err = 0, sd_hv = 2, sd_rca = 0x10000\<rparr>"

lemma demo_sd_rest: "ram_invar d \<Longrightarrow> at_rest sm_phase sim_ok True (demo_sd d)"
  by (simp add: at_rest_def demo_sd_def sim_ok_def supp_ccs_def SCR_SUPP_CCS_def)

theorem sd_write_then_read_witness:
  "\<exists>s1 s2. run_state (sd_writeblock sim_bus (replicate 512 7) 9 1) (demo_sd (\<lambda>_. replicate 512 0)) = (512, s1)
    \<and> run_state (sd_readblock sim_bus 9 (replicate 512 1) 1) s1 = ((512, replicate 512 7), s2)
    \<and> sm_disk (hw s2) = (sm_disk (hw (demo_sd (\<lambda>_. replicate 512 0))))(9 := replicate 512 7)
    \<and> at_rest sm_phase sim_ok True s2"
  by (rule sd_write_then_read [OF sim.emmc_host_axioms])
     (simp_all add: demo_sd_rest ram_invar_def)

section \<open>A controller that stays busy\<close>

text \<open>
  C40: the driver gives up on a controller that stays busy. While the data line is reported busy
  \<open>sd_readblock\<close> polls at most a million and one times, then returns 0 with \<open>sd_err\<close> set to the
  timeout; it has written no register and left the caller's buffer alone.
\<close>

theorem sd_readblock_gives_up:
  assumes "stuck (hw s)"
    and "\<And>h. stuck h \<Longrightarrow> fst (bus_read bus h EMMC_STATUS) AND SR_DAT_INHIBIT \<noteq> 0
          \<and> stuck (snd (bus_read bus h EMMC_STATUS))"
    and "\<And>h. stuck h \<Longrightarrow> fst (bus_read bus h EMMC_INTERRUPT) AND INT_ERROR_MASK = 0
          \<and> stuck (snd (bus_read bus h EMMC_INTERRUPT))"
    and "\<And>h. stuck h \<Longrightarrow> stuck (bus_wait bus h 1000)"
  shows "\<exists>h. run_state (sd_readblock bus lba buf num) s = ((0, buf), s\<lparr>hw := h, sd_err := SD_TIMEOUT\<rparr>)
    \<and> stuck h"
proof -
  let ?I = "\<lambda>t. \<exists>h. t = s\<lparr>hw := h\<rparr> \<and> stuck h"
  let ?cond = "busy bus SR_DAT_INHIBIT" and ?body = "wait_msec bus 1"
  have i0: "?I s" using assms(1) by (intro exI[of _ "hw s"]) simp
  have cond: "fst (run_state ?cond t) \<and> ?I (snd (run_state ?cond t))" if "?I t" for t
    using that assms(2,3) by (auto simp: busy_def run_simps)
  have body: "?I (snd (run_state ?body t))" if "?I t" for t
    using that assms(4) by (auto simp: run_simps)
  have p: "fst (run_state (poll 1000000 ?cond ?body) s) = - 1
      \<and> ?I (snd (run_state (poll 1000000 ?cond ?body) s))"
    by (rule poll_stuck[where I = ?I]) (fact i0, rule cond, assumption, rule body, assumption)
  obtain c t where t: "run_state (poll 1000000 ?cond ?body) s = (c, t)" by force
  then have "c = - 1" "?I t" using p by simp_all
  then show ?thesis
    using t by (auto simp: sd_readblock_def sd_status_def run_simps SD_ERROR_def SD_OK_def Let_def)
qed

text \<open>A controller whose status register always reads 2.\<close>

definition stuck_bus :: "unit bus" where
  "stuck_bus = \<lparr>bus_read = (\<lambda>h a. (if a = EMMC_STATUS then SR_DAT_INHIBIT else 0, h)),
     bus_write = (\<lambda>h a v. h), bus_wait = (\<lambda>h us. h), bus_spin = (\<lambda>h n. h)\<rparr>"

definition stuck_sd :: "unit sd" where
  "stuck_sd = \<lparr>hw = (), sd_scr0 = 0, sd_scr1 = 0, sd_err = 0, sd_hv = 2, sd_rca = 0\<rparr>"

theorem sd_readblock_gives_up_witness:
  "\<exists>h. run_state (sd_readblock stuck_bus 3 [1, 2] 1) stuck_sd = ((0, [1, 2]),
      stuck_sd\<lparr>hw := h, sd_err := SD_TIMEOUT\<rparr>) \<and> True"
  by (rule sd_readblock_gives_up [where stuck = "\<lambda>_. True"])
     (simp_all add: stuck_bus_def SR_DAT_INHIBIT_def register_distinct)

end
