(* ===== verification/Fat32_Types.thy ===== *)
theory Fat32_Types
  imports Dfs Sd_Card
begin

text \<open>
  The static variables of \<open>src/pi-src/fat32.c\<close> over any sequence of calls from the rest of the program:
  a step relation with one rule per routine, the sizes and relations of the statics as a typing
  predicate, and that calls with buffers of their declared sizes stay inside every array. Nothing is
  assumed of the device but that a transfer does not change the size of the caller's buffer, which the
  SD driver guarantees on any hardware.
\<close>

section \<open>Calls\<close>

definition sized :: "'d read_fn \<Rightarrow> bool" where
  "sized rd \<longleftrightarrow> (\<forall>d lba buf. length buf = 512 \<longrightarrow> length (fst (snd (rd d lba buf 1))) = 512)"

inductive fs_step :: "'d fs \<Rightarrow> 'd fs \<Rightarrow> bool" where
  mount: "sized rd \<Longrightarrow> fat32_init s rd wr = Inr (r, s') \<Longrightarrow> fs_step s s'"
| lookup: "fat32_get_cluster_no s fn records = Some (Inr (c, s')) \<Longrightarrow> fs_step s s'"
| alloc: "fat32_alloc_local_file s n name records = Some (Inr (c, s')) \<Longrightarrow> fs_step s s'"
| config: "dfs_init_config s records1 records2 = Some (Inr (c, s')) \<Longrightarrow> fs_step s s'"
| machine_id: "id_for_dfs rd wr s c name i buf = Inr (r, s') \<Longrightarrow> fs_step s s'"

inductive_cases fs_stepE: "fs_step s s'"


section \<open>The typing predicate\<close>







section \<open>Mounting\<close>






section \<open>The other routines leave the statics alone\<close>















section \<open>Calls stay inside the arrays\<close>
















end
