(* ===== verification/Crc32.thy ===== *)
theory Crc32
  imports Prelude
begin

text \<open>
  The checksum of the boot protocol (\<open>src/mac-src/boot-crc32.h\<close>): the table, the incremental routine
  and the routine on a whole buffer. The lemmas show that the table-driven routine computes
  the bit-by-bit division by the CRC-32 polynomial, and which corruptions of a program it detects.
\<close>

section \<open>The code\<close>

definition crc32_tab :: "u32 list" where
  "crc32_tab =
    [0x00000000, 0x77073096, 0xee0e612c, 0x990951ba, 0x076dc419, 0x706af48f, 0xe963a535, 0x9e6495a3,
     0x0edb8832, 0x79dcb8a4, 0xe0d5e91e, 0x97d2d988, 0x09b64c2b, 0x7eb17cbd, 0xe7b82d07, 0x90bf1d91,
     0x1db71064, 0x6ab020f2, 0xf3b97148, 0x84be41de, 0x1adad47d, 0x6ddde4eb, 0xf4d4b551, 0x83d385c7,
     0x136c9856, 0x646ba8c0, 0xfd62f97a, 0x8a65c9ec, 0x14015c4f, 0x63066cd9, 0xfa0f3d63, 0x8d080df5,
     0x3b6e20c8, 0x4c69105e, 0xd56041e4, 0xa2677172, 0x3c03e4d1, 0x4b04d447, 0xd20d85fd, 0xa50ab56b,
     0x35b5a8fa, 0x42b2986c, 0xdbbbc9d6, 0xacbcf940, 0x32d86ce3, 0x45df5c75, 0xdcd60dcf, 0xabd13d59,
     0x26d930ac, 0x51de003a, 0xc8d75180, 0xbfd06116, 0x21b4f4b5, 0x56b3c423, 0xcfba9599, 0xb8bda50f,
     0x2802b89e, 0x5f058808, 0xc60cd9b2, 0xb10be924, 0x2f6f7c87, 0x58684c11, 0xc1611dab, 0xb6662d3d,
     0x76dc4190, 0x01db7106, 0x98d220bc, 0xefd5102a, 0x71b18589, 0x06b6b51f, 0x9fbfe4a5, 0xe8b8d433,
     0x7807c9a2, 0x0f00f934, 0x9609a88e, 0xe10e9818, 0x7f6a0dbb, 0x086d3d2d, 0x91646c97, 0xe6635c01,
     0x6b6b51f4, 0x1c6c6162, 0x856530d8, 0xf262004e, 0x6c0695ed, 0x1b01a57b, 0x8208f4c1, 0xf50fc457,
     0x65b0d9c6, 0x12b7e950, 0x8bbeb8ea, 0xfcb9887c, 0x62dd1ddf, 0x15da2d49, 0x8cd37cf3, 0xfbd44c65,
     0x4db26158, 0x3ab551ce, 0xa3bc0074, 0xd4bb30e2, 0x4adfa541, 0x3dd895d7, 0xa4d1c46d, 0xd3d6f4fb,
     0x4369e96a, 0x346ed9fc, 0xad678846, 0xda60b8d0, 0x44042d73, 0x33031de5, 0xaa0a4c5f, 0xdd0d7cc9,
     0x5005713c, 0x270241aa, 0xbe0b1010, 0xc90c2086, 0x5768b525, 0x206f85b3, 0xb966d409, 0xce61e49f,
     0x5edef90e, 0x29d9c998, 0xb0d09822, 0xc7d7a8b4, 0x59b33d17, 0x2eb40d81, 0xb7bd5c3b, 0xc0ba6cad,
     0xedb88320, 0x9abfb3b6, 0x03b6e20c, 0x74b1d29a, 0xead54739, 0x9dd277af, 0x04db2615, 0x73dc1683,
     0xe3630b12, 0x94643b84, 0x0d6d6a3e, 0x7a6a5aa8, 0xe40ecf0b, 0x9309ff9d, 0x0a00ae27, 0x7d079eb1,
     0xf00f9344, 0x8708a3d2, 0x1e01f268, 0x6906c2fe, 0xf762575d, 0x806567cb, 0x196c3671, 0x6e6b06e7,
     0xfed41b76, 0x89d32be0, 0x10da7a5a, 0x67dd4acc, 0xf9b9df6f, 0x8ebeeff9, 0x17b7be43, 0x60b08ed5,
     0xd6d6a3e8, 0xa1d1937e, 0x38d8c2c4, 0x4fdff252, 0xd1bb67f1, 0xa6bc5767, 0x3fb506dd, 0x48b2364b,
     0xd80d2bda, 0xaf0a1b4c, 0x36034af6, 0x41047a60, 0xdf60efc3, 0xa867df55, 0x316e8eef, 0x4669be79,
     0xcb61b38c, 0xbc66831a, 0x256fd2a0, 0x5268e236, 0xcc0c7795, 0xbb0b4703, 0x220216b9, 0x5505262f,
     0xc5ba3bbe, 0xb2bd0b28, 0x2bb45a92, 0x5cb36a04, 0xc2d7ffa7, 0xb5d0cf31, 0x2cd99e8b, 0x5bdeae1d,
     0x9b64c2b0, 0xec63f226, 0x756aa39c, 0x026d930a, 0x9c0906a9, 0xeb0e363f, 0x72076785, 0x05005713,
     0x95bf4a82, 0xe2b87a14, 0x7bb12bae, 0x0cb61b38, 0x92d28e9b, 0xe5d5be0d, 0x7cdcefb7, 0x0bdbdf21,
     0x86d3d2d4, 0xf1d4e242, 0x68ddb3f8, 0x1fda836e, 0x81be16cd, 0xf6b9265b, 0x6fb077e1, 0x18b74777,
     0x88085ae6, 0xff0f6a70, 0x66063bca, 0x11010b5c, 0x8f659eff, 0xf862ae69, 0x616bffd3, 0x166ccf45,
     0xa00ae278, 0xd70dd2ee, 0x4e048354, 0x3903b3c2, 0xa7672661, 0xd06016f7, 0x4969474d, 0x3e6e77db,
     0xaed16a4a, 0xd9d65adc, 0x40df0b66, 0x37d83bf0, 0xa9bcae53, 0xdebb9ec5, 0x47b2cf7f, 0x30b5ffe9,
     0xbdbdf21c, 0xcabac28a, 0x53b39330, 0x24b4a3a6, 0xbad03605, 0xcdd70693, 0x54de5729, 0x23d967bf,
     0xb3667a2e, 0xc4614ab8, 0x5d681b02, 0x2a6f2b94, 0xb40bbe37, 0xc30c8ea1, 0x5a05df1b, 0x2d02ef8d]"

text \<open>The loop \<open>while (size--)\<close>; reading past the buffer has no defined result.\<close>

definition crc_step :: "u32 \<Rightarrow> u8 \<Rightarrow> u32" where
  "crc_step crc b = crc32_tab ! unat ((crc XOR ucast b) AND 0xFF) XOR drop_bit 8 crc"

fun crc_loop :: "bytes \<Rightarrow> nat \<Rightarrow> nat \<Rightarrow> u32 \<Rightarrow> u32 option" where
  "crc_loop buf i 0 crc = Some crc"
| "crc_loop buf i (Suc n) crc =
     (case rd_at buf i of
        None \<Rightarrow> None
      | Some b \<Rightarrow> crc_loop buf (Suc i) n (crc_step crc b))"

definition crc32_inc :: "bytes \<Rightarrow> u32 \<Rightarrow> u32 \<Rightarrow> u32 option" where
  "crc32_inc buf size0 crc =
     (case crc_loop buf 0 (unat size0) (crc XOR NOT 0) of
        None \<Rightarrow> None
      | Some c \<Rightarrow> Some (c XOR NOT 0))"

definition crc32 :: "bytes \<Rightarrow> u32 \<Rightarrow> u32 option" where
  "crc32 buf size0 = crc32_inc buf size0 0"

section \<open>Reference: division bit by bit\<close>

text \<open>One bit of the reflected division by the polynomial \<open>0x04C11DB7\<close>.\<close>

definition crc_bit :: "u32 \<Rightarrow> u32" where
  "crc_bit c = (if bit c 0 then drop_bit 1 c XOR 0xEDB88320 else drop_bit 1 c)"

definition crc_byte :: "u32 \<Rightarrow> u32" where
  "crc_byte c = crc_bit (crc_bit (crc_bit (crc_bit (crc_bit (crc_bit (crc_bit (crc_bit c)))))))"

fun crc_bytes :: "u32 \<Rightarrow> bytes \<Rightarrow> u32" where
  "crc_bytes c [] = c"
| "crc_bytes c (b # bs) = crc_bytes (crc_byte (c XOR ucast b)) bs"

definition crc32_bitwise :: "bytes \<Rightarrow> u32" where
  "crc32_bitwise bs = NOT (crc_bytes (NOT 0) bs)"

lemma crc_bit_eval:
  "crc_bit c = (if c AND 1 = 0 then drop_bit 1 c else drop_bit 1 c XOR 0xEDB88320)"
  by (simp add: crc_bit_def bit_0 and_one_eq odd_iff_mod_2_eq_one)


lemma crc_bit_xor: "crc_bit (a XOR b) = crc_bit a XOR crc_bit b"
proof (rule bit_word_eqI)
  fix n assume "n < LENGTH(32)"
  then show "bit (crc_bit (a XOR b)) n = bit (crc_bit a XOR crc_bit b) n"
    by (auto simp: crc_bit_def bit_simps)
qed

lemma crc_byte_xor: "crc_byte (a XOR b) = crc_byte a XOR crc_byte b"
  by (simp add: crc_byte_def crc_bit_xor)

text \<open>The table is the linear function it should be: rows and columns, then their sums.\<close>

definition crc_low :: "u32 list" where
  "crc_low = [0x00000000, 0x77073096, 0xee0e612c, 0x990951ba, 0x076dc419, 0x706af48f, 0xe963a535, 0x9e6495a3, 0x0edb8832, 0x79dcb8a4, 0xe0d5e91e, 0x97d2d988, 0x09b64c2b, 0x7eb17cbd, 0xe7b82d07, 0x90bf1d91]"

definition crc_high :: "u32 list" where
  "crc_high = [0x00000000, 0x1db71064, 0x3b6e20c8, 0x26d930ac, 0x76dc4190, 0x6b6b51f4, 0x4db26158, 0x5005713c, 0xedb88320, 0xf00f9344, 0xd6d6a3e8, 0xcb61b38c, 0x9b64c2b0, 0x86d3d2d4, 0xa00ae278, 0xbdbdf21c]"

lemma crc_low_entries: "crc_low = map crc_byte [0, 1, 2, 3, 4, 5, 6, 7, 8, 9, 10, 11, 12, 13, 14, 15]"
  by (simp add: crc_low_def crc_byte_def crc_bit_eval)

lemma crc_high_entries:
  "crc_high = map crc_byte [0, 16, 32, 48, 64, 80, 96, 112, 128, 144, 160, 176, 192, 208, 224, 240]"
  by (simp add: crc_high_def crc_byte_def crc_bit_eval)

lemma crc32_tab_grid: "crc32_tab = concat (map (\<lambda>h. map (\<lambda>l. h XOR l) crc_low) crc_high)"
  by (simp add: crc32_tab_def crc_low_def crc_high_def)

lemma nth_concat_grid:
  assumes "\<And>x. x \<in> set xs \<Longrightarrow> length (f x) = n" "i < length xs" "j < n"
  shows "concat (map f xs) ! (n * i + j) = f (xs ! i) ! j"
  using assms
proof (induction xs arbitrary: i)
  case (Cons x xs)
  have x: "length (f x) = n" using Cons.prems(1) by simp
  show ?case
  proof (cases i)
    case 0
    then show ?thesis using x Cons.prems(3) by (simp add: nth_append)
  next
    case (Suc k)
    have "concat (map f xs) ! (n * k + j) = f (xs ! k) ! j"
      using Cons.prems Suc by (intro Cons.IH) auto
    then show ?thesis using x Suc by (simp add: nth_append)
  qed
qed simp

lemma grid_index_high:
  assumes "i < 16"
  shows "crc_high ! i = crc_byte (of_nat (16 * i))"
proof -
  have "[0, 16, 32, 48, 64, 80, 96, 112, 128, 144, 160, 176, 192, 208, 224, 240] =
      map (\<lambda>i. of_nat (16 * i) :: u32) [0..<16]"
    by (simp add: upt_rec)
  then show ?thesis using assms by (simp add: crc_high_entries)
qed

lemma grid_index_low:
  assumes "j < 16"
  shows "crc_low ! j = crc_byte (of_nat j)"
proof -
  have "[0, 1, 2, 3, 4, 5, 6, 7, 8, 9, 10, 11, 12, 13, 14, 15] = map (\<lambda>j. of_nat j :: u32) [0..<16]"
    by (simp add: upt_rec)
  then show ?thesis using assms by (simp add: crc_low_entries)
qed

lemma crc32_tab_nth:
  assumes "k < 256"
  shows "crc32_tab ! k = crc_byte (of_nat k)"
proof -
  define i j where "i = k div 16" and "j = k mod 16"
  have k: "k = 16 * i + j" "i < 16" "j < 16" using assms by (simp_all add: i_def j_def)
  have len: "length crc_high = 16" "length crc_low = 16" by (simp_all add: crc_high_def crc_low_def)
  have "crc32_tab ! k = crc_high ! i XOR crc_low ! j"
    unfolding crc32_tab_grid k(1) using k len by (subst nth_concat_grid[where n = 16]) auto
  also have "\<dots> = crc_byte (of_nat (16 * i) XOR of_nat j)"
    using k by (simp add: grid_index_high grid_index_low crc_byte_xor)
  also have "(of_nat (16 * i) XOR of_nat j :: u32) = of_nat k"
  proof -
    have "push_bit 4 (drop_bit 4 k) XOR take_bit 4 k = k"
      by (rule bit_eqI) (auto simp: bit_simps)
    then have "16 * i XOR j = k"
      by (simp add: i_def j_def push_bit_eq_mult drop_bit_eq_div take_bit_eq_mod mult.commute)
    then show ?thesis by (metis of_nat_xor_eq)
  qed
  finally show ?thesis .
qed

section \<open>Table against bits\<close>

lemma crc_bit_shift:
  assumes "w AND mask (Suc n) = 0"
  shows "crc_bit w = drop_bit 1 w" "crc_bit w AND mask n = 0"
proof -
  have b: "\<not> bit w i" if "i \<le> n" for i
  proof -
    have "bit (w AND mask (Suc n)) i = (bit w i \<and> i < LENGTH(32))"
      using that by (auto simp: bit_simps)
    then show ?thesis using assms bit_imp_le_length[of w i] by auto
  qed
  show d: "crc_bit w = drop_bit 1 w" using b[of 0] by (simp add: crc_bit_def)
  show "crc_bit w AND mask n = 0"
    unfolding d using b by (intro bit_word_eqI) (auto simp: bit_simps)
qed

lemma crc_byte_shift:
  assumes "w AND 0xFF = 0"
  shows "crc_byte w = drop_bit 8 w"
proof -
  define f where "f i = (crc_bit ^^ i) w" for i
  have m8: "w AND mask 8 = 0" using assms by (simp add: mask_eq_exp_minus_1)
  have "i \<le> 8 \<Longrightarrow> f i = drop_bit i w \<and> f i AND mask (8 - i) = 0" for i
  proof (induction i)
    case 0
    then show ?case using m8 by (simp add: f_def)
  next
    case (Suc i)
    have i8: "Suc (8 - Suc i) = 8 - i" using Suc.prems by simp
    have "f i = drop_bit i w \<and> f i AND mask (8 - i) = 0"
      by (rule Suc.IH) (use Suc.prems in simp)
    then have ih: "f i = drop_bit i w" "f i AND mask (Suc (8 - Suc i)) = 0"
      unfolding i8 by blast+
    have "f (Suc i) = crc_bit (f i)" by (simp add: f_def)
    then show ?case using crc_bit_shift[OF ih(2)] ih(1) by (simp add: drop_bit_drop_bit)
  qed
  from this[of 8] show ?thesis by (simp add: f_def crc_byte_def numeral_eq_Suc)
qed

lemma crc_step_byte: "crc_step crc b = crc_byte (crc XOR ucast b)"
proof -
  let ?x = "crc XOR ucast b"
  have k: "unat (?x AND 0xFF) < 256"
    using word_and_le1[of ?x "0xFF"] by (simp add: word_le_nat_alt)
  have "?x = (?x AND 0xFF) XOR (?x AND NOT 0xFF)"
    by (rule bit_word_eqI) (auto simp: bit_simps)
  then have "crc_byte ?x = crc_byte (?x AND 0xFF) XOR crc_byte (?x AND NOT 0xFF)"
    by (metis crc_byte_xor)
  also have "crc_byte (?x AND NOT 0xFF) = drop_bit 8 crc"
  proof -
    have m8: "(0xFF :: u32) = mask 8" by (simp add: mask_eq_exp_minus_1)
    have "drop_bit 8 (?x AND NOT 0xFF) = drop_bit 8 crc"
      unfolding m8 by (rule bit_word_eqI) (auto simp: bit_simps dest: bit_imp_le_length)
    then show ?thesis by (subst crc_byte_shift) (simp_all add: and.assoc)
  qed
  finally show ?thesis using crc32_tab_nth[OF k] by (simp add: crc_step_def)
qed

lemma crc_loop_run:
  "i + n \<le> length buf \<Longrightarrow> crc_loop buf i n crc = Some (crc_bytes crc (chunk i n buf))"
proof (induction n arbitrary: i crc)
  case (Suc n)
  have "chunk i (Suc n) buf = buf ! i # chunk (Suc i) n buf"
    using Suc.prems by (simp add: chunk_def flip: Cons_nth_drop_Suc)
  then show ?case using Suc by (simp add: crc_step_byte)
qed (simp add: chunk_def)

lemma crc32_eq: "unat n \<le> length buf \<Longrightarrow> crc32 buf n = Some (crc32_bitwise (take (unat n) buf))"
  using crc_loop_run[of 0 "unat n" buf]
  by (simp add: crc32_def crc32_inc_def crc32_bitwise_def chunk_def)

text \<open>
  C25: the table-driven checksum is the CRC-32 of the first \<open>size\<close> bytes: dividing bit by bit
  by the reflected polynomial, starting from all ones and complementing the result, gives the same word.
\<close>

theorem crc32_correct:
  assumes "unat n \<le> length buf"
  shows "crc32 buf n = Some (crc32_bitwise (take (unat n) buf))"
  using assms by (rule crc32_eq)

theorem crc32_correct_witness:
  "crc32 [0x31, 0x32, 0x33] 3 = Some (crc32_bitwise (take (unat (3 :: u32)) [0x31, 0x32, 0x33]))"
  by (rule crc32_correct) simp

section \<open>What it detects\<close>

lemma crc_bit_eq_0: "crc_bit x = 0 \<Longrightarrow> x = 0"
proof -
  assume z: "crc_bit x = 0"
  have "bit (crc_bit x) 31 = bit x 0"
    by (auto simp: crc_bit_def bit_simps dest: bit_imp_le_length)
  then have b0: "\<not> bit x 0" using z by simp
  then have d: "drop_bit 1 x = 0" using z by (simp add: crc_bit_def)
  show "x = 0"
  proof (rule bit_word_eqI)
    fix n assume "n < LENGTH(32)"
    have "bit (drop_bit 1 x) (n - 1) = False" using d by simp
    then show "bit x n = bit (0 :: u32) n" using b0 by (cases n) (auto simp: bit_simps)
  qed
qed

lemma xor_eq_0_iff: "(a :: u32) XOR b = 0 \<longleftrightarrow> a = b"
  by (auto simp: bit_eq_iff bit_simps)

lemma crc_bit_inj: "crc_bit a = crc_bit b \<Longrightarrow> a = b"
  using crc_bit_eq_0[of "a XOR b"] by (simp add: crc_bit_xor xor_eq_0_iff)

lemma crc_byte_inj: "crc_byte a = crc_byte b \<longleftrightarrow> a = b"
  unfolding crc_byte_def by (auto dest!: crc_bit_inj)

lemma crc_bytes_append: "crc_bytes c (xs @ ys) = crc_bytes (crc_bytes c xs) ys"
  by (induction xs arbitrary: c) auto

lemma crc_bytes_inj: "crc_bytes c xs = crc_bytes d xs \<longleftrightarrow> c = d"
proof (induction xs arbitrary: c d)
  case (Cons x xs)
  have "c XOR ucast x = d XOR ucast x \<longleftrightarrow> c = d"
    by (auto simp: bit_eq_iff bit_simps)
  then show ?case by (simp add: Cons.IH crc_byte_inj)
qed simp

text \<open>Up to four bytes as one little-endian word, and their effect on the register.\<close>

fun burst_word :: "bytes \<Rightarrow> u32" where
  "burst_word [] = 0"
| "burst_word (b # bs) = ucast b XOR push_bit 8 (burst_word bs)"

lemma burst_word_bits: "bit (burst_word bs) n \<Longrightarrow> n < 8 * length bs"
proof (induction bs arbitrary: n)
  case (Cons b bs)
  consider "bit b n" | "8 \<le> n" "bit (burst_word bs) (n - 8)"
    using Cons.prems by (auto simp: bit_simps)
  then show ?case
  proof cases
    case 1
    then show ?thesis using bit_imp_le_length[of b n] by simp
  next
    case 2
    then show ?thesis using Cons.IH[of "n - 8"] by simp
  qed
qed simp

lemma burst_word_inj:
  "length xs = length ys \<Longrightarrow> length xs \<le> 4 \<Longrightarrow> burst_word xs = burst_word ys \<Longrightarrow> xs = ys"
proof (induction xs ys rule: list_induct2)
  case (Cons x xs y ys)
  have lo: "ucast (burst_word (b # bs)) = b" for b bs
    by (rule bit_word_eqI) (auto simp: bit_simps)
  have up: "drop_bit 8 (burst_word (b # bs)) = burst_word bs" if "length bs \<le> 3" for b bs
  proof (rule bit_word_eqI)
    fix n assume "n < LENGTH(32)"
    have "bit (burst_word bs) n \<Longrightarrow> n < 24" using that burst_word_bits[of bs n] by simp
    then show "bit (drop_bit 8 (burst_word (b # bs))) n = bit (burst_word bs) n"
      by (auto simp: bit_simps dest: bit_imp_le_length)
  qed
  have "x = y" using lo Cons.prems(2) by metis
  moreover have "burst_word xs = burst_word ys"
  proof -
    have l: "length xs \<le> 3" "length ys \<le> 3" using Cons.prems Cons.hyps by simp_all
    have "burst_word xs = drop_bit 8 (burst_word (x # xs))" by (rule up[OF l(1), symmetric])
    also have "\<dots> = drop_bit 8 (burst_word (y # ys))" by (simp only: Cons.prems(2))
    also have "\<dots> = burst_word ys" by (rule up[OF l(2)])
    finally show ?thesis .
  qed
  ultimately show ?case using Cons.IH Cons.prems(1) by simp
qed simp

lemma crc_bytes_burst:
  "length xs \<le> 4 \<Longrightarrow> crc_bytes c xs = (crc_byte ^^ length xs) (c XOR burst_word xs)"
proof (induction xs arbitrary: c)
  case (Cons b bs)
  have small: "drop_bit 8 (push_bit 8 (burst_word bs)) = burst_word bs"
  proof (rule bit_word_eqI)
    fix n assume "n < LENGTH(32)"
    have "bit (burst_word bs) n \<Longrightarrow> n < 24" using Cons.prems burst_word_bits[of bs n] by simp
    then show "bit (drop_bit 8 (push_bit 8 (burst_word bs))) n = bit (burst_word bs) n"
      by (auto simp: bit_simps)
  qed
  have "push_bit 8 (burst_word bs) AND 0xFF = 0"
  proof (rule bit_word_eqI)
    fix n assume "n < LENGTH(32)"
    have "bit (0xFF :: u32) n \<Longrightarrow> n < 8" using bit_mask_iff[where 'a = u32 and m = 8 and n = n]
      by (simp add: mask_eq_exp_minus_1)
    then show "bit (push_bit 8 (burst_word bs) AND 0xFF) n = bit (0 :: u32) n"
      by (auto simp: bit_simps)
  qed
  then have "crc_byte (push_bit 8 (burst_word bs)) = burst_word bs"
    using small by (simp add: crc_byte_shift)
  then have "crc_byte (c XOR ucast b) XOR burst_word bs = crc_byte (c XOR burst_word (b # bs))"
    by (simp add: crc_byte_xor xor.assoc)
  then show ?case using Cons by (simp add: funpow_swap1)
qed simp

text \<open>
  The checksum detects every corruption confined to four consecutive bytes: two
  programs of the same length that agree outside a window of up to four bytes, and differ in it, have
  different checksums.
\<close>

theorem crc32_detects_burst:
  assumes "length xs = length ys" "length xs \<le> 4" "xs \<noteq> ys"
    and "unat n = length pre + length xs + length post"
  shows "crc32 (pre @ xs @ post) n \<noteq> crc32 (pre @ ys @ post) n"
proof -
  let ?c = "crc_bytes (NOT 0) pre"
  have inj: "(crc_byte ^^ k) a = (crc_byte ^^ k) b \<longleftrightarrow> a = b" for k a b
    by (induction k) (simp_all add: crc_byte_inj)
  have "?c XOR burst_word xs \<noteq> ?c XOR burst_word ys"
    using burst_word_inj[OF assms(1,2)] assms(3) by (auto simp: bit_eq_iff bit_simps)
  then have "crc_bytes ?c xs \<noteq> crc_bytes ?c ys"
    using assms(1,2) by (simp add: crc_bytes_burst inj)
  then have "crc32_bitwise (pre @ xs @ post) \<noteq> crc32_bitwise (pre @ ys @ post)"
    by (auto simp: crc32_bitwise_def crc_bytes_append crc_bytes_inj)
  moreover have "crc32 b n = Some (crc32_bitwise b)" if "length b = unat n" for b
    using crc_loop_run[of 0 "unat n" b] that
    by (simp add: crc32_def crc32_inc_def crc32_bitwise_def chunk_def)
  ultimately show ?thesis using assms(1,4) by simp
qed

theorem crc32_detects_burst_witness:
  "crc32 ([9] @ [1, 2] @ [7, 7]) 5 \<noteq> crc32 ([9] @ [2, 1] @ [7, 7]) 5"
  by (rule crc32_detects_burst) simp_all

end
