(* ===== verification/Timer.thy ===== *)
theory Timer
  imports Mmio
begin

text \<open>
  Waiting: \<open>src/pi-src/timer.c\<close> and the loops of \<open>src/pi-src/rpi-misc.c\<close>. The free-running
  microsecond counter is a register of the \<open>bus\<close>, and \<open>delay_us\<close> reads it until enough time has
  passed by its own 32-bit arithmetic. Whether that ever happens depends on how often the counter is
  read, so the loop is a partial function into \<open>option\<close>.
\<close>

definition TIMER_CLO :: u32 where "TIMER_CLO = 0x20003004"

definition timer_get_usec_raw :: "'h bus \<Rightarrow> 'h \<Rightarrow> u32 \<times> 'h" where
  "timer_get_usec_raw bus h = bus_read bus h TIMER_CLO"

partial_function (option) delay_loop :: "'h bus \<Rightarrow> u32 \<Rightarrow> u32 \<Rightarrow> 'h \<Rightarrow> 'h option" where
  "delay_loop bus us s h =
     (let (e, h1) = timer_get_usec_raw bus h
      in if us < e - s then Some h1 else delay_loop bus us s h1)"

definition delay_us :: "'h bus \<Rightarrow> u32 \<Rightarrow> 'h \<Rightarrow> 'h option" where
  "delay_us bus us h = (let (s, h1) = timer_get_usec_raw bus h in delay_loop bus us s h1)"

definition delay_ms :: "'h bus \<Rightarrow> u32 \<Rightarrow> 'h \<Rightarrow> 'h option" where
  "delay_ms bus ms = delay_us bus (ms * 1000)"

definition delay_sec :: "'h bus \<Rightarrow> u32 \<Rightarrow> 'h \<Rightarrow> 'h option" where
  "delay_sec bus sec = delay_ms bus (sec * 1000)"

text \<open>The counted loop; \<open>nop\<close> is the effect of its one instruction on the hardware.\<close>

function delay_cycles :: "('h \<Rightarrow> 'h) \<Rightarrow> u32 \<Rightarrow> 'h \<Rightarrow> 'h" where
  "delay_cycles nop ticks h = (if 0 < ticks then delay_cycles nop (ticks - 1) (nop h) else h)"
  by pat_completeness auto
termination
  by (relation "measure (\<lambda>(nop, ticks, h). unat ticks)")
     (auto simp: unat_minus_one word_gt_0 unat_gt_0)

declare delay_cycles.simps [simp del]

lemma delay_cycles_count: "delay_cycles nop ticks h = (nop ^^ unat ticks) h"
proof (induction nop ticks h rule: delay_cycles.induct)
  case (1 nop ticks h)
  show ?case
  proof (cases "0 < ticks")
    case True
    then have "unat ticks = Suc (unat (ticks - 1))" by (simp add: unat_minus_one word_gt_0 unat_gt_0)
    then show ?thesis using 1 True by (subst delay_cycles.simps) (simp add: funpow_swap1)
  qed (subst delay_cycles.simps, simp add: word_gt_0)
qed

section \<open>A running clock\<close>

text \<open>
  \<open>clock\<close> is the true time in microseconds. The counter register holds its low 32 bits, and two
  readings are at least one and at most \<open>d\<close> microseconds apart.
\<close>

locale running_clock =
  fixes bus :: "'h bus" and clock :: "'h \<Rightarrow> nat" and d :: nat
  assumes reads_clock: "fst (bus_read bus h TIMER_CLO) = of_nat (clock h)"
    and ticks: "clock h < clock (snd (bus_read bus h TIMER_CLO))"
    and no_gap: "clock (snd (bus_read bus h TIMER_CLO)) \<le> clock h + d"
begin

lemma elapsed:
  assumes "t0 \<le> clock h" "clock h - t0 < 2 ^ 32"
  shows "unat (of_nat (clock h) - of_nat t0 :: u32) = clock h - t0"
proof -
  have "(of_nat (clock h) - of_nat t0 :: u32) = of_nat (clock h - t0)"
    using assms(1) by (simp add: of_nat_diff)
  then show ?thesis using assms(2) by (simp add: unat_of_nat_small)
qed

lemma delay_loop_returns:
  assumes "t0 \<le> clock h" "clock h - t0 \<le> unat us + d" "unat us + d < 2 ^ 32"
  shows "\<exists>h'. delay_loop bus us (of_nat t0) h = Some h' \<and> t0 + unat us < clock h'
    \<and> clock h' \<le> t0 + unat us + 2 * d"
  using assms(1,2)
proof (induction "t0 + unat us + d - clock h" arbitrary: h rule: less_induct)
  case less
  let ?h = "snd (bus_read bus h TIMER_CLO)"
  have el: "unat (of_nat (clock h) - of_nat t0 :: u32) = clock h - t0"
    using less.prems assms(3) by (intro elapsed) simp_all
  have step: "delay_loop bus us (of_nat t0) h =
      (if unat us < clock h - t0 then Some ?h else delay_loop bus us (of_nat t0) ?h)"
    by (subst delay_loop.simps)
       (simp add: timer_get_usec_raw_def split_beta reads_clock word_less_nat_alt el)
  show ?case
  proof (cases "unat us < clock h - t0")
    case True
    then show ?thesis using step ticks[of h] no_gap[of h] less.prems by auto
  next
    case False
    have "\<exists>h'. delay_loop bus us (of_nat t0) ?h = Some h' \<and> t0 + unat us < clock h'
      \<and> clock h' \<le> t0 + unat us + 2 * d"
      using False ticks[of h] no_gap[of h] less.prems by (intro less.hyps) linarith+
    then show ?thesis using step False by simp
  qed
qed

lemma delay_us_returns:
  assumes "unat us + d < 2 ^ 32"
  shows "\<exists>h'. delay_us bus us h = Some h' \<and> clock h + unat us < clock h'
    \<and> clock h' \<le> clock h + unat us + 2 * d"
proof -
  let ?h = "snd (bus_read bus h TIMER_CLO)"
  have "delay_us bus us h = delay_loop bus us (of_nat (clock h)) ?h"
    by (simp add: delay_us_def timer_get_usec_raw_def split_beta reads_clock)
  moreover have "\<exists>h'. delay_loop bus us (of_nat (clock h)) ?h = Some h' \<and> clock h + unat us < clock h'
      \<and> clock h' \<le> clock h + unat us + 2 * d"
    using ticks[of h] no_gap[of h] assms by (intro delay_loop_returns) linarith+
  ultimately show ?thesis by simp
qed

end

text \<open>A clock that advances one microsecond with every access.\<close>

definition count_bus :: "nat bus" where
  "count_bus = \<lparr>bus_read = (\<lambda>h a. (of_nat h, Suc h)), bus_write = (\<lambda>h a v. Suc h),
     bus_wait = (\<lambda>h us. h + unat us), bus_spin = (\<lambda>h n. h)\<rparr>"

interpretation count: running_clock count_bus "\<lambda>h. h" 1
  by unfold_locales (auto simp: count_bus_def)

text \<open>
  C28: \<open>delay_us\<close> terminates, and waits as long as it was asked to. When readings of the counter
  are at most \<open>d\<close> microseconds apart and the delay is more than \<open>d\<close> below the counter's range, it
  returns after more than \<open>us\<close> and at most \<open>us + 2 d\<close> microseconds, also when the 32-bit counter
  wraps around in between.
\<close>

theorem delay_us_terminates:
  assumes "running_clock bus clock d" "unat us + d < 2 ^ 32"
  shows "\<exists>h'. delay_us bus us h = Some h' \<and> clock h + unat us < clock h'
    \<and> clock h' \<le> clock h + unat us + 2 * d"
  using running_clock.delay_us_returns[OF assms] .

theorem delay_us_terminates_witness:
  "\<exists>h'. delay_us count_bus 1000 (2 ^ 32 - 5) = Some h' \<and> 2 ^ 32 - 5 + unat (1000 :: u32) < h'
    \<and> h' \<le> 2 ^ 32 - 5 + unat (1000 :: u32) + 2 * 1"
  by (rule delay_us_terminates [OF count.running_clock_axioms]) simp

text \<open>The largest delay is never over: no 32-bit difference exceeds it.\<close>

lemma delay_loop_max: "delay_loop bus (- 1) s h = None"
proof -
  have "us \<noteq> - 1" if "delay_loop b us t g = Some y" for b us t g y
  proof (rule delay_loop.raw_induct[OF _ that, where P = "\<lambda>b us t g y. us \<noteq> - 1"])
    fix L b us t g y
    assume IH: "\<And>b us t g y. L b us t g = Some y \<Longrightarrow> us \<noteq> - 1"
      and eq: "(let (e, h1) = timer_get_usec_raw b g in if us < e - t then Some h1 else L b us t h1) = Some y"
    show "us \<noteq> - 1"
    proof
      assume "us = - 1"
      moreover have "\<not> (- 1 :: u32) < x" for x by (simp add: word_not_simps)
      ultimately show False using eq IH[of b "- 1"] by (auto simp: split_beta Let_def)
    qed
  qed
  then show ?thesis by (metis option.exhaust)
qed

text \<open>
  A delay of 2^32 - 1 microseconds never ends, and a delay of 4294968 milliseconds (an hour
  and eleven minutes) ends after less than a millisecond, because the product with 1000 wraps.
\<close>

theorem delay_wraps:
  "delay_us bus (- 1) h = None \<and> delay_ms bus 4294968 = delay_us bus 704"
proof
  show "delay_us bus (- 1) h = None" by (simp add: delay_us_def split_beta delay_loop_max)
  have "(4294968 * 1000 :: u32) = 704" by code_simp
  then show "delay_ms bus 4294968 = delay_us bus 704" by (simp only: delay_ms_def)
qed

end
