(* ===== verification/Gpio.thy ===== *)
theory Gpio
  imports Mmio
begin

text \<open>
  The pins: \<open>src/pi-src/gpio.c\<close> on the register block of \<open>src/pi-src/gpio.h\<close>, which is at a fixed
  address of the \<open>bus\<close>. The routines are steps on the hardware in the state monad.
\<close>

section \<open>The register block\<close>

definition GPIO_BASE :: u32 where "GPIO_BASE = 0x20200000"

text \<open>The offsets of the arrays in \<open>struct gpios\<close>, in bytes.\<close>

definition fsel_reg :: "u32 \<Rightarrow> u32" where "fsel_reg i = GPIO_BASE + 4 * i"
definition set_reg :: "u32 \<Rightarrow> u32" where "set_reg i = GPIO_BASE + 0x1C + 4 * i"
definition clr_reg :: "u32 \<Rightarrow> u32" where "clr_reg i = GPIO_BASE + 0x28 + 4 * i"
definition lev_reg :: "u32 \<Rightarrow> u32" where "lev_reg i = GPIO_BASE + 0x34 + 4 * i"

definition GPIO_INVALID_REQUEST :: u32 where "GPIO_INVALID_REQUEST = - 1"

datatype gpio_func =
  GPIO_FUNC_INPUT | GPIO_FUNC_OUTPUT | GPIO_FUNC_ALT0 | GPIO_FUNC_ALT1 | GPIO_FUNC_ALT2
| GPIO_FUNC_ALT3 | GPIO_FUNC_ALT4 | GPIO_FUNC_ALT5

fun func_code :: "gpio_func \<Rightarrow> u32" where
  "func_code GPIO_FUNC_INPUT = 0"
| "func_code GPIO_FUNC_OUTPUT = 1"
| "func_code GPIO_FUNC_ALT0 = 4"
| "func_code GPIO_FUNC_ALT1 = 5"
| "func_code GPIO_FUNC_ALT2 = 6"
| "func_code GPIO_FUNC_ALT3 = 7"
| "func_code GPIO_FUNC_ALT4 = 3"
| "func_code GPIO_FUNC_ALT5 = 2"

text \<open>The eight functions as an enumeration, for decisions by cases.\<close>

instantiation gpio_func :: enum
begin

definition enum_gpio_func :: "gpio_func list" where
  "enum_gpio_func = [GPIO_FUNC_INPUT, GPIO_FUNC_OUTPUT, GPIO_FUNC_ALT5, GPIO_FUNC_ALT4, GPIO_FUNC_ALT0,
     GPIO_FUNC_ALT1, GPIO_FUNC_ALT2, GPIO_FUNC_ALT3]"

definition enum_all_gpio_func :: "(gpio_func \<Rightarrow> bool) \<Rightarrow> bool" where
  "enum_all_gpio_func P \<longleftrightarrow> list_all P enum_class.enum"

definition enum_ex_gpio_func :: "(gpio_func \<Rightarrow> bool) \<Rightarrow> bool" where
  "enum_ex_gpio_func P \<longleftrightarrow> list_ex P enum_class.enum"

instance
proof
  show univ: "(UNIV :: gpio_func set) = set enum_class.enum"
  proof (intro set_eqI iffI UNIV_I)
    show "f \<in> set enum_class.enum" for f :: gpio_func by (cases f) (simp_all add: enum_gpio_func_def)
  qed
  show "distinct (enum_class.enum :: gpio_func list)" by (simp add: enum_gpio_func_def)
  show "enum_class.enum_all P \<longleftrightarrow> Ball UNIV P" for P :: "gpio_func \<Rightarrow> bool"
    unfolding univ enum_all_gpio_func_def by (simp add: list_all_iff)
  show "enum_class.enum_ex P \<longleftrightarrow> Bex UNIV P" for P :: "gpio_func \<Rightarrow> bool"
    unfolding univ enum_ex_gpio_func_def by (simp add: list_ex_iff)
qed

end

text \<open>The codes of the functions are all values of a three-bit field, each once, in the order above.\<close>

lemma func_codes: "map func_code enum_class.enum = [0, 1, 2, 3, 4, 5, 6, 7]"
  by (simp add: enum_gpio_func_def)

lemma func_code_inj: "inj func_code"
proof -
  have "distinct (map func_code enum_class.enum)" by (simp add: func_codes)
  then have "inj_on func_code (set enum_class.enum)" by (simp add: distinct_map)
  then show ?thesis by (simp add: enum_UNIV)
qed

lemma func_code_surj: "c \<le> 7 \<Longrightarrow> \<exists>f. func_code f = c"
proof -
  assume "c \<le> 7"
  then have "c \<in> set [0, 1, 2, 3, 4, 5, 6, 7]" by (simp add: word_le_nat_alt word_unat_eq_iff) presburger
  then have "c \<in> set (map func_code enum_class.enum)" by (simp only: func_codes)
  then show ?thesis by auto
qed

definition reg_read :: "'h bus \<Rightarrow> u32 \<Rightarrow> ('h, u32) state" where
  "reg_read bus a = State (\<lambda>h. bus_read bus h a)"

definition reg_write :: "'h bus \<Rightarrow> u32 \<Rightarrow> u32 \<Rightarrow> ('h, unit) state" where
  "reg_write bus a v = State (\<lambda>h. ((), bus_write bus h a v))"

lemma run_reg [run_simps]:
  "run_state (reg_read bus a) h = bus_read bus h a"
  "run_state (reg_write bus a v) h = ((), bus_write bus h a v)"
  by (simp_all add: reg_read_def reg_write_def)

section \<open>The routines\<close>

text \<open>A C enumeration can hold any word, so the function is one, checked as the code checks it.\<close>

definition gpio_set_function :: "'h bus \<Rightarrow> u32 \<Rightarrow> u32 \<Rightarrow> ('h, unit) state" where
  "gpio_set_function bus pin function_no =
     (if pin \<le> 53 \<and> function_no \<le> 7 then
        let reg = pin div 10; index = unat ((pin mod 10) * 3); clearBits = NOT (push_bit index 7) in
        do { workingFsel \<leftarrow> reg_read bus (fsel_reg reg);
             reg_write bus (fsel_reg reg) (workingFsel AND clearBits OR push_bit index function_no) }
      else State_Monad.return ())"

definition gpio_get_function :: "'h bus \<Rightarrow> u32 \<Rightarrow> ('h, u32) state" where
  "gpio_get_function bus pin =
     (if 53 < pin then State_Monad.return GPIO_INVALID_REQUEST
      else
        let reg = pin div 10; index = unat ((pin mod 10) * 3) in
        do { workingFsel \<leftarrow> reg_read bus (fsel_reg reg);
             State_Monad.return (drop_bit index (workingFsel AND push_bit index 7)) })"

definition gpio_set_input :: "'h bus \<Rightarrow> u32 \<Rightarrow> ('h, unit) state" where
  "gpio_set_input bus pin = gpio_set_function bus pin (func_code GPIO_FUNC_INPUT)"

definition gpio_set_output :: "'h bus \<Rightarrow> u32 \<Rightarrow> ('h, unit) state" where
  "gpio_set_output bus pin = gpio_set_function bus pin (func_code GPIO_FUNC_OUTPUT)"

definition gpio_write :: "'h bus \<Rightarrow> u32 \<Rightarrow> u32 \<Rightarrow> ('h, unit) state" where
  "gpio_write bus pin val =
     (if pin \<le> 53 \<and> val \<le> 1 then
        let reg = pin div 32; index = unat (pin mod 32) in
        if val = 0 then reg_write bus (clr_reg reg) (push_bit index 1)
        else if val = 1 then reg_write bus (set_reg reg) (push_bit index 1)
        else State_Monad.return ()
      else State_Monad.return ())"

definition gpio_read :: "'h bus \<Rightarrow> u32 \<Rightarrow> ('h, u32) state" where
  "gpio_read bus pin =
     (if 53 < pin then State_Monad.return GPIO_INVALID_REQUEST
      else
        let reg = pin div 32; index = unat (pin mod 32) in
        do { workingLev \<leftarrow> reg_read bus (lev_reg reg);
             State_Monad.return (drop_bit index (workingLev AND push_bit index 1)) })"

definition gpio_set_on :: "'h bus \<Rightarrow> u32 \<Rightarrow> ('h, unit) state" where
  "gpio_set_on bus pin = gpio_write bus pin 1"

definition gpio_set_off :: "'h bus \<Rightarrow> u32 \<Rightarrow> ('h, unit) state" where
  "gpio_set_off bus pin = gpio_write bus pin 0"

section \<open>Fields of a register\<close>

lemma seven_bits: "bit (7 :: u32) n = (n < 3)"
proof -
  have e: "(7 :: u32) = mask 3" by (simp add: mask_eq_exp_minus_1)
  have b: "bit (mask 3 :: u32) n = (n < 32 \<and> n < 3)" by (auto simp: bit_simps)
  show ?thesis unfolding e b by linarith
qed

lemma le_seven_bits:
  assumes "f \<le> (7 :: u32)" "bit f n"
  shows "n < 3"
proof -
  have "unat f < 2 ^ 3" using assms(1) by (simp add: word_le_nat_alt)
  then have "take_bit 3 f = f" by (metis take_bit_nat_eq_self unsigned_take_bit_eq unsigned_word_eqI)
  then show ?thesis using assms(2) by (metis bit_take_bit_iff)
qed

text \<open>The three bits from bit \<open>k\<close> on, and the register with them replaced.\<close>

definition field :: "nat \<Rightarrow> u32 \<Rightarrow> u32" where
  "field k w = drop_bit k (w AND push_bit k 7)"

definition with_field :: "nat \<Rightarrow> u32 \<Rightarrow> u32 \<Rightarrow> u32" where
  "with_field k f w = w AND NOT (push_bit k 7) OR push_bit k f"

lemma field_same:
  assumes "f \<le> (7 :: u32)" "k \<le> 27"
  shows "field k (with_field k f w) = f"
  unfolding field_def with_field_def
proof (rule bit_word_eqI)
  fix n assume "n < LENGTH(32)"
  show "bit (drop_bit k ((w AND NOT (push_bit k 7) OR push_bit k f) AND push_bit k 7)) n = bit f n"
    using assms(2) le_seven_bits[OF assms(1), of n]
    by (auto simp: bit_simps seven_bits simp del: bit_numeral_word_iff)
qed

lemma field_other:
  assumes "f \<le> (7 :: u32)" "a \<noteq> b"
  shows "field (b * 3) (with_field (a * 3) f w) = field (b * 3) w"
  unfolding field_def with_field_def
proof (rule bit_word_eqI)
  fix n assume "n < LENGTH(32)"
  have far: "\<not> (a * 3 \<le> b * 3 + n \<and> b * 3 + n - a * 3 < 3)" if "n < 3"
    using that assms(2) by (cases "a < b") auto
  have "bit f m \<Longrightarrow> m < 3" for m by (rule le_seven_bits[OF assms(1)])
  then show "bit (drop_bit (b * 3) ((w AND NOT (push_bit (a * 3) 7) OR push_bit (a * 3) f) AND push_bit (b * 3) 7)) n
    = bit (drop_bit (b * 3) (w AND push_bit (b * 3) 7)) n"
    using far by (auto simp: bit_simps seven_bits simp del: bit_numeral_word_iff)
qed

lemma bit_field: "drop_bit k (w AND push_bit k 1) = (if bit w k then 1 else 0)" if "k < 32" for w :: u32
proof (rule bit_word_eqI)
  fix n assume "n < LENGTH(32)"
  show "bit (drop_bit k (w AND push_bit k 1)) n = bit (if bit w k then 1 else 0 :: u32) n"
    using that by (cases n) (auto simp: bit_simps bit_1_iff)
qed

section \<open>What the hardware promises\<close>

text \<open>
  The function-select registers keep what is written to them. Writing ones to a set or clear register
  changes the level of those pins and no others; reading does not change anything.
\<close>

locale gpio_block =
  fixes bus :: "'h bus" and fsel :: "'h \<Rightarrow> u32 \<Rightarrow> u32" and lev :: "'h \<Rightarrow> u32 \<Rightarrow> u32"
  assumes read_fsel: "i < 6 \<Longrightarrow> bus_read bus h (fsel_reg i) = (fsel h i, h)"
    and read_lev: "i < 2 \<Longrightarrow> bus_read bus h (lev_reg i) = (lev h i, h)"
    and write_fsel: "i < 6 \<Longrightarrow> fsel (bus_write bus h (fsel_reg i) v) = (fsel h)(i := v)
        \<and> lev (bus_write bus h (fsel_reg i) v) = lev h"
    and write_set: "i < 2 \<Longrightarrow> lev (bus_write bus h (set_reg i) v) = (lev h)(i := lev h i OR v)
        \<and> fsel (bus_write bus h (set_reg i) v) = fsel h"
    and write_clr: "i < 2 \<Longrightarrow> lev (bus_write bus h (clr_reg i) v) = (lev h)(i := lev h i AND NOT v)
        \<and> fsel (bus_write bus h (clr_reg i) v) = fsel h"
begin

lemma pin_fields:
  assumes "pin \<le> (53 :: u32)"
  shows "pin div 10 < 6" "unat ((pin mod 10) * 3) = unat pin mod 10 * 3" "unat pin mod 10 * 3 \<le> 27"
    "pin div 32 < 2" "unat (pin mod 32) = unat pin mod 32"
proof -
  have u: "unat pin \<le> 53" using assms by (simp add: word_le_nat_alt)
  show "pin div 10 < 6" "pin div 32 < 2" using u by (simp_all add: word_less_nat_alt unat_div)
  show "unat ((pin mod 10) * 3) = unat pin mod 10 * 3" by (simp add: unat_word_ariths unat_mod)
  show "unat pin mod 10 * 3 \<le> 27" by simp
  show "unat (pin mod 32) = unat pin mod 32" by (simp add: unat_mod)
qed

lemma run_set:
  assumes "pin \<le> 53" "f \<le> 7"
  shows "run_state (gpio_set_function bus pin f) h =
    ((), bus_write bus h (fsel_reg (pin div 10))
           (with_field (unat pin mod 10 * 3) f (fsel h (pin div 10))))"
  using assms by (simp add: gpio_set_function_def run_reg read_fsel pin_fields Let_def with_field_def)

lemma run_get:
  assumes "pin \<le> 53"
  shows "run_state (gpio_get_function bus pin) h =
    (field (unat pin mod 10 * 3) (fsel h (pin div 10)), h)"
  using assms by (auto simp: gpio_get_function_def run_reg read_fsel pin_fields Let_def field_def)

lemma run_gpio_read:
  assumes "pin \<le> 53"
  shows "run_state (gpio_read bus pin) h = (if bit (lev h (pin div 32)) (unat pin mod 32) then 1 else 0, h)"
proof -
  have "\<not> 53 < pin" "unat pin mod 32 < 32" using assms by simp_all
  then show ?thesis
    using bit_field[of "unat pin mod 32" "lev h (pin div 32)"] assms
    by (simp only: gpio_read_def if_False Let_def pin_fields) (simp add: run_reg read_lev pin_fields)
qed

lemma get_after_set:
  assumes "pin \<le> 53" "q \<le> 53" "f \<le> 7"
  shows "fst (run_state (gpio_get_function bus q) (snd (run_state (gpio_set_function bus pin f) h))) =
    (if q = pin then f else fst (run_state (gpio_get_function bus q) h))"
proof (cases "q div 10 = pin div 10")
  case False
  then show ?thesis
    using assms by (auto simp: run_set run_get write_fsel pin_fields)
next
  case True
  have "q = pin \<longleftrightarrow> unat q mod 10 = unat pin mod 10"
  proof
    assume "unat q mod 10 = unat pin mod 10"
    moreover have "unat q div 10 = unat pin div 10" using arg_cong[OF True, of unat] by (simp add: unat_div)
    ultimately have "unat q = unat pin" by (metis div_mult_mod_eq)
    then show "q = pin" by (simp add: word_unat_eq_iff)
  qed simp
  then show ?thesis
    using assms True
    by (simp add: run_set run_get write_fsel pin_fields field_same field_other)
qed

lemma set_keeps_level:
  "pin \<le> 53 \<Longrightarrow> f \<le> 7 \<Longrightarrow> lev (snd (run_state (gpio_set_function bus pin f) h)) = lev h"
  by (simp add: run_set write_fsel pin_fields)

lemma read_after_write:
  assumes "pin \<le> 53" "q \<le> 53" "v \<le> 1"
  shows "fst (run_state (gpio_read bus q) (snd (run_state (gpio_write bus pin v) h))) =
    (if q = pin then v else fst (run_state (gpio_read bus q) h))"
proof -
  let ?k = "unat pin mod 32" and ?r = "pin div 32"
  have v: "v = 0 \<or> v = 1" using assms(3) by (auto simp: word_le_nat_alt word_unat_eq_iff)
  have w: "lev (snd (run_state (gpio_write bus pin v) h)) =
      (lev h)(?r := if v = 0 then lev h ?r AND NOT (push_bit ?k 1) else lev h ?r OR push_bit ?k 1)"
    using v assms(1) by (auto simp: gpio_write_def run_reg write_set write_clr pin_fields Let_def)
  have "q = pin \<longleftrightarrow> q div 32 = ?r \<and> unat q mod 32 = ?k"
  proof
    assume a: "q div 32 = ?r \<and> unat q mod 32 = ?k"
    then have "unat (q div 32) = unat (pin div 32)" by simp
    then have "unat q div 32 = unat pin div 32" by (simp add: unat_div)
    then have "unat q = unat pin" using a by (metis div_mult_mod_eq)
    then show "q = pin" by (simp add: word_unat_eq_iff)
  qed simp
  then show ?thesis
    using v assms(1,2) by (auto simp: run_gpio_read w bit_simps bit_1_iff)
qed

end

section \<open>A register block\<close>

text \<open>The block as the BCM2835 has it: registers and the levels of the pins.\<close>

record pin_block =
  pb_fsel :: "u32 \<Rightarrow> u32"
  pb_lev :: "u32 \<Rightarrow> u32"

definition pin_read :: "pin_block \<Rightarrow> u32 \<Rightarrow> u32 \<times> pin_block" where
  "pin_read b a =
     (if a < GPIO_BASE + 0x18 then (pb_fsel b ((a - GPIO_BASE) div 4), b)
      else if a = lev_reg 0 then (pb_lev b 0, b)
      else if a = lev_reg 1 then (pb_lev b 1, b) else (0, b))"

definition pin_write :: "pin_block \<Rightarrow> u32 \<Rightarrow> u32 \<Rightarrow> pin_block" where
  "pin_write b a v =
     (if a < GPIO_BASE + 0x18 then b\<lparr>pb_fsel := (pb_fsel b)((a - GPIO_BASE) div 4 := v)\<rparr>
      else if a = set_reg 0 then b\<lparr>pb_lev := (pb_lev b)(0 := pb_lev b 0 OR v)\<rparr>
      else if a = set_reg 1 then b\<lparr>pb_lev := (pb_lev b)(1 := pb_lev b 1 OR v)\<rparr>
      else if a = clr_reg 0 then b\<lparr>pb_lev := (pb_lev b)(0 := pb_lev b 0 AND NOT v)\<rparr>
      else if a = clr_reg 1 then b\<lparr>pb_lev := (pb_lev b)(1 := pb_lev b 1 AND NOT v)\<rparr> else b)"

definition pin_bus :: "pin_block bus" where
  "pin_bus = \<lparr>bus_read = pin_read, bus_write = pin_write, bus_wait = (\<lambda>h us. h), bus_spin = (\<lambda>h n. h)\<rparr>"

lemma small_word_cases:
  "i < (6 :: u32) \<Longrightarrow> i = 0 \<or> i = 1 \<or> i = 2 \<or> i = 3 \<or> i = 4 \<or> i = 5"
  "i < (2 :: u32) \<Longrightarrow> i = 0 \<or> i = 1"
proof -
  show "i < (6 :: u32) \<Longrightarrow> i = 0 \<or> i = 1 \<or> i = 2 \<or> i = 3 \<or> i = 4 \<or> i = 5"
    by (simp add: word_less_nat_alt word_unat_eq_iff) presburger
  show "i < (2 :: u32) \<Longrightarrow> i = 0 \<or> i = 1"
    by (simp add: word_less_nat_alt word_unat_eq_iff) presburger
qed

interpretation pins: gpio_block pin_bus pb_fsel pb_lev
  by unfold_locales
     (auto simp: pin_bus_def pin_read_def pin_write_def fsel_reg_def lev_reg_def set_reg_def clr_reg_def
       GPIO_BASE_def dest!: small_word_cases)



text \<open>
  Reading a pin after writing it gives the value written, for every pin of both banks, and
  no other pin changes.
\<close>

theorem gpio_level_roundtrip:
  assumes "gpio_block bus fsel lev" "pin \<le> 53" "q \<le> 53" "v \<le> 1"
  shows "fst (run_state (gpio_read bus q) (snd (run_state (gpio_write bus pin v) h))) =
    (if q = pin then v else fst (run_state (gpio_read bus q) h))"
  using gpio_block.read_after_write[OF assms] .

theorem gpio_level_roundtrip_witness:
  "fst (run_state (gpio_read pin_bus 47) (snd (run_state (gpio_write pin_bus 47 1)
        \<lparr>pb_fsel = (\<lambda>i. 0), pb_lev = (\<lambda>i. 0)\<rparr>))) =
    (if (47 :: u32) = 47 then 1 else fst (run_state (gpio_read pin_bus 47) \<lparr>pb_fsel = (\<lambda>i. 0), pb_lev = (\<lambda>i. 0)\<rparr>))"
  by (rule gpio_level_roundtrip [OF pins.gpio_block_axioms]) simp_all

text \<open>Requests outside the pins, or outside the values, do not touch the hardware.\<close>

lemma gpio_invalid:
  "53 < pin \<Longrightarrow> run_state (gpio_set_function bus pin f) h = ((), h)"
  "7 < f \<Longrightarrow> run_state (gpio_set_function bus pin f) h = ((), h)"
  "53 < pin \<Longrightarrow> run_state (gpio_get_function bus pin) h = (GPIO_INVALID_REQUEST, h)"
  "53 < pin \<Longrightarrow> run_state (gpio_write bus pin v) h = ((), h)"
  "53 < pin \<Longrightarrow> run_state (gpio_read bus pin) h = (GPIO_INVALID_REQUEST, h)"
  by (auto simp: gpio_set_function_def gpio_get_function_def gpio_write_def gpio_read_def)

text \<open>
  What \<open>gpio_get_function\<close> casts to \<open>gpio_func_t\<close> is one of its enumerators, whatever the register
  holds.
\<close>

lemma gpio_get_function_valid:
  assumes "pin \<le> 53"
  shows "\<exists>!f. fst (run_state (gpio_get_function bus pin) h) = func_code f"
proof -
  let ?i = "unat ((pin mod 10) * 3)" and ?w = "fst (bus_read bus h (fsel_reg (pin div 10)))"
  have np: "\<not> 53 < pin" using assms by simp
  have "fst (run_state (gpio_get_function bus pin) h) = drop_bit ?i (?w AND push_bit ?i 7)"
    by (simp add: gpio_get_function_def np run_simps split_beta Let_def del: drop_bit_and)
  also have "\<dots> = drop_bit ?i (?w AND push_bit ?i 7) AND 7"
    by (rule bit_word_eqI) (auto simp: bit_simps)
  also have "\<dots> \<le> 7" by (rule word_and_le1)
  finally have "fst (run_state (gpio_get_function bus pin) h) \<le> 7" .
  then show ?thesis using func_code_surj func_code_inj by (metis injD)
qed

end
