(* ===== verification/Serial.thy ===== *)
theory Serial
  imports Prelude "HOL-Library.Sublist"
begin

text \<open>
  The serial line between the host and a Pi. Both sides are programs that block in a one-byte read
  until a byte has arrived, and send bytes at any time. A \<open>port\<close> is one end of the line: the bytes
  that will still arrive, the bytes sent so far, and the rest of the program's state. A program is a
  step on its port; \<open>Starved\<close> says that it is waiting in a read and no more bytes arrive.

  The second part puts two such programs on one line: \<open>line_step\<close> delivers one byte, in either
  direction, and the \<open>duplex\<close> locale shows that the order of deliveries does not matter.
\<close>

section \<open>Programs on a port\<close>

datatype 'a outcome = Ret 'a | Starved | Diverged | Failed fault

record 'w port =
  inp :: bytes
  outp :: bytes
  env :: 'w

type_synonym ('w, 'a) serial = "'w port \<Rightarrow> 'a outcome \<times> 'w port"

definition ret :: "'a \<Rightarrow> ('w, 'a) serial" where
  "ret a p = (Ret a, p)"

text \<open>Sequencing: run the second program on the result of the first, unless that did not return.\<close>

definition andthen :: "('w, 'a) serial \<Rightarrow> ('a \<Rightarrow> ('w, 'b) serial) \<Rightarrow> ('w, 'b) serial" where
  "andthen m f p =
     (case m p of
        (Ret a, p') \<Rightarrow> f a p'
      | (Starved, p') \<Rightarrow> (Starved, p')
      | (Diverged, p') \<Rightarrow> (Diverged, p')
      | (Failed e, p') \<Rightarrow> (Failed e, p'))"

definition fail_with :: "fault \<Rightarrow> ('w, 'a) serial" where
  "fail_with e p = (Failed e, p)"

definition recv8 :: "('w, u8) serial" where
  "recv8 p = (case inp p of [] \<Rightarrow> (Starved, p) | b # bs \<Rightarrow> (Ret b, p\<lparr>inp := bs\<rparr>))"

definition send :: "bytes \<Rightarrow> ('w, unit) serial" where
  "send bs p = (Ret (), p\<lparr>outp := outp p @ bs\<rparr>)"

named_theorems serial_simps "running programs on a port"

lemma ret_run [serial_simps, simp]: "ret a p = (Ret a, p)"
  by (simp add: ret_def)

lemma andthen_Ret [serial_simps]: "m p = (Ret a, p') \<Longrightarrow> andthen m f p = f a p'"
  by (simp add: andthen_def)

lemma andthen_stop [serial_simps]:
  "m p = (Starved, p') \<Longrightarrow> andthen m f p = (Starved, p')"
  "m p = (Diverged, p') \<Longrightarrow> andthen m f p = (Diverged, p')"
  "m p = (Failed e, p') \<Longrightarrow> andthen m f p = (Failed e, p')"
  by (simp_all add: andthen_def)

lemma recv8_run [serial_simps]:
  "recv8 \<lparr>inp = [], outp = os, env = w\<rparr> = (Starved, \<lparr>inp = [], outp = os, env = w\<rparr>)"
  "recv8 \<lparr>inp = b # bs, outp = os, env = w\<rparr> = (Ret b, \<lparr>inp = bs, outp = os, env = w\<rparr>)"
  by (simp_all add: recv8_def)

lemma send_run [serial_simps, simp]: "send bs p = (Ret (), p\<lparr>outp := outp p @ bs\<rparr>)"
  by (simp add: send_def)

section \<open>Causality\<close>

text \<open>
  What a program does on a longer input starts with what it did on the shorter one: it only
  consumes from the front and appends to its output, and unless it was waiting for a byte it does exactly
  the same and leaves the additional bytes unread.
\<close>

definition later :: "bytes \<Rightarrow> 'w port \<Rightarrow> 'w port" where
  "later ys p = p\<lparr>inp := inp p @ ys\<rparr>"

definition causal :: "('w, 'a) serial \<Rightarrow> bool" where
  "causal m \<longleftrightarrow> (\<forall>p ys.
     prefix (outp p) (outp (snd (m p)))
     \<and> (case fst (m p) of
          Starved \<Rightarrow> prefix (outp (snd (m p))) (outp (snd (m (later ys p))))
        | _ \<Rightarrow> m (later ys p) = (fst (m p), later ys (snd (m p)))))"

lemma later_simps [simp]: "outp (later ys p) = outp p" "inp (later ys p) = inp p @ ys" "env (later ys p) = env p"
  "later ys (p\<lparr>outp := os\<rparr>) = (later ys p)\<lparr>outp := os\<rparr>" "later ys (p\<lparr>env := w\<rparr>) = (later ys p)\<lparr>env := w\<rparr>"
  by (simp_all add: later_def)

lemma causal_outp: "causal m \<Longrightarrow> prefix (outp p) (outp (snd (m p)))"
  by (simp add: causal_def)

lemma causal_same:
  "causal m \<Longrightarrow> m p = (r, p') \<Longrightarrow> r \<noteq> Starved \<Longrightarrow> m (later ys p) = (r, later ys p')"
  unfolding causal_def by (drule spec[of _ p], drule spec[of _ ys]) (cases r; simp)

lemma causal_Starved:
  "causal m \<Longrightarrow> m p = (Starved, p') \<Longrightarrow> prefix (outp p') (outp (snd (m (later ys p))))"
  unfolding causal_def by (drule spec[of _ p], drule spec[of _ ys]) simp

lemma causalI:
  assumes "\<And>p. prefix (outp p) (outp (snd (m p)))"
    and "\<And>p r p' ys. m p = (r, p') \<Longrightarrow> r \<noteq> Starved \<Longrightarrow> m (later ys p) = (r, later ys p')"
    and "\<And>p p' ys. m p = (Starved, p') \<Longrightarrow> prefix (outp p') (outp (snd (m (later ys p))))"
  shows "causal m"
  unfolding causal_def
proof (intro allI conjI)
  fix p ys
  show "prefix (outp p) (outp (snd (m p)))" by (rule assms(1))
  show "case fst (m p) of
          Starved \<Rightarrow> prefix (outp (snd (m p))) (outp (snd (m (later ys p))))
        | _ \<Rightarrow> m (later ys p) = (fst (m p), later ys (snd (m p)))"
    using assms(2)[of p "fst (m p)" "snd (m p)" ys] assms(3)[of p "snd (m p)" ys]
    by (cases "fst (m p)"; cases "m p") auto
qed

lemma causal_ret [intro]: "causal (ret a)"
  by (rule causalI) auto

lemma causal_fail [intro]: "causal (fail_with e)"
  by (rule causalI) (auto simp: fail_with_def)

lemma causal_send [intro]: "causal (send bs)"
  by (rule causalI) auto

lemma causal_recv8 [intro]: "causal recv8"
proof (rule causalI)
  fix p r p' ys
  assume "recv8 p = (r, p')" "r \<noteq> Starved"
  then show "recv8 (later ys p) = (r, later ys p')"
    by (cases "inp p") (auto simp: recv8_def later_def)
qed (auto simp: recv8_def split: list.splits)

lemma causal_andthen [intro]:
  assumes "causal m" "\<And>a. causal (f a)"
  shows "causal (andthen m f)"
proof (rule causalI)
  fix p
  obtain r p' where m: "m p = (r, p')" by force
  have 1: "prefix (outp p) (outp p')" using causal_outp[OF assms(1), of p] m by simp
  show "prefix (outp p) (outp (snd (andthen m f p)))"
    using 1 m causal_outp[OF assms(2), of p']
    by (cases r) (auto simp: andthen_def intro: prefix_order.trans)
next
  fix p r p' ys
  assume a: "andthen m f p = (r, p')" "r \<noteq> Starved"
  obtain r1 p1 where m: "m p = (r1, p1)" by force
  show "andthen m f (later ys p) = (r, later ys p')"
    using a m causal_same[OF assms(1) m] causal_same[OF assms(2), of _ p1 r p']
    by (cases r1) (auto simp: andthen_def)
next
  fix p p' ys
  assume a: "andthen m f p = (Starved, p')"
  obtain r1 p1 where m: "m p = (r1, p1)" by force
  show "prefix (outp p') (outp (snd (andthen m f (later ys p))))"
  proof (cases r1)
    case (Ret x)
    then have "f x p1 = (Starved, p')" using a m by (simp add: andthen_def)
    then show ?thesis
      using m Ret causal_same[OF assms(1) m] causal_Starved[OF assms(2)] by (simp add: andthen_def)
  next
    case Starved
    then have "p' = p1" using a m by (simp add: andthen_def)
    obtain r2 p2 where m2: "m (later ys p) = (r2, p2)" by force
    have "prefix (outp p1) (outp p2)" using causal_Starved[OF assms(1)] m m2 Starved by (metis snd_conv)
    moreover have "prefix (outp p2) (outp (snd (andthen m f (later ys p))))"
      using m2 causal_outp[OF assms(2), of p2] by (cases r2) (auto simp: andthen_def)
    ultimately show ?thesis using \<open>p' = p1\<close> by (metis prefix_order.trans)
  qed (use a m in \<open>auto simp: andthen_def\<close>)
qed

lemma causal_if [intro]: "causal m1 \<Longrightarrow> causal m2 \<Longrightarrow> causal (if b then m1 else m2)"
  by simp

section \<open>Loops\<close>

text \<open>
  \<open>while (c a) a = body(a)\<close>. Every loop of the repository reads in its body, so a turn that returns
  has consumed a byte and the loop ends, at the latest waiting for input; a turn that consumed
  nothing would count as divergence.
\<close>

function while_do :: "('a \<Rightarrow> bool) \<Rightarrow> ('a \<Rightarrow> ('w, 'a) serial) \<Rightarrow> 'a \<Rightarrow> ('w, 'a) serial" where
  "while_do c body a p =
     (if c a then
        (case body a p of
           (Ret a', p') \<Rightarrow>
             if length (inp p') < length (inp p) then while_do c body a' p' else (Diverged, p')
         | (r, p') \<Rightarrow> (r, p'))
      else (Ret a, p))"
  by pat_completeness auto
termination
  by (relation "measure (\<lambda>(c, body, a, p). length (inp p))") auto

declare while_do.simps [simp del]

lemma while_do_stop [serial_simps]: "\<not> c a \<Longrightarrow> while_do c body a p = (Ret a, p)"
  by (subst while_do.simps) simp

lemma while_do_step [serial_simps]:
  "c a \<Longrightarrow> body a p = (Ret a', p') \<Longrightarrow> length (inp p') < length (inp p)
   \<Longrightarrow> while_do c body a p = while_do c body a' p'"
  by (subst while_do.simps) simp

lemma while_do_outp:
  assumes "\<And>a. causal (body a)"
  shows "prefix (outp p) (outp (snd (while_do c body a p)))"
proof (induction "length (inp p)" arbitrary: a p rule: less_induct)
  case less
  obtain r p1 where b: "body a p = (r, p1)" by force
  have "prefix (outp p) (outp p1)" using causal_outp[OF assms, of p a] b by simp
  then show ?case
    using less[of p1] b by (subst while_do.simps) (cases r; auto intro: prefix_order.trans)
qed

lemma causal_while_do [intro]:
  assumes body: "\<And>a. causal (body a)"
  shows "causal (while_do c body a)"
proof -
  let ?w = "while_do c body"
  have "prefix (outp p) (outp (snd (?w a p)))
      \<and> (\<forall>ys. case fst (?w a p) of
           Starved \<Rightarrow> prefix (outp (snd (?w a p))) (outp (snd (?w a (later ys p))))
         | _ \<Rightarrow> ?w a (later ys p) = (fst (?w a p), later ys (snd (?w a p))))" for p
  proof (induction "length (inp p)" arbitrary: a p rule: less_induct)
    case less
    show ?case
    proof (cases "c a")
      case True
      obtain r p1 where b: "body a p = (r, p1)" by force
      have o1: "prefix (outp p) (outp p1)" using causal_outp[OF body, of p a] b by simp
      have same: "body a (later ys p) = (r, later ys p1)" if "r \<noteq> Starved" for ys
        using causal_same[OF body b that] .
      show ?thesis
      proof (cases r)
        case (Ret a')
        show ?thesis
        proof (cases "length (inp p1) < length (inp p)")
          case True
          have e: "?w a p = ?w a' p1" "?w a (later ys p) = ?w a' (later ys p1)" for ys
            using \<open>c a\<close> b same Ret True by (simp_all add: while_do_step)
          show ?thesis using less[OF True, of a'] o1 unfolding e by (auto intro: prefix_order.trans)
        next
          case False
          then show ?thesis
            using \<open>c a\<close> b same Ret o1 by (auto simp: while_do.simps[of c body a])
        qed
      next
        case Starved
        have "prefix (outp p1) (outp (snd (?w a (later ys p))))" for ys
        proof -
          obtain r2 p2 where b2: "body a (later ys p) = (r2, p2)" by force
          have p12: "prefix (outp p1) (outp p2)"
            using causal_Starved[OF body b[unfolded Starved], of ys] b2 by simp
          have "prefix (outp p2) (outp (snd (?w a (later ys p))))"
            using \<open>c a\<close> b2 while_do_outp[OF body]
            by (subst while_do.simps) (cases r2; simp)
          then show ?thesis using p12 by (metis prefix_order.trans)
        qed
        then show ?thesis using \<open>c a\<close> b Starved o1 by (simp add: while_do.simps[of c body a])
      qed (use \<open>c a\<close> b same o1 in \<open>auto simp: while_do.simps[of c body a]\<close>)
    qed (simp add: while_do_stop)
  qed
  then show ?thesis unfolding causal_def by blast
qed

section \<open>Two programs on one line\<close>

text \<open>
  A state of the line is how much has been delivered: \<open>xs\<close> to the left program, \<open>ys\<close> to the right.
  \<open>f xs\<close> is what the left program has sent once it has received \<open>xs\<close>, \<open>g ys\<close> likewise; the line can
  deliver the next byte that has been sent and not yet delivered, in either direction.
\<close>

inductive line_step :: "(bytes \<Rightarrow> bytes) \<Rightarrow> (bytes \<Rightarrow> bytes) \<Rightarrow> bytes \<times> bytes \<Rightarrow> bytes \<times> bytes \<Rightarrow> bool"
  for f g where
  to_left: "prefix (xs @ [b]) (g ys) \<Longrightarrow> line_step f g (xs, ys) (xs @ [b], ys)"
| to_right: "prefix (ys @ [b]) (f xs) \<Longrightarrow> line_step f g (xs, ys) (xs, ys @ [b])"

inductive_cases line_stepE [elim!]: "line_step f g (xs, ys) t"

definition line_runs :: "(bytes \<Rightarrow> bytes) \<Rightarrow> (bytes \<Rightarrow> bytes) \<Rightarrow> bytes \<times> bytes \<Rightarrow> bytes \<times> bytes \<Rightarrow> bool" where
  "line_runs f g = (line_step f g)\<^sup>*\<^sup>*"

definition all_delivered :: "(bytes \<Rightarrow> bytes) \<Rightarrow> (bytes \<Rightarrow> bytes) \<Rightarrow> bytes \<times> bytes \<Rightarrow> bool" where
  "all_delivered f g s \<longleftrightarrow> g (snd s) = fst s \<and> f (fst s) = snd s"

locale duplex =
  fixes f g :: "bytes \<Rightarrow> bytes"
  assumes left_mono: "prefix xs xs' \<Longrightarrow> prefix (f xs) (f xs')"
    and right_mono: "prefix ys ys' \<Longrightarrow> prefix (g ys) (g ys')"
begin

lemma runs_refl: "line_runs f g s s"
  by (simp add: line_runs_def)

lemma runs_trans: "line_runs f g s t \<Longrightarrow> line_runs f g t u \<Longrightarrow> line_runs f g s u"
  by (simp add: line_runs_def)

text \<open>Only what was sent is delivered, and everything stays below a state where all is delivered.\<close>

lemma runs_sent:
  assumes "line_runs f g ([], []) (xs, ys)"
  shows "prefix xs (g ys) \<and> prefix ys (f xs)"
proof -
  have "(line_step f g)\<^sup>*\<^sup>* s t \<Longrightarrow> s = ([], []) \<Longrightarrow> prefix (fst t) (g (snd t)) \<and> prefix (snd t) (f (fst t))"
    for s t
  proof (induction rule: rtranclp_induct)
    case (step t u)
    obtain xs ys where t: "t = (xs, ys)" by force
    have ih: "prefix xs (g ys)" "prefix ys (f xs)" using step t by simp_all
    from step.hyps(2) show ?case unfolding t
    proof cases
      case (to_left b)
      then show ?thesis using ih(2) left_mono[of xs "xs @ [b]"] by (auto intro: prefix_order.trans)
    next
      case (to_right b)
      then show ?thesis using ih(1) right_mono[of ys "ys @ [b]"] by (auto intro: prefix_order.trans)
    qed
  qed simp
  from this[of "([], [])" "(xs, ys)"] show ?thesis using assms by (simp add: line_runs_def)
qed

lemma runs_below:
  assumes "line_runs f g ([], []) (xs, ys)" "all_delivered f g (X, Y)"
  shows "prefix xs X \<and> prefix ys Y"
proof -
  have "(line_step f g)\<^sup>*\<^sup>* s t \<Longrightarrow> s = ([], []) \<Longrightarrow> prefix (fst t) X \<and> prefix (snd t) Y" for s t
  proof (induction rule: rtranclp_induct)
    case (step t u)
    obtain xs ys where t: "t = (xs, ys)" by force
    have ih: "prefix xs X" "prefix ys Y" using step t by simp_all
    from step.hyps(2) show ?case unfolding t
    proof cases
      case (to_left b)
      have "prefix (g ys) X" using right_mono[OF ih(2)] assms(2) by (simp add: all_delivered_def)
      then show ?thesis using to_left ih(2) prefix_order.trans[of "xs @ [b]" "g ys" X] by simp
    next
      case (to_right b)
      have "prefix (f xs) Y" using left_mono[OF ih(1)] assms(2) by (simp add: all_delivered_def)
      then show ?thesis using to_right ih(1) prefix_order.trans[of "ys @ [b]" "f xs" Y] by simp
    qed
  qed simp
  from this[of "([], [])" "(xs, ys)"] show ?thesis using assms(1) by (simp add: line_runs_def)
qed

lemma deliver_left: "prefix (xs @ zs) (g ys) \<Longrightarrow> line_runs f g (xs, ys) (xs @ zs, ys)"
proof (induction zs rule: rev_induct)
  case (snoc b zs)
  have "prefix (xs @ zs) (g ys)" using snoc.prems by (metis append_assoc append_prefixD)
  then have "line_runs f g (xs, ys) (xs @ zs, ys)" by (rule snoc.IH)
  moreover have "line_step f g (xs @ zs, ys) ((xs @ zs) @ [b], ys)"
    using snoc.prems by (intro line_step.intros) simp
  ultimately show ?case by (simp add: line_runs_def rtranclp.rtrancl_into_rtrancl)
qed (simp add: runs_refl)

lemma deliver_right: "prefix (ys @ zs) (f xs) \<Longrightarrow> line_runs f g (xs, ys) (xs, ys @ zs)"
proof (induction zs rule: rev_induct)
  case (snoc b zs)
  have "prefix (ys @ zs) (f xs)" using snoc.prems by (metis append_assoc append_prefixD)
  then have "line_runs f g (xs, ys) (xs, ys @ zs)" by (rule snoc.IH)
  moreover have "line_step f g (xs, ys @ zs) (xs, (ys @ zs) @ [b])"
    using snoc.prems by (intro line_step.intros) simp
  ultimately show ?case by (simp add: line_runs_def rtranclp.rtrancl_into_rtrancl)
qed (simp add: runs_refl)

lemma not_stuck:
  assumes "prefix xs (g ys)" "prefix ys (f xs)" "\<not> all_delivered f g (xs, ys)"
  shows "\<exists>t. line_step f g (xs, ys) t"
proof -
  consider zs where "g ys = xs @ zs" "zs \<noteq> []" | zs where "f xs = ys @ zs" "zs \<noteq> []"
  proof (cases "g ys = xs")
    case True
    then have "ys \<noteq> f xs" using assms(3) by (auto simp: all_delivered_def)
    then show ?thesis using that(2) assms(2) by (auto simp: prefix_def)
  next
    case False
    then show ?thesis using that(1) assms(1) by (auto simp: prefix_def)
  qed
  then show ?thesis
  proof cases
    case (1 zs)
    then obtain b bs where "zs = b # bs" by (cases zs) auto
    then have "prefix (xs @ [b]) (g ys)" using 1 by simp
    then show ?thesis by (blast intro: line_step.intros)
  next
    case (2 zs)
    then obtain b bs where "zs = b # bs" by (cases zs) auto
    then have "prefix (ys @ [b]) (f xs)" using 2 by simp
    then show ?thesis by (blast intro: line_step.intros)
  qed
qed

text \<open>Every order of deliveries ends in the same state, if one does.\<close>

lemma converges:
  assumes "line_runs f g ([], []) (X, Y)" "all_delivered f g (X, Y)"
    and "line_runs f g ([], []) (xs, ys)"
  shows "line_runs f g (xs, ys) (X, Y)"
  using assms(3)
proof (induction "length X + length Y - (length xs + length ys)" arbitrary: xs ys rule: less_induct)
  case less
  note below = runs_below[OF less.prems assms(2)]
  show ?case
  proof (cases "all_delivered f g (xs, ys)")
    case True
    have "prefix X xs" "prefix Y ys" using runs_below[OF assms(1) True] by simp_all
    then show ?thesis using below prefix_order.antisym[of X xs] prefix_order.antisym[of Y ys] by (simp add: runs_refl)
  next
    case False
    then obtain xs' ys' where s: "line_step f g (xs, ys) (xs', ys')"
      using not_stuck runs_sent[OF less.prems] by fastforce
    then have r: "line_runs f g ([], []) (xs', ys')"
      using less.prems by (simp add: line_runs_def rtranclp.rtrancl_into_rtrancl)
    have "length xs' + length ys' = Suc (length xs + length ys)" using s by auto
    moreover have "length xs' + length ys' \<le> length X + length Y"
      using runs_below[OF r assms(2)] by (simp add: add_mono prefix_length_le)
    ultimately have "line_runs f g (xs', ys') (X, Y)" using less.hyps[OF _ r] by linarith
    then show ?thesis using s by (simp add: line_runs_def converse_rtranclp_into_rtranclp)
  qed
qed

end

text \<open>A program as what it sends on what it receives.\<close>

definition fresh :: "'w \<Rightarrow> bytes \<Rightarrow> 'w port" where
  "fresh w xs = \<lparr>inp = xs, outp = [], env = w\<rparr>"

definition sent :: "('w, 'a) serial \<Rightarrow> 'w \<Rightarrow> bytes \<Rightarrow> bytes" where
  "sent m w xs = outp (snd (m (fresh w xs)))"

lemma sent_mono:
  assumes "causal m" "prefix xs xs'"
  shows "prefix (sent m w xs) (sent m w xs')"
proof -
  obtain zs where zs: "xs' = xs @ zs" using assms(2) by (auto simp: prefix_def)
  then have l: "fresh w xs' = later zs (fresh w xs)" by (simp add: fresh_def later_def)
  obtain r p' where m: "m (fresh w xs) = (r, p')" by force
  show ?thesis
  proof (cases "r = Starved")
    case True
    then show ?thesis using causal_Starved[OF assms(1)] m unfolding sent_def l by (metis snd_conv)
  next
    case False
    then show ?thesis using causal_same[OF assms(1) m False] m unfolding sent_def l by simp
  qed
qed

lemma duplex_sent: "causal m1 \<Longrightarrow> causal m2 \<Longrightarrow> duplex (sent m1 w1) (sent m2 w2)"
  by unfold_locales (auto intro: sent_mono)

end
