(* ===== verification/Set_Tty.thy ===== *)
theory Set_Tty
  imports Complex_Main Serial
begin

text \<open>
  Setting up the terminal of a device, \<open>src/mac-src/set-tty-8n1.c\<close>. The flags of \<open>termios.h\<close> and the three
  calls of the operating system are the parameters of \<open>tty_host\<close>; of the array \<open>c_cc\<close> the two entries
  the code uses are kept. The timeout, a \<open>double\<close>, is a rational number of seconds. \<open>panic\<close> of
  \<open>src/mac-src/libmac.h\<close> ends the program.
\<close>

record termios =
  c_iflag :: u64
  c_oflag :: u64
  c_cflag :: u64
  c_lflag :: u64
  c_vmin :: u8
  c_vtime :: u8

record tty_host =
  tcgetattr :: "int \<Rightarrow> int"
  cfsetspeed :: "termios \<Rightarrow> u32 \<Rightarrow> termios"
  tcsetattr :: "int \<Rightarrow> termios \<Rightarrow> int"
  IGNBRK :: u64
  IXON :: u64
  IXOFF :: u64
  IXANY :: u64
  ICANON :: u64
  ECHO :: u64
  ECHOE :: u64
  ISIG :: u64
  OPOST :: u64
  PARENB :: u64
  CSTOPB :: u64
  CSIZE :: u64
  CS8 :: u64
  CRTSCTS :: u64
  CREAD :: u64
  CLOCAL :: u64
  B115200 :: u32

definition zero_termios :: termios where
  "zero_termios = \<lparr>c_iflag = 0, c_oflag = 0, c_cflag = 0, c_lflag = 0, c_vmin = 0, c_vtime = 0\<rparr>"

text \<open>What the flags become, in the order of the assignments.\<close>

definition set_cflag :: "tty_host \<Rightarrow> u64 \<Rightarrow> u64" where
  "set_cflag t c =
     ((((((c AND NOT (PARENB t)) AND NOT (CSTOPB t)) AND NOT (CSIZE t)) OR CS8 t) AND NOT (CRTSCTS t))
       OR (CREAD t OR CLOCAL t))"

definition set_iflag :: "tty_host \<Rightarrow> u64 \<Rightarrow> u64" where
  "set_iflag t i =
     (i AND NOT (IXON t OR IXOFF t OR IXANY t)) AND NOT (ICANON t OR ECHO t OR ECHOE t OR ISIG t)"

text \<open>The result, and the settings the terminal is left with if it was reached.\<close>

definition set_tty_to_8n1 :: "tty_host \<Rightarrow> int \<Rightarrow> u32 \<Rightarrow> rat \<Rightarrow> int outcome \<times> termios option" where
  "set_tty_to_8n1 t fd speed timeout =
     (if fd = - 1 then (Ret fd, None)
      else if tcgetattr t fd \<noteq> 0 then (Failed (Panic (''tcgetattr failed'' @ nl)), None)
      else
        let tty0 = cfsetspeed t zero_termios speed;
            tty1 = tty0\<lparr>c_iflag := c_iflag tty0 AND NOT (IGNBRK t), c_lflag := 0, c_oflag := 0, c_vmin := 0\<rparr>
        in if timeout \<ge> 100 \<or> timeout \<le> 0
           then (Failed (Panic (''assert timeout < 100 && timeout > 0 failed'' @ nl)), None)
           else
             let tty = tty1\<lparr>c_vtime := word_of_int \<lfloor>timeout * 10\<rfloor>, c_cflag := set_cflag t (c_cflag tty1),
                         c_iflag := set_iflag t (c_iflag tty1), c_oflag := c_oflag tty1 AND NOT (OPOST t)\<rparr>
             in if tcsetattr t fd tty \<noteq> 0 then (Failed (Panic (''tcsetattr failed'' @ nl)), None)
                else (Ret fd, Some tty))"

section \<open>What the line is set to\<close>

text \<open>
  The control flags of \<open>termios.h\<close>: eight data bits is a value of the size field, and the fields the
  code sets and clears do not overlap.
\<close>

definition flags_ok :: "tty_host \<Rightarrow> bool" where
  "flags_ok t \<longleftrightarrow> CS8 t AND CSIZE t = CS8 t
     \<and> (\<forall>a \<in> {PARENB t, CSTOPB t, CRTSCTS t}. a AND (CSIZE t OR CREAD t OR CLOCAL t) = 0)
     \<and> CSIZE t AND (CREAD t OR CLOCAL t) = 0"

lemma set_cflag_bits:
  assumes "flags_ok t"
  shows "set_cflag t c AND CSIZE t = CS8 t" "set_cflag t c AND PARENB t = 0" "set_cflag t c AND CSTOPB t = 0"
    "set_cflag t c AND CRTSCTS t = 0" "CREAD t AND set_cflag t c = CREAD t" "CLOCAL t AND set_cflag t c = CLOCAL t"
proof -
  have cs: "CS8 t AND CSIZE t = CS8 t" and d: "CSIZE t AND (CREAD t OR CLOCAL t) = 0"
    and p: "PARENB t AND (CSIZE t OR CREAD t OR CLOCAL t) = 0" "CSTOPB t AND (CSIZE t OR CREAD t OR CLOCAL t) = 0"
      "CRTSCTS t AND (CSIZE t OR CREAD t OR CLOCAL t) = 0"
    using assms by (simp_all add: flags_ok_def)
  have b: "bit (CS8 t) n \<longrightarrow> bit (CSIZE t) n" "\<not> (bit (CSIZE t) n \<and> (bit (CREAD t) n \<or> bit (CLOCAL t) n))"
    "\<not> (bit (PARENB t) n \<and> (bit (CSIZE t) n \<or> bit (CS8 t) n \<or> bit (CREAD t) n \<or> bit (CLOCAL t) n))"
    "\<not> (bit (CSTOPB t) n \<and> (bit (CSIZE t) n \<or> bit (CS8 t) n \<or> bit (CREAD t) n \<or> bit (CLOCAL t) n))"
    "\<not> (bit (CRTSCTS t) n \<and> (bit (CSIZE t) n \<or> bit (CS8 t) n \<or> bit (CREAD t) n \<or> bit (CLOCAL t) n))" for n
    using arg_cong[OF cs, of "\<lambda>x. bit x n"] arg_cong[OF d, of "\<lambda>x. bit x n"]
      arg_cong[OF p(1), of "\<lambda>x. bit x n"] arg_cong[OF p(2), of "\<lambda>x. bit x n"]
      arg_cong[OF p(3), of "\<lambda>x. bit x n"]
    by (auto simp: bit_simps)
  show "set_cflag t c AND CSIZE t = CS8 t" "set_cflag t c AND PARENB t = 0" "set_cflag t c AND CSTOPB t = 0"
    "set_cflag t c AND CRTSCTS t = 0" "CREAD t AND set_cflag t c = CREAD t" "CLOCAL t AND set_cflag t c = CLOCAL t"
    using b by (auto intro!: bit_word_eqI simp: set_cflag_def bit_simps)
qed

text \<open>
  A terminal that is accepted is raw with eight data bits, no parity, one stop bit and no flow
  control, and returns from \<open>read\<close> after the timeout; up to 25.5 seconds, that is, because the field
  that holds it in tenths has eight bits.
\<close>

theorem set_tty_raw:
  assumes "flags_ok t" "set_tty_to_8n1 t fd speed timeout = (Ret fd, Some tty)"
  shows "c_lflag tty = 0 \<and> c_oflag tty = 0 \<and> c_vmin tty = 0
    \<and> c_cflag tty AND CSIZE t = CS8 t \<and> c_cflag tty AND PARENB t = 0 \<and> c_cflag tty AND CSTOPB t = 0
    \<and> c_cflag tty AND CRTSCTS t = 0 \<and> c_iflag tty AND (IXON t OR IXOFF t OR IXANY t) = 0
    \<and> c_vtime tty = word_of_int \<lfloor>timeout * 10\<rfloor>
    \<and> (timeout < 256 / 10 \<longrightarrow> uint (c_vtime tty) = \<lfloor>timeout * 10\<rfloor>)"
proof -
  have i: "set_iflag t i AND (IXON t OR IXOFF t OR IXANY t) = 0" for i
    by (rule bit_word_eqI) (auto simp: set_iflag_def bit_simps)
  have r: "0 < timeout" "tty = (let tty0 = cfsetspeed t zero_termios speed;
      tty1 = tty0\<lparr>c_iflag := c_iflag tty0 AND NOT (IGNBRK t), c_lflag := 0, c_oflag := 0, c_vmin := 0\<rparr>
      in tty1\<lparr>c_vtime := word_of_int \<lfloor>timeout * 10\<rfloor>, c_cflag := set_cflag t (c_cflag tty1),
         c_iflag := set_iflag t (c_iflag tty1), c_oflag := c_oflag tty1 AND NOT (OPOST t)\<rparr>)"
    using assms(2) by (auto simp: set_tty_to_8n1_def Let_def split: if_splits)
  have "uint (word_of_int \<lfloor>timeout * 10\<rfloor> :: u8) = \<lfloor>timeout * 10\<rfloor>" if "timeout < 256 / 10"
  proof -
    have "\<lfloor>timeout * 10\<rfloor> < 256" "0 \<le> \<lfloor>timeout * 10\<rfloor>" using that r(1) by (simp_all add: floor_less_iff)
    then show ?thesis by (simp add: uint_word_of_int)
  qed
  then show ?thesis using set_cflag_bits[OF assms(1)] i by (simp add: r(2) Let_def)
qed

text \<open>A host with the flags of macOS, and a terminal that accepts every setting.\<close>

definition demo_tty :: tty_host where
  "demo_tty = \<lparr>tcgetattr = (\<lambda>_. 0), cfsetspeed = (\<lambda>t s. t), tcsetattr = (\<lambda>_ _. 0),
     IGNBRK = 1, IXON = 0x200, IXOFF = 0x400, IXANY = 0x800, ICANON = 0x100, ECHO = 8, ECHOE = 2,
     ISIG = 0x80, OPOST = 1, PARENB = 0x1000, CSTOPB = 0x400, CSIZE = 0x300, CS8 = 0x300,
     CRTSCTS = 0x30000, CREAD = 0x800, CLOCAL = 0x8000, B115200 = 115200\<rparr>"

lemma demo_tty_ok: "flags_ok demo_tty" "fst (set_tty_to_8n1 demo_tty 3 115200 10) = Ret 3"
  by (simp_all add: flags_ok_def demo_tty_def set_tty_to_8n1_def Let_def)

theorem set_tty_raw_witness:
  "\<exists>tty. set_tty_to_8n1 demo_tty 3 115200 10 = (Ret 3, Some tty) \<and> c_lflag tty = 0
    \<and> c_cflag tty AND 0x300 = 0x300 \<and> uint (c_vtime tty) = 100"
proof -
  obtain tty where t: "set_tty_to_8n1 demo_tty 3 115200 10 = (Ret 3, Some tty)"
    by (simp add: demo_tty_def set_tty_to_8n1_def Let_def)
  have "c_lflag tty = 0 \<and> c_cflag tty AND CSIZE demo_tty = CS8 demo_tty \<and> uint (c_vtime tty) = 100"
    using set_tty_raw [OF demo_tty_ok(1) t] by simp
  then show ?thesis using t by (simp add: demo_tty_def)
qed

text \<open>A timeout of 25.6 seconds is accepted and becomes no timeout at all.\<close>

lemma long_timeout_wraps:
  "\<exists>tty. set_tty_to_8n1 demo_tty 3 115200 (256 / 10) = (Ret 3, Some tty) \<and> c_vtime tty = 0"
  by (simp add: demo_tty_def set_tty_to_8n1_def Let_def)

end
