(* ===== verification/Boot_Defs.thy ===== *)
theory Boot_Defs
  imports Serial
begin

text \<open>
  The words of the boot protocol (\<open>boot-defs.h\<close>, the same file on both sides) and sending and
  receiving words on the Pi (\<open>src/pi-src/get-code.h\<close>).
\<close>

definition ARMBASE :: u32 where "ARMBASE = 0x8000"
definition BOOT_START :: u32 where "BOOT_START = 0xFFFF0000"
definition GET_PROG_INFO :: u32 where "GET_PROG_INFO = 0x11112222"
definition PUT_PROG_INFO :: u32 where "PUT_PROG_INFO = 0x33334444"
definition GET_CODE :: u32 where "GET_CODE = 0x55556666"
definition PUT_CODE :: u32 where "PUT_CODE = 0x77778888"
definition BOOT_SUCCESS :: u32 where "BOOT_SUCCESS = 0x9999AAAA"
definition BOOT_ERROR :: u32 where "BOOT_ERROR = 0xBBBBCCCC"
definition PRINT_STRING :: u32 where "PRINT_STRING = 0xDDDDEEEE"
definition DUMMY :: u32 where "DUMMY = 0x12345678"
definition DUMMY2 :: u32 where "DUMMY2 = 0x9abcdeff"
definition CONFIG_INIT :: u32 where "CONFIG_INIT = 0x0000EEEE"
definition FS_ID_START :: u32 where "FS_ID_START = 0x0000FFFF"
definition REQUEST_ID :: u32 where "REQUEST_ID = 0xCCCCDDDD"

lemmas opcode_defs =
  BOOT_START_def GET_PROG_INFO_def PUT_PROG_INFO_def GET_CODE_def PUT_CODE_def BOOT_SUCCESS_def
  BOOT_ERROR_def PRINT_STRING_def DUMMY_def DUMMY2_def CONFIG_INIT_def FS_ID_START_def REQUEST_ID_def

definition boot_op_to_str :: "u32 \<Rightarrow> string" where
  "boot_op_to_str op =
     (if op = BOOT_START then ''BOOT_START''
      else if op = GET_PROG_INFO then ''GET_PROG_INFO''
      else if op = PUT_PROG_INFO then ''PUT_PROG_INFO''
      else if op = GET_CODE then ''GET_CODE''
      else if op = PUT_CODE then ''PUT_CODE''
      else if op = BOOT_SUCCESS then ''BOOT_SUCCESS''
      else if op = PRINT_STRING then ''PRINT_STRING''
      else if op = BOOT_ERROR then ''BOOT_ERROR''
      else ''UNKNOWN'')"

section \<open>Words on the line\<close>

text \<open>Four bytes make a word, the first one least significant, on both sides.\<close>

definition boot_get32 :: "('w, u32) serial" where
  "boot_get32 =
     andthen recv8 (\<lambda>b0. andthen recv8 (\<lambda>b1. andthen recv8 (\<lambda>b2. andthen recv8 (\<lambda>b3.
       ret (ucast b0 OR push_bit 8 (ucast b1) OR push_bit 16 (ucast b2) OR push_bit 24 (ucast b3))))))"

definition boot_put32 :: "u32 \<Rightarrow> ('w, unit) serial" where
  "boot_put32 u =
     andthen (send [ucast (drop_bit 0 u AND 0xff)]) (\<lambda>_.
     andthen (send [ucast (drop_bit 8 u AND 0xff)]) (\<lambda>_.
     andthen (send [ucast (drop_bit 16 u AND 0xff)]) (\<lambda>_.
       send [ucast (drop_bit 24 u AND 0xff)])))"

text \<open>The window over the last four bytes that the waiting loops keep in \<open>op\<close>.\<close>

definition shift_in :: "u32 \<Rightarrow> u8 \<Rightarrow> u32" where
  "shift_in op b = drop_bit 8 op OR push_bit 24 (ucast b)"

lemma shift_in_le32: "shift_in (le32 a b c d) e = le32 b c d e"
proof (rule bit_word_eqI)
  fix n assume "n < LENGTH(32)"
  then show "bit (shift_in (le32 a b c d) e) n = bit (le32 b c d e) n"
    by (cases "n < 8"; cases "n < 16"; cases "n < 24")
       (auto simp: shift_in_def le32_def bit_simps dest: bit_imp_le_length)
qed

lemma le32_exists: "\<exists>a b c d. op = le32 a b c d"
  by (metis le32_bytes)

lemma boot_get32_run:
  "boot_get32 \<lparr>inp = b0 # b1 # b2 # b3 # bs, outp = os, env = w\<rparr> =
     (Ret (le32 b0 b1 b2 b3), \<lparr>inp = bs, outp = os, env = w\<rparr>)"
  by (simp add: boot_get32_def andthen_def recv8_def le32_def)

lemma boot_put32_run: "boot_put32 u p = (Ret (), p\<lparr>outp := outp p @ bytes32 u\<rparr>)"
proof -
  have e: "ucast (drop_bit k u AND 0xff) = (ucast (drop_bit k u) :: u8)" for k
  proof (rule bit_word_eqI)
    fix n assume n: "n < LENGTH(8)"
    have m: "(0xff :: u32) = mask 8" by (simp add: mask_eq_exp_minus_1)
    have "bit (0xff :: u32) n" unfolding m using n by (simp add: bit_mask_iff)
    then show "bit (ucast (drop_bit k u AND 0xff) :: u8) n = bit (ucast (drop_bit k u) :: u8) n"
      by (auto simp: bit_simps simp del: bit_numeral_word_iff)
  qed
  show ?thesis
    unfolding boot_put32_def e by (simp add: andthen_def bytes32_def byte_of_def)
qed

lemma causal_words [intro]: "causal boot_get32" "causal (boot_put32 u)"
  unfolding boot_get32_def boot_put32_def by (intro causal_andthen causal_recv8 causal_ret causal_send)+

text \<open>A word sent is the word received.\<close>

lemma boot_word_roundtrip:
  "boot_get32 \<lparr>inp = outp (snd (boot_put32 u (fresh () []))) @ bs, outp = os, env = w\<rparr> =
     (Ret u, \<lparr>inp = bs, outp = os, env = w\<rparr>)"
  by (simp add: boot_put32_run fresh_def bytes32_def boot_get32_run)
     (metis le32_bytes One_nat_def)

end
