(* ===== verification/Host_Boot.thy ===== *)
theory Host_Boot
  imports Boot_Defs Crc32
begin

text \<open>
  The host's side of the line, \<open>src/mac-src/bootpi.c\<close>: loading the program (\<open>boot\<close>) and the
  set-up of the file store (\<open>dfs_boot\<close>). The file descriptor is the port. A read that finds no byte
  is \<open>Starved\<close>: the code panics if none arrives within the terminal's timeout. \<open>panic\<close> on the host
  prints and exits; what the host prints is left out, except the bytes of strings a Pi sends.
\<close>

record pi =
  pi_open :: bool
  connected :: bool
  shown :: bytes

definition put8 :: "u8 \<Rightarrow> (pi, unit) serial" where
  "put8 v p =
     (if connected (env p) then send [v] p
      else fail_with (Panic ''put8: Expected a write of 1 byte'') p)"

definition get8 :: "(pi, u8) serial" where
  "get8 p =
     (if connected (env p) then recv8 p
      else fail_with (Panic ''get8: Read of 1 byte returned error'') p)"

text \<open>\<open>put32\<close> writes the word as it is in memory; the pause after it is for the Pi to keep up.\<close>

definition put32 :: "u32 \<Rightarrow> (pi, unit) serial" where
  "put32 v p =
     (if connected (env p) then send (bytes32 v) p
      else fail_with (Panic ''put32: Expected a write of 4 bytes'') p)"

definition get32 :: "(pi, u32) serial" where
  "get32 =
     andthen get8 (\<lambda>b0. andthen get8 (\<lambda>b1. andthen get8 (\<lambda>b2. andthen get8 (\<lambda>b3.
       ret (ucast b0 OR push_bit 8 (ucast b1) OR push_bit 16 (ucast b2) OR push_bit 24 (ucast b3))))))"

text \<open>\<open>while((op = get32(fd)) != DUMMY)\<close> and its relatives.\<close>

definition get32_until :: "(u32 \<Rightarrow> bool) \<Rightarrow> (pi, u32) serial" where
  "get32_until ok = andthen get32 (while_do (\<lambda>op. \<not> ok op) (\<lambda>op. get32))"

definition wait_dummy :: "(pi, u32) serial" where
  "wait_dummy = get32_until (\<lambda>op. op = DUMMY)"

section \<open>Setting the file store up\<close>

text \<open>\<open>n\<close> words of the string, each answered by a \<open>DUMMY\<close>; \<open>is\<close> are the values of the counter.\<close>

fun send_words :: "bytes \<Rightarrow> nat list \<Rightarrow> (pi, unit) serial" where
  "send_words to_send [] = ret ()"
| "send_words to_send (i # is) =
     (if 4 * i + 4 \<le> length to_send
      then andthen (put32 (u32_at to_send (4 * i))) (\<lambda>_. andthen wait_dummy (\<lambda>_. send_words to_send is))
      else fail_with Undef)"

definition send_string :: "bytes \<Rightarrow> nat \<Rightarrow> (pi, unit) serial" where
  "send_string to_send n = send_words to_send [0..<n]"

text \<open>
  \<open>num_ready\<close> is what \<open>select\<close> returns: 0 when 20 seconds pass without a byte. The result is
  the value returned, the word after the answer (whose low byte the code prints as the id the Pi claims
  to have) and the next assignable id.
\<close>

definition dfs_boot :: "int \<Rightarrow> bytes \<Rightarrow> nat \<Rightarrow> u32 \<Rightarrow> (pi, int \<times> u32 \<times> u32) serial" where
  "dfs_boot num_ready dfs_name words_in_name assignable_id =
     andthen (put32 FS_ID_START) (\<lambda>_.
     andthen wait_dummy (\<lambda>_.
     andthen (send_string dfs_name words_in_name) (\<lambda>_.
     andthen (put32 CONFIG_INIT) (\<lambda>_.
       if num_ready = 0 then ret (- 1, 0, assignable_id)
       else
         andthen wait_dummy (\<lambda>_.
         andthen (put32 REQUEST_ID) (\<lambda>_.
         andthen wait_dummy (\<lambda>_.
         andthen (put32 (0xffffff00 OR assignable_id)) (\<lambda>_.
         andthen (get32_until (\<lambda>op. op = DUMMY \<or> op = DUMMY2)) (\<lambda>op.
         andthen get32 (\<lambda>claimed.
           ret (0, claimed, if op = DUMMY2 then assignable_id + 1 else assignable_id)))))))))))"

section \<open>Loading the program\<close>

text \<open>The string a Pi prints: its bytes are shown on the host.\<close>

fun show_bytes :: "nat \<Rightarrow> (pi, unit) serial" where
  "show_bytes 0 = ret ()"
| "show_bytes (Suc n) =
     andthen get8 (\<lambda>b. andthen (\<lambda>p. (Ret (), p\<lparr>env := (env p)\<lparr>shown := shown (env p) @ [b]\<rparr>\<rparr>))
       (\<lambda>_. show_bytes n))"

definition drain_body :: "u32 \<Rightarrow> (pi, u32) serial" where
  "drain_body op =
     andthen get8 (\<lambda>b.
       let op' = shift_in op b in
       if op' = PRINT_STRING
       then andthen get32 (\<lambda>len. andthen (show_bytes (unat len)) (\<lambda>_. ret op'))
       else ret op')"

fun send_code :: "bytes \<Rightarrow> nat list \<Rightarrow> (pi, unit) serial" where
  "send_code program [] = ret ()"
| "send_code program (i # is) =
     (case rd_at program i of
        None \<Rightarrow> fail_with Undef
      | Some b \<Rightarrow> andthen (put8 b) (\<lambda>_. send_code program is))"

text \<open>Waiting for the last word with its counter \<open>i\<close>; \<open>(uint16_t)-1 << 16\<close> is compared as unsigned.\<close>

definition success_body :: "u32 \<times> u32 \<Rightarrow> (pi, u32 \<times> u32) serial" where
  "success_body x =
     (let (i, op) = x in
      if 0xFFFF0000 < i
      then fail_with (Panic ''Did not receive a BOOT_SUCCESS from pi, aborting boot.'')
      else andthen get32 (\<lambda>op'. ret (i + 1, op')))"

definition boot :: "bytes \<Rightarrow> u32 \<Rightarrow> (pi, int) serial" where
  "boot program nbytes =
     andthen get32 (\<lambda>op0.
     andthen (while_do (\<lambda>op. op \<noteq> GET_PROG_INFO) drain_body op0) (\<lambda>_.
     andthen (put32 PUT_PROG_INFO) (\<lambda>_.
     andthen (put32 ARMBASE) (\<lambda>_.
     andthen (put32 nbytes) (\<lambda>_.
     case crc32 program nbytes of
       None \<Rightarrow> fail_with Undef
     | Some crc \<Rightarrow>
         andthen (put32 crc) (\<lambda>_.
         andthen (get32_until (\<lambda>op. op \<noteq> GET_PROG_INFO)) (\<lambda>op.
           if op \<noteq> GET_CODE
           then fail_with (Panic ''Did not receive a GET_CODE from pi, aborting boot.'')
           else
             andthen (put32 PUT_CODE) (\<lambda>_.
             andthen (send_code program [0..<unat nbytes]) (\<lambda>_.
             andthen get32 (\<lambda>op1.
             andthen (while_do (\<lambda>x. snd x \<noteq> BOOT_SUCCESS) success_body (0, op1)) (\<lambda>_.
             \<lambda>p. (Ret 0, p\<lparr>env := (env p)\<lparr>pi_open := True\<rparr>\<rparr>)))))))))))) "

end
