(* ===== verification/Pi_Main.thy ===== *)
theory Pi_Main
  imports Boot_Defs Printk Dfs
begin

text \<open>
  The program that runs on a Pi, \<open>src/pi-src/main.c\<close>: a program on the serial line whose other state
  is the FAT32 driver's (with the card below it). \<open>uart_get8\<close> and \<open>uart_put8\<close> are \<open>recv8\<close> and
  \<open>send\<close>. \<open>fat32_alloc_local_file\<close> prints only under \<open>#if DEBUG\<close>, which no file and no build rule
  defines, so the line carries nothing while the configuration file is created.
\<close>

definition uart_put_dummy :: "('w, unit) serial" where
  "uart_put_dummy =
     andthen (send [0x78]) (\<lambda>_. andthen (send [0x56]) (\<lambda>_. andthen (send [0x34]) (\<lambda>_. send [0x12])))"

definition uart_put_dummy2 :: "('w, unit) serial" where
  "uart_put_dummy2 =
     andthen (send [0xff]) (\<lambda>_. andthen (send [0xde]) (\<lambda>_. andthen (send [0xbc]) (\<lambda>_. send [0x9a])))"

text \<open>Four bytes shifted into \<open>op\<close>.\<close>

definition shift4 :: "u32 \<Rightarrow> ('w, u32) serial" where
  "shift4 op =
     andthen recv8 (\<lambda>b0. andthen recv8 (\<lambda>b1. andthen recv8 (\<lambda>b2. andthen recv8 (\<lambda>b3.
       ret (shift_in (shift_in (shift_in (shift_in op b0) b1) b2) b3)))))"

fun get_words :: "nat list \<Rightarrow> u32 \<Rightarrow> bytes \<Rightarrow> ('w, bytes) serial" where
  "get_words [] op name = ret name"
| "get_words (i # is) op name =
     andthen (shift4 op) (\<lambda>op'.
       if 4 * i + 4 \<le> length name then
         let name' = splice (4 * i) (bytes32 op') name in
         andthen uart_put_dummy (\<lambda>_. if op' = 0xffffffff then ret name' else get_words is op' name')
       else fail_with Undef)"

definition get_string :: "bytes \<Rightarrow> ('w, bytes) serial" where
  "get_string name = get_words [0..<MAX_DFS_NAME_LEN div 4] 0 name"

text \<open>\<open>while(op != code)\<close> shift in one more byte.\<close>

definition wait_op :: "u32 \<Rightarrow> u32 \<Rightarrow> ('w, u32) serial" where
  "wait_op code op = while_do (\<lambda>op. op \<noteq> code) (\<lambda>op. andthen recv8 (\<lambda>b. ret (shift_in op b))) op"

text \<open>A routine of the file system: \<open>panic\<close> prints on the line before it halts.\<close>

definition on_card :: "('w \<Rightarrow> ('a \<times> 'w) res option) \<Rightarrow> ('w, 'a) serial" where
  "on_card f p =
     (case f (env p) of
        None \<Rightarrow> (Diverged, p)
      | Some (Inr (a, w)) \<Rightarrow> (Ret a, p\<lparr>env := w\<rparr>)
      | Some (Inl (Panic msg)) \<Rightarrow>
          (case panic (cstr msg) (outp p) of
             Inl e \<Rightarrow> (Failed e, p)
           | Inr out \<Rightarrow> (Failed (Panic msg), p\<lparr>outp := out\<rparr>))
      | Some (Inl e) \<Rightarrow> (Failed e, p))"

definition print :: "bytes \<Rightarrow> ('w, unit) serial" where
  "print s p =
     (case putk s (outp p) of
        Inl e \<Rightarrow> (Failed e, p)
      | Inr (r, out) \<Rightarrow> (Ret (), p\<lparr>outp := out\<rparr>))"

text \<open>The two answers to the request for an id.\<close>

definition answer_new :: "u32 \<Rightarrow> ('w, unit) serial" where
  "answer_new op =
     andthen uart_put_dummy2 (\<lambda>_.
     andthen (send [ucast (op AND 0xff)]) (\<lambda>_. andthen (send [ucast (op AND 0xff)]) (\<lambda>_.
     andthen (send [ucast (op AND 0xff)]) (\<lambda>_. send [ucast (op AND 0xff)]))))"

definition answer_known :: "int \<Rightarrow> ('w, unit) serial" where
  "answer_known i =
     andthen uart_put_dummy (\<lambda>_.
     andthen (send [of_int i]) (\<lambda>_. andthen (send [of_int i]) (\<lambda>_.
     andthen (send [of_int i]) (\<lambda>_. send [of_int i]))))"

text \<open>\<open>entry\<close> from the end: answering with the id, waiting for the request, setting the card up.\<close>

definition finish_entry ::
  "'d read_fn \<Rightarrow> 'd write_fn \<Rightarrow> bytes \<Rightarrow> bytes \<Rightarrow> u32 \<Rightarrow> u32 \<Rightarrow> ('d fs, unit) serial" where
  "finish_entry rd wr sec0 nm cfg op1 =
     andthen (shift4 op1) (\<lambda>op2.
       let op = op2 AND 0xff in
       andthen (on_card (\<lambda>s. Some (id_for_dfs rd wr s cfg nm (uint op) sec0))) (\<lambda>i.
       andthen (if i = - 1 then answer_new op else answer_known i) (\<lambda>_.
         print (cstr done_line))))"

definition request_entry ::
  "'d read_fn \<Rightarrow> 'd write_fn \<Rightarrow> bytes \<Rightarrow> bytes \<Rightarrow> u32 \<Rightarrow> ('d fs, unit) serial" where
  "request_entry rd wr sec0 nm cfg =
     andthen (wait_op REQUEST_ID 0) (\<lambda>op1. andthen uart_put_dummy (\<lambda>_. finish_entry rd wr sec0 nm cfg op1))"

definition setup_entry ::
  "'d read_fn \<Rightarrow> 'd write_fn \<Rightarrow> bytes \<Rightarrow> bytes \<Rightarrow> bytes \<Rightarrow> u32 \<Rightarrow> bytes \<Rightarrow> ('d fs, unit) serial" where
  "setup_entry rd wr b1 b2 sec0 op0 nm =
     andthen (wait_op CONFIG_INIT op0) (\<lambda>_.
     andthen (on_card (\<lambda>s. Some (fat32_init s rd wr))) (\<lambda>_.
     andthen (on_card (\<lambda>s. dfs_init_config s b1 b2)) (\<lambda>cfg.
     andthen uart_put_dummy (\<lambda>_. request_entry rd wr sec0 nm cfg))))"

text \<open>
  \<open>name0\<close>, \<open>b1\<close>, \<open>b2\<close> and \<open>sec0\<close> are what the stack holds in \<open>dfs_name\<close> and in the sector buffers of
  the routines called.
\<close>

definition entry ::
  "'d read_fn \<Rightarrow> 'd write_fn \<Rightarrow> bytes \<Rightarrow> bytes \<Rightarrow> bytes \<Rightarrow> bytes \<Rightarrow> ('d fs, unit) serial" where
  "entry rd wr name0 b1 b2 sec0 =
     andthen (wait_op FS_ID_START 0) (\<lambda>op0.
     andthen uart_put_dummy (\<lambda>_.
     andthen (get_string name0) (\<lambda>dfs_name.
       setup_entry rd wr b1 b2 sec0 op0 dfs_name)))"

section \<open>The pieces are causal\<close>

lemma causal_dummy [intro]: "causal uart_put_dummy" "causal uart_put_dummy2"
  unfolding uart_put_dummy_def uart_put_dummy2_def by (intro causal_andthen causal_send)+

lemma causal_shift4 [intro]: "causal (shift4 op)"
  unfolding shift4_def by (intro causal_andthen causal_recv8 causal_ret)

lemma causal_get_words [intro]: "causal (get_words is op name)"
proof (induction "is" arbitrary: op name)
  case (Cons i "is")
  show ?case
    unfolding get_words.simps Let_def
    by (intro causal_andthen causal_shift4 causal_if causal_dummy causal_ret Cons.IH causal_fail)
qed (simp add: causal_ret)

lemma causal_wait_op [intro]: "causal (wait_op code op)"
  unfolding wait_op_def by (intro causal_while_do causal_andthen causal_recv8 causal_ret)

lemma putk_prefix: "putk s out = Inr (r, out') \<Longrightarrow> prefix out out'"
proof -
  have "put_string putchar s out = Inr out' \<Longrightarrow> prefix out out'" for s out
    by (induction s arbitrary: out) (auto simp: putchar_def split: if_splits dest: append_prefixD)
  then show "putk s out = Inr (r, out') \<Longrightarrow> prefix out out'"
    by (auto simp: putk_def ok_bind_def split: sum.splits)
qed

lemma panic_prefix: "panic msg out = Inr out' \<Longrightarrow> prefix out out'"
  by (auto simp: panic_def ok_bind_def split: sum.splits dest!: putk_prefix)
     (metis prefix_order.trans)

lemma causal_on_card [intro]: "causal (on_card f)"
proof (rule causalI)
  show "prefix (outp p) (outp (snd (on_card f p)))" for p
    by (auto simp: on_card_def split: option.splits sum.splits fault.splits dest: panic_prefix)
qed (auto simp: on_card_def split: option.splits sum.splits fault.splits)

lemma causal_print [intro]: "causal (print s)"
proof (rule causalI)
  show "prefix (outp p) (outp (snd (print s p)))" for p
    by (auto simp: print_def split: sum.splits dest: putk_prefix)
qed (auto simp: print_def split: sum.splits)

lemma causal_answers [intro]: "causal (answer_new op)" "causal (answer_known i)"
  unfolding answer_new_def answer_known_def
  by (intro causal_andthen causal_send causal_dummy)+

lemmas entry_parts = setup_entry_def request_entry_def finish_entry_def

lemma causal_entry_parts:
  "causal (finish_entry rd wr sec0 nm cfg op1)" "causal (request_entry rd wr sec0 nm cfg)"
  "causal (setup_entry rd wr b1 b2 sec0 op0 nm)"
  unfolding entry_parts Let_def
  by (intro causal_andthen causal_wait_op causal_dummy causal_on_card
      causal_shift4 causal_if causal_answers causal_print)+

lemma causal_entry: "causal (entry rd wr name0 b1 b2 sec0)"
  unfolding entry_def get_string_def
  by (intro causal_andthen causal_wait_op causal_dummy causal_get_words causal_entry_parts)

end
