(* ===== verification/Protocol.thy ===== *)
theory Protocol
  imports Host_Boot Pi_Main
begin

text \<open>
  The host's \<open>dfs_boot\<close> and the Pi's \<open>entry\<close> on one line. The host is a sequence of words, each of
  which waits for a \<open>DUMMY\<close> before the next (\<open>asks\<close>); the Pi serves a sequence of words, answering each
  with a \<open>DUMMY\<close> (\<open>serves\<close>). Together they make the runs of the protocol.
\<close>

definition words :: "u32 list \<Rightarrow> bytes" where
  "words ws = concat (map bytes32 ws)"

definition dummies :: "nat \<Rightarrow> bytes" where
  "dummies n = words (replicate n DUMMY)"

lemma words_simps [simp]: "words [] = []" "words (w # ws) = bytes32 w @ words ws"
  "words (vs @ ws) = words vs @ words ws"
  by (simp_all add: words_def)

lemma dummies_simps [simp]: "dummies 0 = []" "dummies (Suc n) = bytes32 DUMMY @ dummies n"
  by (simp_all add: dummies_def)

lemma dummies_add: "dummies (m + n) = dummies m @ dummies n"
  by (induction m) simp_all

lemma le32_of_bytes32 [simp]:
  "ucast (byte_of 0 w) OR push_bit 8 (ucast (byte_of (Suc 0) w)) OR push_bit 16 (ucast (byte_of 2 w))
    OR push_bit 24 (ucast (byte_of 3 w)) = (w :: u32)"
  using le32_bytes[of w] by (simp add: le32_def)

lemma le32_byte_of [simp]: "le32 (byte_of 0 w) (byte_of (Suc 0) w) (byte_of 2 w) (byte_of 3 w) = w"
  using le32_bytes[of w] by simp

section \<open>The host asks\<close>

lemma get32_run:
  "connected w \<Longrightarrow> get32 \<lparr>inp = bytes32 v @ bs, outp = os, env = w\<rparr> = (Ret v, \<lparr>inp = bs, outp = os, env = w\<rparr>)"
  by (simp add: get32_def get8_def andthen_def recv8_def bytes32_def)

lemma get32_Starved:
  "connected w \<Longrightarrow> get32 \<lparr>inp = [], outp = os, env = w\<rparr> = (Starved, \<lparr>inp = [], outp = os, env = w\<rparr>)"
  by (simp add: get32_def get8_def andthen_def recv8_def)

lemma put32_run: "connected (env p) \<Longrightarrow> put32 v p = (Ret (), p\<lparr>outp := outp p @ bytes32 v\<rparr>)"
  by (simp add: put32_def)

lemma causal_get8 [intro]: "causal get8"
  by (rule causalI)
     (auto simp: get8_def fail_with_def recv8_def later_def split: if_splits list.splits)

lemma causal_get32 [intro]: "causal get32"
  unfolding get32_def by (intro causal_andthen causal_get8 causal_ret)

lemma causal_put32 [intro]: "causal (put32 v)"
  by (rule causalI) (auto simp: put32_def fail_with_def split: if_splits)

lemma causal_get32_until [intro]: "causal (get32_until ok)"
  unfolding get32_until_def by (intro causal_andthen causal_get32 causal_while_do)

lemma causal_wait_dummy [intro]: "causal wait_dummy"
  unfolding wait_dummy_def by (rule causal_get32_until)

lemma causal_send_words [intro]: "causal (send_words s is)"
proof (induction "is")
  case Nil
  show ?case unfolding send_words.simps by (rule causal_ret)
next
  case (Cons i "is")
  show ?case
    unfolding send_words.simps
    by (intro causal_if causal_andthen causal_put32 causal_wait_dummy causal_fail Cons.IH)
qed

lemma causal_dfs_boot: "causal (dfs_boot num_ready dfs_name n assignable_id)"
  unfolding dfs_boot_def send_string_def
  by (intro causal_andthen causal_put32 causal_wait_dummy causal_send_words causal_if causal_ret
      causal_get32_until causal_get32)

lemma get32_until_run:
  "connected w \<Longrightarrow> ok v \<Longrightarrow>
   get32_until ok \<lparr>inp = bytes32 v @ bs, outp = os, env = w\<rparr> = (Ret v, \<lparr>inp = bs, outp = os, env = w\<rparr>)"
  by (simp add: get32_until_def andthen_def get32_run while_do_stop)

lemma wait_dummy_run:
  "connected w \<Longrightarrow>
   wait_dummy \<lparr>inp = bytes32 DUMMY @ bs, outp = os, env = w\<rparr> = (Ret DUMMY, \<lparr>inp = bs, outp = os, env = w\<rparr>)"
  by (simp add: wait_dummy_def get32_until_run)

definition ask :: "u32 \<Rightarrow> (pi, 'a) serial \<Rightarrow> (pi, 'a) serial" where
  "ask w m = andthen (put32 w) (\<lambda>_. andthen wait_dummy (\<lambda>_. m))"

definition asks :: "u32 list \<Rightarrow> (pi, 'a) serial \<Rightarrow> (pi, 'a) serial" where
  "asks ws m = foldr ask ws m"

lemma asks_simps [simp]: "asks [] m = m" "asks (w # ws) m = ask w (asks ws m)"
  "asks (vs @ ws) m = asks vs (asks ws m)"
  by (simp_all add: asks_def)

lemma causal_asks [intro]: "causal m \<Longrightarrow> causal (asks ws m)"
  by (induction ws) (auto simp: ask_def intro!: causal_andthen)

lemma andthen_assoc: "andthen (andthen m f) g = andthen m (\<lambda>x. andthen (f x) g)"
  by (rule ext) (auto simp: andthen_def split: prod.splits outcome.splits)

lemma andthen_ret: "andthen (ret x) f = f x"
  by (rule ext) (simp add: andthen_def)

lemma send_words_asks:
  "(\<And>i. i \<in> set is \<Longrightarrow> 4 * i + 4 \<le> length s)
   \<Longrightarrow> andthen (send_words s is) (\<lambda>_. m) = asks (map (\<lambda>i. u32_at s (4 * i)) is) m"
  by (induction "is") (simp_all add: andthen_ret andthen_assoc ask_def)

lemma ask_run:
  "connected e \<Longrightarrow> ask w m \<lparr>inp = bytes32 DUMMY @ bs, outp = os, env = e\<rparr> =
     m \<lparr>inp = bs, outp = os @ bytes32 w, env = e\<rparr>"
  by (simp add: ask_def andthen_def put32_def wait_dummy_run)

lemma asks_run:
  "connected e \<Longrightarrow> asks ws m \<lparr>inp = dummies (length ws) @ bs, outp = os, env = e\<rparr> =
     m \<lparr>inp = bs, outp = os @ words ws, env = e\<rparr>"
  by (induction ws arbitrary: os) (simp_all add: ask_run)

text \<open>After \<open>k\<close> answers the host has sent its first \<open>k + 1\<close> words.\<close>

lemma asks_ahead:
  assumes "connected e" "causal m" "k < length ws"
  shows "prefix (os @ words (take (Suc k) ws)) (outp (snd (asks ws m \<lparr>inp = dummies k, outp = os, env = e\<rparr>)))"
  using assms(3)
proof (induction ws arbitrary: k os)
  case (Cons w ws)
  show ?case
  proof (cases k)
    case 0
    let ?p = "\<lparr>inp = [], outp = os @ bytes32 w, env = e\<rparr>"
    have c: "causal (andthen wait_dummy (\<lambda>_. asks ws m))"
      using assms(2) by (intro causal_andthen causal_wait_dummy causal_asks)
    have "asks (w # ws) m \<lparr>inp = [], outp = os, env = e\<rparr> = andthen wait_dummy (\<lambda>_. asks ws m) ?p"
      using assms(1) by (simp add: ask_def andthen_def[of "put32 w"] put32_def)
    then show ?thesis using causal_outp[OF c, of ?p] 0 by simp
  next
    case (Suc j)
    then show ?thesis
      using Cons.IH[of j "os @ bytes32 w"] Cons.prems assms(1) by (simp add: ask_run)
  qed
qed simp

section \<open>The Pi serves\<close>

text \<open>
  \<open>serves e q ws e' q'\<close>: in state \<open>e\<close>, the program \<open>q\<close> reads the words \<open>ws\<close>, answers each with a \<open>DUMMY\<close>
  and goes on as \<open>q'\<close> in state \<open>e'\<close>.
\<close>

inductive serves :: "'w \<Rightarrow> ('w, 'a) serial \<Rightarrow> u32 list \<Rightarrow> 'w \<Rightarrow> ('w, 'a) serial \<Rightarrow> bool" where
  idle: "causal q \<Longrightarrow> serves e q [] e q"
| serve: "causal q
    \<Longrightarrow> (\<And>bs os. q \<lparr>inp = bytes32 w @ bs, outp = os, env = e\<rparr> =
          q1 \<lparr>inp = bs, outp = os @ bytes32 DUMMY, env = e1\<rparr>)
    \<Longrightarrow> serves e1 q1 ws e' q' \<Longrightarrow> serves e q (w # ws) e' q'"

lemma serves_trans: "serves e q ws e1 q1 \<Longrightarrow> serves e1 q1 vs e2 q2 \<Longrightarrow> serves e q (ws @ vs) e2 q2"
  by (induction rule: serves.induct) (auto intro: serves.intros)

lemma serves_run:
  "serves e q ws e' q' \<Longrightarrow> q \<lparr>inp = words ws @ bs, outp = os, env = e\<rparr> =
     q' \<lparr>inp = bs, outp = os @ dummies (length ws), env = e'\<rparr>"
  by (induction arbitrary: os rule: serves.induct) simp_all

lemma serves_prefix:
  "serves e q ws e' q' \<Longrightarrow> k \<le> length ws
   \<Longrightarrow> prefix (os @ dummies k) (outp (snd (q \<lparr>inp = words (take k ws), outp = os, env = e\<rparr>)))"
proof (induction arbitrary: k os rule: serves.induct)
  case (idle q e)
  then show ?case using causal_outp[OF idle(1), of "\<lparr>inp = [], outp = os, env = e\<rparr>"] by simp
next
  case (serve q w e q1 e1 ws e' q')
  show ?case
  proof (cases k)
    case 0
    then show ?thesis using causal_outp[OF serve(1), of "\<lparr>inp = [], outp = os, env = e\<rparr>"] by simp
  next
    case (Suc j)
    then show ?thesis using serve.IH[of j "os @ bytes32 DUMMY"] serve.prems serve.hyps(2) by simp
  qed
qed

section \<open>A conversation\<close>

lemma sent_run: "sent m w xs = outp (snd (m \<lparr>inp = xs, outp = [], env = w\<rparr>))"
  by (simp add: sent_def fresh_def)

lemma conversation:
  assumes "connected h" "causal m" "serves e q ws e' q'"
  shows "line_runs (sent (asks ws m) h) (sent q e) ([], []) (dummies (length ws), words ws)"
proof -
  let ?f = "sent (asks ws m) h" and ?g = "sent q e"
  have "causal q" using assms(3) by (cases rule: serves.cases) simp_all
  then have d: "duplex ?f ?g" using assms(2) by (intro duplex_sent causal_asks)
  have "line_runs ?f ?g ([], []) (dummies k, words (take k ws))" if "k \<le> length ws" for k
    using that
  proof (induction k)
    case 0
    then show ?case by (simp add: duplex.runs_refl[OF d])
  next
    case (Suc k)
    let ?W = "words (take k ws)" and ?W' = "words (take (Suc k) ws)"
    have W': "?W' = ?W @ bytes32 (ws ! k)" using Suc.prems by (simp add: take_Suc_conv_app_nth)
    have D': "dummies (Suc k) = dummies k @ bytes32 DUMMY" using dummies_add[of k 1] by simp
    have "prefix ?W' (?f (dummies k))"
      using asks_ahead[OF assms(1,2), of k ws "[]"] Suc.prems by (simp add: sent_run)
    then have r1: "line_runs ?f ?g (dummies k, ?W) (dummies k, ?W')"
      unfolding W' by (rule duplex.deliver_right[OF d])
    have "prefix (dummies (Suc k)) (?g ?W')"
      using serves_prefix[OF assms(3), of "Suc k" "[]"] Suc.prems by (simp add: sent_run)
    then have r2: "line_runs ?f ?g (dummies k, ?W') (dummies (Suc k), ?W')"
      unfolding D' by (rule duplex.deliver_left[OF d])
    show ?case using Suc duplex.runs_trans[OF d _ duplex.runs_trans[OF d r1 r2]] by simp
  qed
  from this[of "length ws"] show ?thesis by simp
qed

text \<open>
  \<open>inevitable f g s\<close>: the line reaches the state \<open>s\<close>, where all that was sent has been delivered and
  neither side has anything more to send, whatever the order of deliveries.
\<close>

definition inevitable :: "(bytes \<Rightarrow> bytes) \<Rightarrow> (bytes \<Rightarrow> bytes) \<Rightarrow> bytes \<times> bytes \<Rightarrow> bool" where
  "inevitable f g s \<longleftrightarrow> all_delivered f g s \<and>
     (\<forall>t. line_runs f g ([], []) t \<longrightarrow> line_runs f g t s)"

lemma last_exchange:
  assumes "connected h" "causal m" "serves e q ws e' q'"
    and "outp (snd (m \<lparr>inp = [], outp = words ws, env = h\<rparr>)) = words ws @ zs"
    and "outp (snd (m \<lparr>inp = rs, outp = words ws, env = h\<rparr>)) = words ws @ zs"
    and "outp (snd (q' \<lparr>inp = zs, outp = dummies (length ws), env = e'\<rparr>)) = dummies (length ws) @ rs"
  shows "inevitable (sent (asks ws m) h) (sent q e) (dummies (length ws) @ rs, words ws @ zs)"
proof -
  let ?f = "sent (asks ws m) h" and ?g = "sent q e"
  let ?X = "dummies (length ws)" and ?Y = "words ws"
  have "causal q" using assms(3) by (cases rule: serves.cases) simp_all
  then have d: "duplex ?f ?g" using assms(2) by (intro duplex_sent causal_asks)
  have f: "?f ?X = ?Y @ zs" "?f (?X @ rs) = ?Y @ zs"
    using asks_run[OF assms(1), of ws m "[]"] asks_run[OF assms(1), of ws m rs] assms(4,5)
    by (simp_all add: sent_run)
  have g: "?g (?Y @ zs) = ?X @ rs"
    using serves_run[OF assms(3), of zs "[]"] assms(6) by (simp add: sent_run)
  have r0: "line_runs ?f ?g ([], []) (?X, ?Y)" by (rule conversation[OF assms(1-3)])
  have r1: "line_runs ?f ?g (?X, ?Y) (?X, ?Y @ zs)"
    by (rule duplex.deliver_right[OF d]) (simp add: f)
  have r2: "line_runs ?f ?g (?X, ?Y @ zs) (?X @ rs, ?Y @ zs)"
    by (rule duplex.deliver_left[OF d]) (simp add: g)
  have r: "line_runs ?f ?g ([], []) (?X @ rs, ?Y @ zs)"
    using duplex.runs_trans[OF d r0 duplex.runs_trans[OF d r1 r2]] .
  moreover have a: "all_delivered ?f ?g (?X @ rs, ?Y @ zs)"
    by (simp add: all_delivered_def f g)
  ultimately show ?thesis
    using duplex.converges[OF d r a] by (auto simp: inevitable_def)
qed

section \<open>The host's words\<close>

text \<open>What \<open>boot_connected_pies\<close> passes for a store name: the name, four bytes \<open>0xff\<close>, and a 0.\<close>

definition name_to_send :: "bytes \<Rightarrow> bytes" where
  "name_to_send dfs_name = dfs_name @ [0xff, 0xff, 0xff, 0xff, 0]"

definition words_to_send :: "bytes \<Rightarrow> nat" where
  "words_to_send dfs_name = (length dfs_name + 4 + 1) div 4"

definition name_words :: "bytes \<Rightarrow> u32 list" where
  "name_words nm = map (\<lambda>i. u32_at (name_to_send nm) (4 * i)) [0..<words_to_send nm]"

definition host_words :: "bytes \<Rightarrow> u32 list" where
  "host_words nm = FS_ID_START # name_words nm @ [CONFIG_INIT, REQUEST_ID]"

definition ask_id :: "u32 \<Rightarrow> (pi, int \<times> u32 \<times> u32) serial" where
  "ask_id assignable_id =
     andthen (put32 (0xffffff00 OR assignable_id)) (\<lambda>_.
     andthen (get32_until (\<lambda>op. op = DUMMY \<or> op = DUMMY2)) (\<lambda>op.
     andthen get32 (\<lambda>claimed.
       ret (0, claimed, if op = DUMMY2 then assignable_id + 1 else assignable_id))))"

lemma causal_ask_id: "causal (ask_id a)"
  unfolding ask_id_def by (intro causal_andthen causal_put32 causal_get32_until causal_get32 causal_ret)

lemma dfs_boot_asks:
  "dfs_boot 1 (name_to_send nm) (words_to_send nm) a = asks (host_words nm) (ask_id a)"
proof -
  have "4 * i + 4 \<le> length (name_to_send nm)" if "i \<in> set [0..<words_to_send nm]" for i
    using that by (simp add: name_to_send_def words_to_send_def)
  then have s: "andthen (send_string (name_to_send nm) (words_to_send nm)) (\<lambda>_. m) =
      asks (name_words nm) m" for m :: "(pi, int \<times> u32 \<times> u32) serial"
    unfolding send_string_def name_words_def by (rule send_words_asks)
  show ?thesis
    by (simp add: dfs_boot_def host_words_def ask_id_def ask_def s)
qed

section \<open>The Pi's stages\<close>

lemma recv8_port: "recv8 \<lparr>inp = b # bs, outp = os, env = e\<rparr> = (Ret b, \<lparr>inp = bs, outp = os, env = e\<rparr>)"
  by (simp add: recv8_def)

lemma dummy_run: "uart_put_dummy p = (Ret (), p\<lparr>outp := outp p @ bytes32 DUMMY\<rparr>)"
  "uart_put_dummy2 p = (Ret (), p\<lparr>outp := outp p @ bytes32 DUMMY2\<rparr>)"
  by (simp_all add: uart_put_dummy_def uart_put_dummy2_def andthen_def bytes32_def byte_of_def
      DUMMY_def DUMMY2_def)

lemma shift4_run:
  "shift4 op \<lparr>inp = bytes32 w @ bs, outp = os, env = e\<rparr> = (Ret w, \<lparr>inp = bs, outp = os, env = e\<rparr>)"
proof -
  obtain a b c d where op: "op = le32 a b c d" using le32_exists by blast
  show ?thesis
    by (simp add: shift4_def andthen_def recv8_port bytes32_def op shift_in_le32)
qed

lemma wait_op_run:
  assumes "op = le32 a b c d" "code = le32 e1 e2 e3 e4"
    and "op \<noteq> code" "le32 b c d e1 \<noteq> code" "le32 c d e1 e2 \<noteq> code" "le32 d e1 e2 e3 \<noteq> code"
  shows "wait_op code op \<lparr>inp = bytes32 code @ bs, outp = os, env = e\<rparr> =
    (Ret code, \<lparr>inp = bs, outp = os, env = e\<rparr>)"
proof -
  have by4: "bytes32 code = [e1, e2, e3, e4]" by (simp add: bytes32_def assms(2))
  let ?b = "\<lambda>op. andthen recv8 (\<lambda>b. ret (shift_in op b))"
  have step: "while_do (\<lambda>op. op \<noteq> code) ?b x \<lparr>inp = z # zs, outp = os, env = e\<rparr> =
      while_do (\<lambda>op. op \<noteq> code) ?b (shift_in x z) \<lparr>inp = zs, outp = os, env = e\<rparr>" if "x \<noteq> code" for x z zs
    using that by (intro while_do_step) (simp_all add: andthen_def recv8_port)
  show ?thesis
    using assms(3-6) unfolding wait_op_def by4 assms(1)
    by (simp add: step shift_in_le32 while_do_stop assms(2)[symmetric])
qed

lemma protocol_waits:
  "wait_op FS_ID_START 0 \<lparr>inp = bytes32 FS_ID_START @ bs, outp = os, env = e\<rparr> =
     (Ret FS_ID_START, \<lparr>inp = bs, outp = os, env = e\<rparr>)"
  "wait_op CONFIG_INIT FS_ID_START \<lparr>inp = bytes32 CONFIG_INIT @ bs, outp = os, env = e\<rparr> =
     (Ret CONFIG_INIT, \<lparr>inp = bs, outp = os, env = e\<rparr>)"
  "wait_op REQUEST_ID 0 \<lparr>inp = bytes32 REQUEST_ID @ bs, outp = os, env = e\<rparr> =
     (Ret REQUEST_ID, \<lparr>inp = bs, outp = os, env = e\<rparr>)"
proof -
  have z: "0 = le32 0 0 0 0" "FS_ID_START = le32 0xff 0xff 0 0" "CONFIG_INIT = le32 0xee 0xee 0 0"
    "REQUEST_ID = le32 0xdd 0xdd 0xcc 0xcc"
    by (simp_all add: le32_def opcode_defs)
  show "wait_op FS_ID_START 0 \<lparr>inp = bytes32 FS_ID_START @ bs, outp = os, env = e\<rparr> =
     (Ret FS_ID_START, \<lparr>inp = bs, outp = os, env = e\<rparr>)"
    by (rule wait_op_run[OF z(1,2)]) (unfold z, simp_all add: le32_inject)
  show "wait_op CONFIG_INIT FS_ID_START \<lparr>inp = bytes32 CONFIG_INIT @ bs, outp = os, env = e\<rparr> =
     (Ret CONFIG_INIT, \<lparr>inp = bs, outp = os, env = e\<rparr>)"
    by (rule wait_op_run[OF z(2,3)]) (unfold z, simp_all add: le32_inject)
  show "wait_op REQUEST_ID 0 \<lparr>inp = bytes32 REQUEST_ID @ bs, outp = os, env = e\<rparr> =
     (Ret REQUEST_ID, \<lparr>inp = bs, outp = os, env = e\<rparr>)"
    by (rule wait_op_run[OF z(1,4)]) (unfold z, simp_all add: le32_inject)
qed

lemma splice_splice:
  assumes "n + length xs + length ys \<le> length zs"
  shows "splice (n + length xs) ys (splice n xs zs) = splice n (xs @ ys) zs"
  using assms by (cases xs) (auto simp: splice_def min_def add_ac)

lemma length_words [simp]: "length (words ws) = 4 * length ws"
  by (induction ws) simp_all

text \<open>Words of the name that are not the terminator are stored and answered, one by one.\<close>

lemma get_words_serves:
  assumes "\<And>x. causal (K x)" "i + length ws \<le> 7" "28 \<le> length nm" "0xffffffff \<notin> set ws"
  shows "\<exists>op'. serves e (andthen (get_words [i..<7] op nm) K) ws e
    (andthen (get_words [i + length ws..<7] op' (splice (4 * i) (words ws) nm)) K)"
  using assms(2-)
proof (induction ws arbitrary: i op nm)
  case Nil
  have "splice (4 * i) [] nm = nm" by (simp add: splice_def)
  then show ?case using assms(1) by (auto intro!: exI[of _ op] idle causal_andthen causal_get_words)
next
  case (Cons w ws)
  have i7: "[i..<7] = i # [Suc i..<7]" using Cons.prems(1) by (simp add: upt_rec)
  let ?nm = "splice (4 * i) (bytes32 w) nm"
  have len: "4 * i + 4 \<le> length nm" using Cons.prems(1,2) by simp
  obtain op' where IH: "serves e (andthen (get_words [Suc i..<7] w ?nm) K) ws e
      (andthen (get_words [Suc i + length ws..<7] op' (splice (4 * Suc i) (words ws) ?nm)) K)"
    using Cons.IH[of "Suc i" ?nm w] Cons.prems len by auto
  have "splice (4 * i + length (bytes32 w)) (words ws) ?nm = splice (4 * i) (bytes32 w @ words ws) nm"
    using Cons.prems by (intro splice_splice) simp
  then have e1: "splice (4 * Suc i) (words ws) ?nm = splice (4 * i) (words (w # ws)) nm"
    by (simp add: add.commute)
  have "andthen (get_words [i..<7] op nm) K \<lparr>inp = bytes32 w @ bs, outp = os, env = e\<rparr> =
      andthen (get_words [Suc i..<7] w ?nm) K \<lparr>inp = bs, outp = os @ bytes32 DUMMY, env = e\<rparr>" for bs os
    using len Cons.prems(3) unfolding i7
    by (simp add: andthen_def[of _ K] andthen_def[of "shift4 op"] shift4_run dummy_run Let_def
        andthen_def[of uart_put_dummy])
  then show ?case
    using IH e1 assms(1) by (auto intro!: exI[of _ op'] serve causal_andthen causal_get_words)
qed

lemma get_words_terminator:
  assumes "\<And>x. causal (K x)" "i < 7" "28 \<le> length nm"
  shows "serves e (andthen (get_words [i..<7] op nm) K) [0xffffffff] e
    (K (splice (4 * i) (bytes32 0xffffffff) nm))"
proof -
  have i7: "[i..<7] = i # [Suc i..<7]" using assms(2) by (simp add: upt_rec)
  have len: "4 * i + 4 \<le> length nm" using assms(2,3) by simp
  have "andthen (get_words [i..<7] op nm) K \<lparr>inp = bytes32 0xffffffff @ bs, outp = os, env = e\<rparr> =
      K (splice (4 * i) (bytes32 0xffffffff) nm) \<lparr>inp = bs, outp = os @ bytes32 DUMMY, env = e\<rparr>" for bs os
    using len unfolding i7
    by (simp add: andthen_def[of _ K] andthen_def[of "shift4 op"] shift4_run dummy_run Let_def
        andthen_def[of uart_put_dummy])
  then show ?thesis
    using assms(1) by (auto intro!: serve idle causal_andthen causal_get_words)
qed

section \<open>Agreement\<close>

lemma serves_start:
  "serves s (entry rd wr name0 b1 b2 sec0) [FS_ID_START] s
     (andthen (get_words [0..<7] 0 name0) (setup_entry rd wr b1 b2 sec0 FS_ID_START))"
proof (rule serve[OF causal_entry _ idle])
  show "entry rd wr name0 b1 b2 sec0 \<lparr>inp = bytes32 FS_ID_START @ bs, outp = os, env = s\<rparr> =
      andthen (get_words [0..<7] 0 name0) (setup_entry rd wr b1 b2 sec0 FS_ID_START)
        \<lparr>inp = bs, outp = os @ bytes32 DUMMY, env = s\<rparr>" for bs os
    unfolding entry_def
    by (simp add: andthen_def[of "wait_op FS_ID_START 0"] andthen_def[of uart_put_dummy]
        protocol_waits dummy_run get_string_def MAX_DFS_NAME_LEN_def)
  show "causal (andthen (get_words [0..<7] 0 name0) (setup_entry rd wr b1 b2 sec0 FS_ID_START))"
    by (intro causal_andthen causal_get_words causal_entry_parts)
qed

lemma serves_setup:
  assumes "fat32_init s rd wr = Inr (r, s1)"
    and "dfs_init_config s1 b1 b2 = Some (Inr (cfg, s2))"
  shows "serves s (setup_entry rd wr b1 b2 sec0 FS_ID_START nm) [CONFIG_INIT] s2
    (request_entry rd wr sec0 nm cfg)"
proof (rule serve[OF causal_entry_parts(3) _ idle[OF causal_entry_parts(2)]])
  show "setup_entry rd wr b1 b2 sec0 FS_ID_START nm \<lparr>inp = bytes32 CONFIG_INIT @ bs, outp = os, env = s\<rparr> =
      request_entry rd wr sec0 nm cfg \<lparr>inp = bs, outp = os @ bytes32 DUMMY, env = s2\<rparr>" for bs os
    using assms unfolding setup_entry_def
    by (simp add: andthen_def protocol_waits on_card_def dummy_run)
qed

lemma serves_request:
  "serves s (request_entry rd wr sec0 nm cfg) [REQUEST_ID] s (finish_entry rd wr sec0 nm cfg REQUEST_ID)"
proof (rule serve[OF causal_entry_parts(2) _ idle[OF causal_entry_parts(1)]])
  show "request_entry rd wr sec0 nm cfg \<lparr>inp = bytes32 REQUEST_ID @ bs, outp = os, env = s\<rparr> =
      finish_entry rd wr sec0 nm cfg REQUEST_ID \<lparr>inp = bs, outp = os @ bytes32 DUMMY, env = s\<rparr>" for bs os
    unfolding request_entry_def by (simp add: andthen_def protocol_waits dummy_run)
qed

text \<open>A store name the Pi can recognise the end of: whole words, at most six, and no byte \<open>0xff\<close>.\<close>

definition whole_name :: "bytes \<Rightarrow> bool" where
  "whole_name nm \<longleftrightarrow> 4 dvd length nm \<and> length nm \<le> 24 \<and> 0xff \<notin> set nm"

text \<open>What the Pi's buffer holds then.\<close>

definition name_buffer :: "bytes \<Rightarrow> bytes \<Rightarrow> bytes" where
  "name_buffer nm name0 = nm @ [0xff, 0xff, 0xff, 0xff] @ drop (length nm + 4) name0"

lemma name_words_whole:
  assumes "whole_name nm"
  shows "name_words nm = words_of_bytes nm @ [0xffffffff]"
    "0xffffffff \<notin> set (words_of_bytes nm)" "words (words_of_bytes nm) = nm"
proof -
  obtain k where k: "length nm = 4 * k" using assms by (auto simp: whole_name_def)
  have n: "words_to_send nm = Suc k" by (simp add: words_to_send_def k)
  have low: "u32_at (name_to_send nm) (4 * j) = u32_at nm (4 * j)" if "j < k" for j
    using that k by (simp add: u32_at_def name_to_send_def nth_append)
  have last: "u32_at (name_to_send nm) (4 * k) = 0xffffffff"
    by (simp add: u32_at_def name_to_send_def nth_append k le32_def)
  show "name_words nm = words_of_bytes nm @ [0xffffffff]"
    using low last by (simp add: name_words_def n words_of_bytes_def k)
  have "(0xffffffff :: u32) = le32 0xff 0xff 0xff 0xff" by (simp add: le32_def)
  moreover have "u32_at nm (4 * j) \<noteq> le32 0xff 0xff 0xff 0xff" if "j < k" for j
  proof -
    have "4 * j < length nm" using that k by simp
    then have "nm ! (4 * j) \<noteq> 0xff" using assms unfolding whole_name_def by (metis nth_mem)
    then show ?thesis by (simp add: u32_at_def le32_inject)
  qed
  ultimately show "0xffffffff \<notin> set (words_of_bytes nm)"
    by (auto simp: words_of_bytes_def k)
  show "words (words_of_bytes nm) = nm"
    using bytes_words_roundtrip[OF k] by (simp add: words_def bytes_of_words_def)
qed

lemma serves_name:
  assumes "whole_name nm" "length name0 = 30" "\<And>x. causal (K x)"
  shows "serves e (andthen (get_words [0..<7] 0 name0) K) (name_words nm) e (K (name_buffer nm name0))"
proof -
  obtain k where k: "length nm = 4 * k" "k \<le> 6" using assms(1) by (auto simp: whole_name_def)
  have lw: "length (words_of_bytes nm) = k" using k by simp
  note w = name_words_whole[OF assms(1)]
  obtain op' where 1: "serves e (andthen (get_words [0..<7] 0 name0) K) (words_of_bytes nm) e
      (andthen (get_words [k..<7] op' (splice 0 nm name0)) K)"
    using get_words_serves[where K = K and i = 0 and ws = "words_of_bytes nm" and nm = name0 and e = e and op = 0]
      assms(2,3) lw k w(2,3) by auto
  have "splice (0 + length nm) (bytes32 0xffffffff) (splice 0 nm name0) = splice 0 (nm @ bytes32 0xffffffff) name0"
    using k assms(2) by (intro splice_splice) simp
  also have "\<dots> = name_buffer nm name0"
    unfolding splice_def name_buffer_def length_append length_bytes32
    by (simp add: bytes32_def byte_of_def)
  finally have "splice (4 * k) (bytes32 0xffffffff) (splice 0 nm name0) = name_buffer nm name0"
    by (simp add: k)
  then have 2: "serves e (andthen (get_words [k..<7] op' (splice 0 nm name0)) K) [0xffffffff] e
      (K (name_buffer nm name0))"
    using get_words_terminator[where K = K and i = k and nm = "splice 0 nm name0" and e = e and op = op']
      assms(2,3) k by simp
  show ?thesis using serves_trans[OF 1 2] w(1) by simp
qed

text \<open>The answer to the request, and what the Pi sends after it.\<close>

definition answer_word :: "int \<Rightarrow> u32" where
  "answer_word i = (if i = - 1 then DUMMY2 else DUMMY)"

definition id_byte :: "int \<Rightarrow> u32 \<Rightarrow> u8" where
  "id_byte i a = (if i = - 1 then ucast a else of_int i)"

lemma put_string_line: "put_string putchar (cstr done_line) out = Inr (out @ ascii done_line)"
  by (rule put_string_cstr) (simp add: ascii_def nl_def done_line_def)

lemma or_ffffff00: "(0xffffff00 OR a) AND 0xff = (a AND 0xff :: u32)"
  by (simp only: bit.conj_disj_distrib2) simp

lemma ucast_and_ff: "(ucast (a AND 0xff :: u32) :: u8) = ucast a"
proof (rule bit_word_eqI)
  fix n assume n: "n < LENGTH(8)"
  have m: "(0xff :: u32) = mask 8" by (simp add: mask_eq_exp_minus_1)
  have "bit (0xff :: u32) n" unfolding m using n by (simp add: bit_mask_iff)
  then show "bit (ucast (a AND 0xff :: u32) :: u8) n = bit (ucast a :: u8) n"
    by (auto simp: bit_simps simp del: bit_numeral_word_iff)
qed

lemma finish_run:
  assumes "id_for_dfs rd wr s cfg nm (uint (a AND 0xff)) sec0 = Inr (i, s')"
  shows "finish_entry rd wr sec0 nm cfg op1 \<lparr>inp = bytes32 (0xffffff00 OR a), outp = os, env = s\<rparr> =
    (Ret (), \<lparr>inp = [], outp = os @ bytes32 (answer_word i) @ replicate 4 (id_byte i a)
       @ ascii done_line, env = s'\<rparr>)"
  using assms shift4_run[of op1 "0xffffff00 OR a" "[]" os s]
  by (auto simp: finish_entry_def andthen_def on_card_def or_ffffff00 answer_new_def answer_known_def
      dummy_run print_def putk_def put_string_line answer_word_def id_byte_def ucast_and_ff Let_def
      numeral_eq_Suc)

lemma ask_id_starves:
  "connected h \<Longrightarrow> ask_id a \<lparr>inp = [], outp = os, env = h\<rparr> =
     (Starved, \<lparr>inp = [], outp = os @ bytes32 (0xffffff00 OR a), env = h\<rparr>)"
  by (simp add: ask_id_def andthen_def put32_def get32_until_def get32_Starved)

lemma ask_id_run:
  assumes "connected h"
  shows "ask_id a \<lparr>inp = bytes32 (answer_word i) @ replicate 4 b @ bs, outp = os, env = h\<rparr> =
    (Ret (0, le32 b b b b, if i = - 1 then a + 1 else a),
     \<lparr>inp = bs, outp = os @ bytes32 (0xffffff00 OR a), env = h\<rparr>)"
proof -
  have g: "get32_until (\<lambda>op. op = DUMMY \<or> op = DUMMY2)
      \<lparr>inp = bytes32 (answer_word i) @ replicate 4 b @ bs, outp = os @ bytes32 (0xffffff00 OR a), env = h\<rparr> =
      (Ret (answer_word i), \<lparr>inp = replicate 4 b @ bs, outp = os @ bytes32 (0xffffff00 OR a), env = h\<rparr>)"
    using assms by (intro get32_until_run) (simp_all add: answer_word_def)
  have r: "replicate 4 b = bytes32 (le32 b b b b)" by (simp add: bytes32_def numeral_eq_Suc)
  have "DUMMY \<noteq> DUMMY2" by (simp add: DUMMY_def DUMMY2_def)
  then show ?thesis
    using assms g get32_run[OF assms, of "le32 b b b b" bs]
    by (simp add: ask_id_def andthen_def put32_def r) (simp add: answer_word_def)
qed

text \<open>
  The two programs on the line: the host set up as \<open>boot_connected_pies\<close> does for the store \<open>nm\<close>
  with the next id \<open>a\<close>, and the Pi at the start of \<open>entry\<close> in state \<open>s\<close>.
\<close>

definition host_sends :: "bytes \<Rightarrow> u32 \<Rightarrow> pi \<Rightarrow> bytes \<Rightarrow> bytes" where
  "host_sends nm a = sent (dfs_boot 1 (name_to_send nm) (words_to_send nm) a)"

definition pi_sends ::
  "'d read_fn \<Rightarrow> 'd write_fn \<Rightarrow> bytes \<Rightarrow> bytes \<Rightarrow> bytes \<Rightarrow> bytes \<Rightarrow> 'd fs \<Rightarrow> bytes \<Rightarrow> bytes" where
  "pi_sends rd wr name0 b1 b2 sec0 = sent (entry rd wr name0 b1 b2 sec0)"

lemma agreement_run:
  assumes "connected h" "whole_name nm" "length name0 = 30"
    and "fat32_init s rd wr = Inr (r, s1)"
    and "dfs_init_config s1 b1 b2 = Some (Inr (cfg, s2))"
    and "id_for_dfs rd wr s2 cfg (name_buffer nm name0) (uint (a AND 0xff)) sec0 = Inr (i, s3)"
  defines "R \<equiv> bytes32 (answer_word i) @ replicate 4 (id_byte i a) @ ascii done_line"
    and "n \<equiv> length (host_words nm)"
  shows "inevitable (host_sends nm a h) (pi_sends rd wr name0 b1 b2 sec0 s)
      (dummies n @ R, words (host_words nm) @ bytes32 (0xffffff00 OR a))"
    and "dfs_boot 1 (name_to_send nm) (words_to_send nm) a \<lparr>inp = dummies n @ R, outp = os, env = h\<rparr> =
      (Ret (0, le32 (id_byte i a) (id_byte i a) (id_byte i a) (id_byte i a), if i = - 1 then a + 1 else a),
       \<lparr>inp = ascii done_line, outp = os @ words (host_words nm) @ bytes32 (0xffffff00 OR a), env = h\<rparr>)"
    and "entry rd wr name0 b1 b2 sec0 (fresh s (words (host_words nm) @ bytes32 (0xffffff00 OR a))) =
      (Ret (), \<lparr>inp = [], outp = dummies n @ R, env = s3\<rparr>)"
proof -
  let ?q = "finish_entry rd wr sec0 (name_buffer nm name0) cfg REQUEST_ID"
  have "serves s (entry rd wr name0 b1 b2 sec0) ([FS_ID_START] @ name_words nm @ [CONFIG_INIT] @ [REQUEST_ID]) s2 ?q"
    by (intro serves_trans[OF serves_start] serves_trans[OF serves_name[OF assms(2,3)]]
        serves_trans[OF serves_setup[OF assms(4,5)]] serves_request causal_entry_parts)
  then have sv: "serves s (entry rd wr name0 b1 b2 sec0) (host_words nm) s2 ?q"
    by (simp add: host_words_def)
  have fin: "?q \<lparr>inp = bytes32 (0xffffff00 OR a), outp = os, env = s2\<rparr> =
      (Ret (), \<lparr>inp = [], outp = os @ R, env = s3\<rparr>)" for os
    unfolding R_def using finish_run[OF assms(6)] by simp
  have askr: "ask_id a \<lparr>inp = R, outp = os, env = h\<rparr> =
    (Ret (0, le32 (id_byte i a) (id_byte i a) (id_byte i a) (id_byte i a), if i = - 1 then a + 1 else a),
     \<lparr>inp = ascii done_line, outp = os @ bytes32 (0xffffff00 OR a), env = h\<rparr>)" for os
    unfolding R_def by (rule ask_id_run[OF assms(1)])
  show "inevitable (host_sends nm a h) (pi_sends rd wr name0 b1 b2 sec0 s)
      (dummies n @ R, words (host_words nm) @ bytes32 (0xffffff00 OR a))"
    unfolding host_sends_def pi_sends_def dfs_boot_asks n_def
    by (rule last_exchange[OF assms(1) causal_ask_id sv])
       (simp_all add: ask_id_starves[OF assms(1)] askr fin)
  show "dfs_boot 1 (name_to_send nm) (words_to_send nm) a \<lparr>inp = dummies n @ R, outp = os, env = h\<rparr> =
      (Ret (0, le32 (id_byte i a) (id_byte i a) (id_byte i a) (id_byte i a), if i = - 1 then a + 1 else a),
       \<lparr>inp = ascii done_line, outp = os @ words (host_words nm) @ bytes32 (0xffffff00 OR a), env = h\<rparr>)"
    unfolding dfs_boot_asks n_def asks_run[OF assms(1)] askr by simp
  show "entry rd wr name0 b1 b2 sec0 (fresh s (words (host_words nm) @ bytes32 (0xffffff00 OR a))) =
      (Ret (), \<lparr>inp = [], outp = dummies n @ R, env = s3\<rparr>)"
    unfolding fresh_def serves_run[OF sv] fin n_def by simp
qed

end
