(* ===== verification/Boot_Program.thy ===== *)
theory Boot_Program
  imports Protocol Crc32
begin

text \<open>
  What \<open>boot\<close> of \<open>src/mac-src/bootpi.c\<close> achieves: the answers it gives to a boot loader that asks for
  the program, and its refusals. The boot loader itself is not part of the repository.
\<close>

section \<open>Draining\<close>

text \<open>The noise before the first request: no window of four bytes is a request or a print command.\<close>

definition quiet :: "bytes \<Rightarrow> bool" where
  "quiet xs \<longleftrightarrow> (\<forall>i < length xs. u32_at (xs @ bytes32 GET_PROG_INFO) i \<notin> {GET_PROG_INFO, PRINT_STRING})"

lemma u32_at_Cons: "u32_at (x # xs) (Suc i) = u32_at xs i"
  by (simp add: u32_at_def add.commute)

lemma quiet_Cons:
  assumes "quiet (x # xs)"
  shows "quiet xs" "u32_at (x # xs @ bytes32 GET_PROG_INFO) 0 \<noteq> GET_PROG_INFO"
    "u32_at (xs @ bytes32 GET_PROG_INFO) 0 \<noteq> PRINT_STRING"
proof -
  show q: "quiet xs"
    using assms unfolding quiet_def by (auto simp: u32_at_Cons dest: spec[of _ "Suc i" for i])
  show "u32_at (x # xs @ bytes32 GET_PROG_INFO) 0 \<noteq> GET_PROG_INFO"
    using assms unfolding quiet_def by auto
  show "u32_at (xs @ bytes32 GET_PROG_INFO) 0 \<noteq> PRINT_STRING"
  proof (cases xs)
    case Nil
    have "u32_at (bytes32 GET_PROG_INFO) 0 = GET_PROG_INFO" by (simp add: u32_at_def bytes32_def)
    then show ?thesis using Nil by (simp add: GET_PROG_INFO_def PRINT_STRING_def)
  qed (use q in \<open>auto simp: quiet_def\<close>)
qed

lemma get8_run:
  "connected w \<Longrightarrow> get8 \<lparr>inp = b # bs, outp = os, env = w\<rparr> = (Ret b, \<lparr>inp = bs, outp = os, env = w\<rparr>)"
  by (simp add: get8_def recv8_def)

lemma drain_run:
  assumes "connected w" "quiet xs"
  shows "while_do (\<lambda>op. op \<noteq> GET_PROG_INFO) drain_body (u32_at (xs @ bytes32 GET_PROG_INFO) 0)
      \<lparr>inp = drop 4 (xs @ bytes32 GET_PROG_INFO @ rest), outp = os, env = w\<rparr> =
    (Ret GET_PROG_INFO, \<lparr>inp = rest, outp = os, env = w\<rparr>)"
  using assms(2)
proof (induction xs)
  case Nil
  have "u32_at (bytes32 GET_PROG_INFO) 0 = GET_PROG_INFO" by (simp add: u32_at_def bytes32_def)
  then show ?case by (simp add: while_do_stop)
next
  case (Cons x xs)
  let ?ys = "xs @ bytes32 GET_PROG_INFO" and ?zs = "xs @ bytes32 GET_PROG_INFO @ rest"
  note q = quiet_Cons[OF Cons.prems]
  have l: "4 \<le> length ?ys" by simp
  then have yz: "?ys ! 3 = ?zs ! 3" using nth_append[of ?ys rest 3] by simp
  have d: "drop 3 ?zs = ?ys ! 3 # drop 4 ?zs"
    using Cons_nth_drop_Suc[of 3 ?zs] yz by simp
  have w: "shift_in (u32_at (x # ?ys) 0) (?ys ! 3) = u32_at ?ys 0"
    by (simp add: u32_at_def shift_in_le32 numeral_3_eq_3 numeral_2_eq_2)
  have "drain_body (u32_at (x # ?ys) 0) \<lparr>inp = ?ys ! 3 # drop 4 ?zs, outp = os, env = w\<rparr> =
      (Ret (u32_at ?ys 0), \<lparr>inp = drop 4 ?zs, outp = os, env = w\<rparr>)"
    using assms(1) q(3) by (simp add: drain_body_def andthen_def get8_run w Let_def)
  then have "while_do (\<lambda>op. op \<noteq> GET_PROG_INFO) drain_body (u32_at (x # ?ys) 0)
      \<lparr>inp = ?ys ! 3 # drop 4 ?zs, outp = os, env = w\<rparr> =
    while_do (\<lambda>op. op \<noteq> GET_PROG_INFO) drain_body (u32_at ?ys 0) \<lparr>inp = drop 4 ?zs, outp = os, env = w\<rparr>"
    using q(2) by (intro while_do_step) simp_all
  moreover have "drop 4 ((x # xs) @ bytes32 GET_PROG_INFO @ rest) = ?ys ! 3 # drop 4 ?zs"
  proof -
    have "drop 4 (x # zs) = drop 3 zs" for zs :: bytes by simp
    then show ?thesis by (simp only: append_Cons d)
  qed
  ultimately show ?case using Cons.IH[OF q(1)] by (simp only: append_Cons append_assoc)
qed

lemma first_word:
  assumes "connected w" "4 \<le> length xs"
  shows "get32 \<lparr>inp = xs @ rest, outp = os, env = w\<rparr> =
    (Ret (u32_at xs 0), \<lparr>inp = drop 4 (xs @ rest), outp = os, env = w\<rparr>)"
proof -
  obtain a b c d ys where xs: "xs = a # b # c # d # ys"
    using assms(2) by (auto simp: Suc_le_length_iff numeral_eq_Suc)
  show ?thesis
    using assms(1) by (simp add: get32_def andthen_def get8_run xs u32_at_def le32_def)
qed

lemma request_run:
  assumes "connected w" "quiet noise"
  shows "andthen get32 (\<lambda>op. andthen (while_do (\<lambda>op. op \<noteq> GET_PROG_INFO) drain_body op) K)
      \<lparr>inp = noise @ bytes32 GET_PROG_INFO @ rest, outp = os, env = w\<rparr> =
    K GET_PROG_INFO \<lparr>inp = rest, outp = os, env = w\<rparr>"
proof -
  let ?xs = "noise @ bytes32 GET_PROG_INFO"
  have "get32 \<lparr>inp = ?xs @ rest, outp = os, env = w\<rparr> =
      (Ret (u32_at ?xs 0), \<lparr>inp = drop 4 (?xs @ rest), outp = os, env = w\<rparr>)"
    by (rule first_word[OF assms(1)]) simp
  then show ?thesis
    using drain_run[OF assms, of rest os] unfolding append_assoc
    by (simp only: andthen_def prod.case outcome.case)
qed

section \<open>The requests\<close>

lemma skip_words_loop:
  assumes "connected w" "\<And>v. v \<in> set vs \<Longrightarrow> \<not> ok v" "ok u" "\<not> ok v0"
  shows "while_do (\<lambda>op. \<not> ok op) (\<lambda>op. get32) v0
      \<lparr>inp = words vs @ bytes32 u @ bs, outp = os, env = w\<rparr> = (Ret u, \<lparr>inp = bs, outp = os, env = w\<rparr>)"
  using assms(2,4)
proof (induction vs arbitrary: v0)
  case Nil
  have "while_do (\<lambda>op. \<not> ok op) (\<lambda>op. get32) v0 \<lparr>inp = bytes32 u @ bs, outp = os, env = w\<rparr> =
      while_do (\<lambda>op. \<not> ok op) (\<lambda>op. get32) u \<lparr>inp = bs, outp = os, env = w\<rparr>"
    using Nil.prems assms(1) by (intro while_do_step get32_run) simp_all
  then show ?case using assms(3) by (simp add: while_do_stop)
next
  case (Cons v vs)
  have "while_do (\<lambda>op. \<not> ok op) (\<lambda>op. get32) v0
      \<lparr>inp = bytes32 v @ words vs @ bytes32 u @ bs, outp = os, env = w\<rparr> =
      while_do (\<lambda>op. \<not> ok op) (\<lambda>op. get32) v \<lparr>inp = words vs @ bytes32 u @ bs, outp = os, env = w\<rparr>"
    using Cons.prems(2) assms(1) by (intro while_do_step get32_run) simp_all
  then show ?case using Cons by simp
qed

lemma skip_words:
  assumes "connected w" "\<And>v. v \<in> set vs \<Longrightarrow> \<not> ok v" "ok u"
  shows "get32_until ok \<lparr>inp = words vs @ bytes32 u @ bs, outp = os, env = w\<rparr> =
    (Ret u, \<lparr>inp = bs, outp = os, env = w\<rparr>)"
proof (cases vs)
  case Nil
  then show ?thesis using get32_until_run[where ok = ok, OF assms(1,3)] by simp
next
  case (Cons v vs')
  then have "while_do (\<lambda>op. \<not> ok op) (\<lambda>op. get32) v
      \<lparr>inp = words vs' @ bytes32 u @ bs, outp = os, env = w\<rparr> = (Ret u, \<lparr>inp = bs, outp = os, env = w\<rparr>)"
    using assms by (intro skip_words_loop) simp_all
  then show ?thesis using assms(1) Cons by (simp add: get32_until_def andthen_def get32_run)
qed

lemma success_run:
  assumes "connected w" "BOOT_SUCCESS \<notin> set vs" "unat i + length vs \<le> 0xFFFF0001"
  shows "andthen get32 (\<lambda>op. while_do (\<lambda>x. snd x \<noteq> BOOT_SUCCESS) success_body (i, op))
      \<lparr>inp = words vs @ bytes32 BOOT_SUCCESS @ bs, outp = os, env = w\<rparr> =
    (Ret (i + of_nat (length vs), BOOT_SUCCESS), \<lparr>inp = bs, outp = os, env = w\<rparr>)"
  using assms(2,3)
proof (induction vs arbitrary: i)
  case Nil
  then show ?case using assms(1) by (simp add: andthen_def get32_run while_do_stop)
next
  case (Cons v vs)
  let ?loop = "while_do (\<lambda>x. snd x \<noteq> BOOT_SUCCESS) success_body"
  let ?p = "\<lparr>inp = words vs @ bytes32 BOOT_SUCCESS @ bs, outp = os, env = w\<rparr>"
  have le: "unat i \<le> 0xFFFF0000" using Cons.prems(2) by simp
  then have i: "\<not> 0xFFFF0000 < i" by (simp add: word_less_nat_alt)
  have ui: "unat (i + 1) = unat i + 1" using le by (simp add: unat_word_ariths)
  obtain u qs where q: "words vs @ bytes32 BOOT_SUCCESS @ bs = bytes32 u @ qs"
    by (cases vs) auto
  have g: "get32 ?p = (Ret u, \<lparr>inp = qs, outp = os, env = w\<rparr>)"
    using assms(1) unfolding q by (rule get32_run)
  have "?loop (i, v) ?p = ?loop (i + 1, u) \<lparr>inp = qs, outp = os, env = w\<rparr>"
    using Cons.prems(1) i g q
    by (intro while_do_step) (auto simp: success_body_def andthen_def)
  then have "?loop (i, v) ?p = andthen get32 (\<lambda>op. ?loop (i + 1, op)) ?p"
    using g by (simp add: andthen_def)
  also have "\<dots> = (Ret (i + 1 + of_nat (length vs), BOOT_SUCCESS), \<lparr>inp = bs, outp = os, env = w\<rparr>)"
    using Cons.prems ui by (intro Cons.IH) simp_all
  finally show ?case using assms(1) by (simp add: andthen_def get32_run)
qed

lemma send_code_run:
  "connected w \<Longrightarrow> (\<And>i. i \<in> set is \<Longrightarrow> i < length program) \<Longrightarrow>
   send_code program is \<lparr>inp = bs, outp = os, env = w\<rparr> =
     (Ret (), \<lparr>inp = bs, outp = os @ map ((!) program) is, env = w\<rparr>)"
  by (induction "is" arbitrary: os) (simp_all add: andthen_def put8_def rd_at_def)

text \<open>What a boot loader says, from its first request to its report of success.\<close>

definition loader_says :: "bytes \<Rightarrow> nat \<Rightarrow> u32 list \<Rightarrow> bytes" where
  "loader_says noise k junk = noise @ bytes32 GET_PROG_INFO @ words (replicate k GET_PROG_INFO)
     @ bytes32 GET_CODE @ words junk @ bytes32 BOOT_SUCCESS"

lemma boot_run:
  assumes "connected w" "quiet noise" "unat n \<le> length program"
    and "BOOT_SUCCESS \<notin> set junk" "length junk \<le> 0xFFFF0001"
  shows "boot program n \<lparr>inp = loader_says noise k junk @ rest, outp = [], env = w\<rparr> =
    (Ret 0, \<lparr>inp = rest,
       outp = words [PUT_PROG_INFO, ARMBASE, n, crc32_bitwise (take (unat n) program), PUT_CODE]
         @ take (unat n) program,
       env = w\<lparr>pi_open := True\<rparr>\<rparr>)"
proof -
  have 1: "get32_until (\<lambda>op. op \<noteq> GET_PROG_INFO)
      \<lparr>inp = words (replicate k GET_PROG_INFO) @ bytes32 GET_CODE @ xs, outp = os, env = w\<rparr> =
      (Ret GET_CODE, \<lparr>inp = xs, outp = os, env = w\<rparr>)" for xs os
    using assms(1) by (intro skip_words) (auto simp: GET_CODE_def GET_PROG_INFO_def)
  have 2: "send_code program [0..<unat n] \<lparr>inp = xs, outp = os, env = w\<rparr> =
      (Ret (), \<lparr>inp = xs, outp = os @ take (unat n) program, env = w\<rparr>)" for xs os
  proof -
    have "map ((!) program) [0..<unat n] = take (unat n) program"
      using assms(3) by (intro nth_equalityI) simp_all
    then show ?thesis using send_code_run[OF assms(1), of "[0..<unat n]" program xs os] assms(3) by simp
  qed
  have 3: "andthen get32 (\<lambda>op1. andthen (while_do (\<lambda>x. snd x \<noteq> BOOT_SUCCESS) success_body (0, op1)) K)
      \<lparr>inp = words junk @ bytes32 BOOT_SUCCESS @ rest, outp = os, env = w\<rparr> =
      K (of_nat (length junk), BOOT_SUCCESS) \<lparr>inp = rest, outp = os, env = w\<rparr>"
    for os and K :: "u32 \<times> u32 \<Rightarrow> (pi, int) serial"
    unfolding andthen_assoc[symmetric]
    using success_run[OF assms(1,4), of 0 rest os] assms(5) by (simp add: andthen_def)
  show ?thesis
    unfolding boot_def crc32_eq[OF assms(3)] loader_says_def
    using assms(1)
    by (simp add: request_run[OF assms(1,2)] andthen_def[of "put32 _"] put32_run
        andthen_def[of "get32_until _"] 1 andthen_def[of "send_code _ _"] 2 3)
qed

text \<open>
  C10: the host loads the program a boot loader asks for. Whatever precedes the first request,
  after it the host sends the program's address, length and CRC-32, answers repeated requests no further,
  sends the program on the request for the code, and returns once the loader reports success, with the
  Pi marked as open; it has then read exactly up to that report.
\<close>

theorem boot_loads_program:
  assumes "connected w" "quiet noise" "unat n \<le> length program"
    and "BOOT_SUCCESS \<notin> set junk" "length junk \<le> 0xFFFF0001"
  shows "boot program n \<lparr>inp = loader_says noise k junk @ rest, outp = [], env = w\<rparr> =
    (Ret 0, \<lparr>inp = rest,
       outp = words [PUT_PROG_INFO, ARMBASE, n, crc32_bitwise (take (unat n) program), PUT_CODE]
         @ take (unat n) program,
       env = w\<lparr>pi_open := True\<rparr>\<rparr>)"
  by (rule boot_run[OF assms])

theorem boot_loads_program_witness:
  "boot [1, 2, 3] 3 \<lparr>inp = loader_says [9, 0x22] 1 [BOOT_ERROR] @ [7], outp = [],
        env = \<lparr>pi_open = False, connected = True, shown = []\<rparr>\<rparr> =
    (Ret 0, \<lparr>inp = [7],
       outp = words [PUT_PROG_INFO, ARMBASE, 3, crc32_bitwise (take (unat (3 :: u32)) [1, 2, 3]), PUT_CODE]
         @ take (unat (3 :: u32)) [1, 2, 3],
       env = \<lparr>pi_open = False, connected = True, shown = []\<rparr>\<lparr>pi_open := True\<rparr>\<rparr>)"
proof -
  have "quiet [9, 0x22]" unfolding quiet_def by code_simp
  then show ?thesis
    by (intro boot_loads_program) (simp_all add: BOOT_SUCCESS_def BOOT_ERROR_def)
qed

text \<open>
  The other outcomes of \<open>boot\<close>: a loader that answers the program information with anything but a
  request for the code makes the host give up without sending the code.
\<close>

lemma boot_refuses:
  assumes "connected w" "quiet noise" "unat n \<le> length program" "v \<noteq> GET_PROG_INFO" "v \<noteq> GET_CODE"
  shows "boot program n \<lparr>inp = noise @ bytes32 GET_PROG_INFO @ words (replicate k GET_PROG_INFO)
        @ bytes32 v @ rest, outp = [], env = w\<rparr> =
    (Failed (Panic ''Did not receive a GET_CODE from pi, aborting boot.''), \<lparr>inp = rest,
       outp = words [PUT_PROG_INFO, ARMBASE, n, crc32_bitwise (take (unat n) program)], env = w\<rparr>)"
proof -
  have 1: "get32_until (\<lambda>op. op \<noteq> GET_PROG_INFO)
      \<lparr>inp = words (replicate k GET_PROG_INFO) @ bytes32 v @ rest, outp = os, env = w\<rparr> =
      (Ret v, \<lparr>inp = rest, outp = os, env = w\<rparr>)" for os
    using assms(1,4) by (intro skip_words) auto
  show ?thesis
    unfolding boot_def crc32_eq[OF assms(3)]
    using assms(1,5)
    by (simp add: request_run[OF assms(1,2)] andthen_def[of "put32 _"] put32_run
        andthen_def[of "get32_until _"] 1 fail_with_def)
qed

end
