(* ===== verification/Pi_Install.thy ===== *)
theory Pi_Install
  imports Set_Tty Boot_Program
begin

text \<open>
  The host program: \<open>src/mac-src/pi-install.c\<close> with the file formats of \<open>src/mac-src/dfs.h\<close>, the choice
  of devices of \<open>src/mac-src/get-pies.c\<close> and the loading of the program of \<open>src/mac-src/get-prog.c\<close>. What
  the operating system answers is data: the entries of \<open>/dev\<close>, the results of \<open>open\<close>
  and of the terminal calls, and the bytes each Pi will send. The output of a Pi after booting is the theory
  \<open>Pi_Output\<close>.
\<close>

section \<open>The file of the store on the host\<close>

text \<open>The two bit fields of \<open>struct dfs_entry\<close> share the first word, \<open>cluster_no\<close> in the low bits.\<close>

record dfs_entry =
  dfs_cluster_no :: u32
  device_no :: u32
  dfs_entry_name :: bytes
  dfs_dir_attr :: u8

record dfs_file =
  first_free_id :: u32
  dfs_pad :: bytes
  dfs_entries :: "dfs_entry list"

definition decode_dfs_entry :: "bytes \<Rightarrow> dfs_entry" where
  "decode_dfs_entry bs = \<lparr>dfs_cluster_no = u32_at bs 0 AND 0x0FFFFFFF, device_no = drop_bit 28 (u32_at bs 0),
     dfs_entry_name = chunk 4 11 bs, dfs_dir_attr = bs ! 15\<rparr>"

definition encode_dfs_entry :: "dfs_entry \<Rightarrow> bytes" where
  "encode_dfs_entry e =
     bytes32 ((dfs_cluster_no e AND 0x0FFFFFFF) OR push_bit 28 (device_no e)) @ dfs_entry_name e @ [dfs_dir_attr e]"

definition decode_dfs_file :: "bytes \<Rightarrow> dfs_file" where
  "decode_dfs_file bs = \<lparr>first_free_id = u32_at bs 0, dfs_pad = chunk 4 12 bs,
     dfs_entries = map (\<lambda>i. decode_dfs_entry (chunk (16 + 16 * i) 16 bs)) [0..<31]\<rparr>"

definition encode_dfs_file :: "dfs_file \<Rightarrow> bytes" where
  "encode_dfs_file f = bytes32 (first_free_id f) @ dfs_pad f @ concat (map encode_dfs_entry (dfs_entries f))"

definition sizeof_dfs_file :: nat where "sizeof_dfs_file = 512"

text \<open>
  \<open>init_dfs\<close>: the structure read and the file afterwards; \<open>stack0\<close> is what the structure held before, \<open>opened\<close>
  whether \<open>fstat\<close> succeeds on the file.
\<close>

definition init_dfs :: "bool \<Rightarrow> bytes \<Rightarrow> bytes \<Rightarrow> (bytes \<times> bytes) option" where
  "init_dfs opened content stack0 =
     (if \<not> opened then None
      else if length content = 0 then Some (replicate sizeof_dfs_file 0, replicate sizeof_dfs_file 0)
      else Some (splice 0 (take sizeof_dfs_file content) stack0, content))"

text \<open>The listing stops at an entry whose first byte is 0, after 13 at the latest.\<close>

fun listed :: "bytes \<Rightarrow> nat list \<Rightarrow> (bytes \<times> u32 \<times> u32) list" where
  "listed df [] = []"
| "listed df (i # is) =
     (if df ! (16 + 16 * i) = 0 then []
      else let e = decode_dfs_entry (chunk (16 + 16 * i) 16 df)
           in (dfs_entry_name e, device_no e, dfs_cluster_no e) # listed df is)"

definition write_back :: "bytes \<Rightarrow> bytes \<Rightarrow> bytes" where
  "write_back df content = df @ drop (length df) content"

section \<open>Devices and program\<close>

definition tty_prefixes :: "bytes list" where "tty_prefixes = [ascii ''cu.usbserial'']"

text \<open>\<open>strncmp(prefix, d_name, prefix_len) == 0\<close> of the host's C library.\<close>

definition filter_dev :: "bytes \<Rightarrow> bool" where
  "filter_dev d_name \<longleftrightarrow> (\<exists>p \<in> set tty_prefixes. take (length p) d_name = p)"

definition get_connected_pies :: "(bytes list \<Rightarrow> bytes list) \<Rightarrow> bytes list option \<Rightarrow> bytes list option" where
  "get_connected_pies alphasort devdir =
     (case devdir of None \<Rightarrow> None | Some names \<Rightarrow> Some (alphasort (filter filter_dev names)))"

text \<open>\<open>got\<close> are the bytes a single \<open>read\<close> delivers of a file of \<open>st_size\<close> bytes.\<close>

definition get_bytes :: "nat option \<Rightarrow> bool \<Rightarrow> bytes \<Rightarrow> bytes option" where
  "get_bytes st_size opened got =
     (case st_size of
        None \<Rightarrow> None
      | Some n \<Rightarrow> if \<not> opened then None else if length got \<noteq> n then None else Some got)"

section \<open>Booting\<close>

record device =
  dev_opens :: "nat \<Rightarrow> int"
  dev_term :: tty_host
  dev_line :: bytes
  dev_ready :: int

text \<open>Five attempts to open the device; a failure to set up its terminal ends the program.\<close>

fun open_attempts :: "(nat \<Rightarrow> int) \<Rightarrow> nat list \<Rightarrow> int \<Rightarrow> int" where
  "open_attempts opens [] fd = fd"
| "open_attempts opens (i # is) fd = (if fd = - 1 then open_attempts opens is (opens i) else fd)"

definition open_device :: "device \<Rightarrow> int outcome" where
  "open_device d =
     fst (set_tty_to_8n1 (dev_term d) (open_attempts (dev_opens d) [0..<5] (- 1)) (B115200 (dev_term d)) (2 * 5))"

text \<open>
  The two protocols on one line. The result is whether both returned 0, the word the Pi claims to have
  for its id, and the next assignable id.
\<close>

definition boot_pi :: "bytes \<Rightarrow> u32 \<Rightarrow> bytes \<Rightarrow> int \<Rightarrow> u32 \<Rightarrow> (pi, bool \<times> u32 \<times> u32) serial" where
  "boot_pi prog num_prog_bytes dfs_name num_ready first_free =
     andthen (boot prog num_prog_bytes) (\<lambda>r.
       if r \<noteq> 0 then ret (False, 0, first_free)
       else
         andthen (dfs_boot num_ready (name_to_send dfs_name) (words_to_send dfs_name) first_free)
           (\<lambda>(r', claimed, first_free'). ret (r' = 0, claimed, first_free')))"

text \<open>
  A boot as the host reports it: descriptor, assignable id before and after (they differ where it prints
  that the Pi took the id), and the word claimed.
\<close>

record booted =
  b_fd :: int
  b_before :: u32
  b_after :: u32
  b_claimed :: u32

record boot_state =
  free_id :: u32
  dirty :: bool
  boots :: "booted list"

fun boot_devices :: "bytes \<Rightarrow> u32 \<Rightarrow> bytes \<Rightarrow> device list \<Rightarrow> boot_state \<Rightarrow> (bool \<times> boot_state) outcome" where
  "boot_devices prog n dfs_name [] s = Ret (True, s)"
| "boot_devices prog n dfs_name (d # ds) s =
     (case open_device d of
        Ret fd \<Rightarrow>
          if fd = - 1 then Ret (False, s)
          else
            (case fst (boot_pi prog n dfs_name (dev_ready d) (free_id s)
                 (fresh \<lparr>pi_open = False, connected = True, shown = []\<rparr> (dev_line d))) of
               Ret (okay, claimed, free') \<Rightarrow>
                 if \<not> okay then Ret (False, s\<lparr>free_id := free'\<rparr>)
                 else
                   boot_devices prog n dfs_name ds
                     (s\<lparr>free_id := free', dirty := dirty s \<or> free_id s \<noteq> free',
                        boots := boots s @ [\<lparr>b_fd = fd, b_before = free_id s, b_after = free', b_claimed = claimed\<rparr>]\<rparr>)
             | Starved \<Rightarrow> Starved
             | Diverged \<Rightarrow> Diverged
             | Failed e \<Rightarrow> Failed e)
      | Starved \<Rightarrow> Starved
      | Diverged \<Rightarrow> Diverged
      | Failed e \<Rightarrow> Failed e)"

definition boot_connected_pies ::
  "device list option \<Rightarrow> bytes option \<Rightarrow> bytes \<Rightarrow> u32 \<Rightarrow> (bool \<times> boot_state) outcome" where
  "boot_connected_pies devs prog dfs_name first_free =
     (case devs of
        None \<Rightarrow> Failed (Panic (''Could not retrieve pies!'' @ nl))
      | Some ds \<Rightarrow>
          (case prog of
             None \<Rightarrow> Failed (Panic (''Could not load program binary'' @ nl))
           | Some p \<Rightarrow>
               boot_devices p (of_nat (length p)) dfs_name ds
                 \<lparr>free_id = first_free, dirty = False, boots = []\<rparr>))"

section \<open>The program\<close>

definition get_arg :: "nat \<Rightarrow> bytes list \<Rightarrow> (bytes \<times> nat) outcome" where
  "get_arg i argv =
     (if length argv \<le> i then Failed (Panic (''Not enough arguments!'' @ nl)) else Ret (argv ! i, i + 1))"

text \<open>
  \<open>main\<close> up to the reading of the output: the result is the boots reported and the file of the store as
  it is left. \<open>None\<close> is the return when \<open>init_dfs\<close> fails. A program that panics exits at once.
\<close>

record files =
  f_opened :: bool
  f_content :: bytes
  f_stack :: bytes

definition install ::
  "bytes list \<Rightarrow> (bytes \<Rightarrow> files) \<Rightarrow> (bytes \<Rightarrow> bytes option) \<Rightarrow> device list option
    \<Rightarrow> (bool \<times> boot_state) outcome option \<times> bytes option" where
  "install argv fs progs devs =
     (case get_arg 1 argv of
        Ret (pi_prog_path, i) \<Rightarrow>
          (case get_arg i argv of
             Ret (dfs_name, i') \<Rightarrow>
               (let f = fs dfs_name in
                case init_dfs (f_opened f) (f_content f) (f_stack f) of
                  None \<Rightarrow> (None, None)
                | Some (df, content) \<Rightarrow>
                    (let r = boot_connected_pies devs (progs pi_prog_path) dfs_name (u32_at df 0) in
                     (Some r,
                      Some (case r of
                              Ret (b, s) \<Rightarrow>
                                if dirty s then write_back (splice 0 (bytes32 (free_id s)) df) content
                                else content
                            | _ \<Rightarrow> content))))
           | _ \<Rightarrow> (None, None))
      | _ \<Rightarrow> (None, None))"

section \<open>Identifiers\<close>

text \<open>Whatever a program returns satisfies \<open>P\<close>.\<close>

definition returns :: "('a \<Rightarrow> bool) \<Rightarrow> ('w, 'a) serial \<Rightarrow> bool" where
  "returns P m \<longleftrightarrow> (\<forall>p r p'. m p = (Ret r, p') \<longrightarrow> P r)"

lemma returnsD: "returns P m \<Longrightarrow> fst (m p) = Ret r \<Longrightarrow> P r"
  unfolding returns_def by (metis prod.collapse)

lemma returns_ret: "P a \<Longrightarrow> returns P (ret a)"
  by (simp add: returns_def)

lemma returns_andthen: "(\<And>a. returns P (f a)) \<Longrightarrow> returns P (andthen m f)"
  by (auto simp: returns_def andthen_def split: prod.splits outcome.splits)

lemma returns_andthen2:
  assumes "returns Q m" "\<And>a. Q a \<Longrightarrow> returns P (f a)"
  shows "returns P (andthen m f)"
  unfolding returns_def
proof (intro allI impI)
  fix p r p' assume r: "andthen m f p = (Ret r, p')"
  then obtain a p1 where "m p = (Ret a, p1)" "f a p1 = (Ret r, p')"
    by (auto simp: andthen_def split: prod.splits outcome.splits)
  then show "P r" using assms unfolding returns_def by blast
qed

lemma returns_if: "(b \<Longrightarrow> returns P m1) \<Longrightarrow> (\<not> b \<Longrightarrow> returns P m2) \<Longrightarrow> returns P (if b then m1 else m2)"
  by simp

text \<open>The next assignable id moves on by at most one, and only when \<open>dfs_boot\<close> succeeds.\<close>

definition next_id :: "u32 \<Rightarrow> int \<times> u32 \<times> u32 \<Rightarrow> bool" where
  "next_id a x \<longleftrightarrow> (case x of (r, c, a') \<Rightarrow> a' = a \<or> r = 0 \<and> a' = a + 1)"

lemma dfs_boot_next: "returns (next_id a) (dfs_boot num_ready nm k a)"
  unfolding dfs_boot_def
  by (intro returns_andthen returns_if returns_ret) (simp_all add: next_id_def)

lemma boot_pi_next:
  "returns (\<lambda>(okay, c, a'). a' = a \<or> okay \<and> a' = a + 1) (boot_pi prog n nm num_ready a)"
  unfolding boot_pi_def
proof (rule returns_andthen, rule returns_if, rule returns_ret, simp, rule returns_andthen2[OF dfs_boot_next])
  fix x :: "int \<times> u32 \<times> u32"
  assume "next_id a x"
  then show "returns (\<lambda>(okay, c, a'). a' = a \<or> okay \<and> a' = a + 1)
      (case x of (r', claimed, first_free') \<Rightarrow> ret (r' = 0, claimed, first_free'))"
    by (cases x) (auto simp: next_id_def intro!: returns_ret)
qed

definition taken :: "booted list \<Rightarrow> u32 list" where
  "taken bs = map b_before (filter (\<lambda>b. b_before b \<noteq> b_after b) bs)"

text \<open>The ids taken so far are consecutive from \<open>a\<close>, and the next one is assignable.\<close>

definition ids_ok :: "u32 \<Rightarrow> boot_state \<Rightarrow> bool" where
  "ids_ok a s \<longleftrightarrow> free_id s = a + of_nat (length (taken (boots s)))
     \<and> taken (boots s) = map (\<lambda>i. a + of_nat i) [0..<length (taken (boots s))]
     \<and> (dirty s \<longleftrightarrow> taken (boots s) \<noteq> [])"

lemma ids_ok_step:
  assumes "ids_ok a s" "f' = free_id s \<or> f' = free_id s + 1"
  shows "ids_ok a (s\<lparr>free_id := f', dirty := dirty s \<or> free_id s \<noteq> f',
     boots := boots s @ [\<lparr>b_fd = fd, b_before = free_id s, b_after = f', b_claimed = c\<rparr>]\<rparr>)"
  using assms by (auto simp: ids_ok_def taken_def algebra_simps)

lemma boot_devices_ids:
  "ids_ok a s \<Longrightarrow> boot_devices prog n nm ds s = Ret (b, s') \<Longrightarrow> ids_ok a s'"
proof (induction prog n nm ds s arbitrary: b s' rule: boot_devices.induct)
  case (2 prog n nm d ds s)
  obtain fd where fd: "open_device d = Ret fd"
    using "2.prems"(2) by (cases "open_device d") auto
  note step = boot_devices.simps(2)[of prog n nm d ds s, unfolded fd outcome.case]
  show ?case
  proof (cases "fd = - 1")
    case False
    let ?r = "fst (boot_pi prog n nm (dev_ready d) (free_id s)
        (fresh \<lparr>pi_open = False, connected = True, shown = []\<rparr> (dev_line d)))"
    obtain okay c f' where r: "?r = Ret (okay, c, f')"
      using "2.prems"(2) False fd by (cases ?r) auto
    have f: "f' = free_id s \<or> okay \<and> f' = free_id s + 1"
      using returnsD[OF boot_pi_next r] by simp
    show ?thesis
    proof (cases okay)
      case True
      let ?s = "s\<lparr>free_id := f', dirty := dirty s \<or> free_id s \<noteq> f',
         boots := boots s @ [\<lparr>b_fd = fd, b_before = free_id s, b_after = f', b_claimed = c\<rparr>]\<rparr>"
      have ok: "ids_ok a ?s" using ids_ok_step[OF "2.prems"(1)] f by blast
      have "boot_devices prog n nm ds ?s = Ret (b, s')"
        using "2.prems"(2) False r True by (simp only: step if_False if_True outcome.case prod.case simp_thms)
      with ok show ?thesis using "2.IH"[OF fd False r refl refl] True by blast
    next
      case nok: False
      then have "s' = s\<lparr>free_id := f'\<rparr>"
        using "2.prems"(2) False r by (simp only: step if_False outcome.case prod.case simp_thms) simp
      then show ?thesis using "2.prems"(1) f nok by (simp add: ids_ok_def)
    qed
  qed (use "2.prems" fd in simp)
qed simp

lemma mod_shift_inj:
  assumes "(c + i) mod n = (c + j) mod n" "i < n" "j < n"
  shows "i = (j :: nat)"
proof -
  have "(int c + int i) mod int n = (int c + int j) mod int n"
    using assms(1) by (metis of_nat_add zmod_int)
  then have "(int c + int i - int c) mod int n = (int c + int j - int c) mod int n"
    by (metis mod_diff_left_eq)
  then show ?thesis using assms(2,3) by simp
qed

lemma low_ids_distinct:
  assumes "n \<le> 256"
  shows "distinct (map (\<lambda>i. (a + of_nat i :: u32) AND 0xff) [0..<n])"
proof -
  have "inj_on (\<lambda>i. (a + of_nat i :: u32) AND 0xff) {0..<n}"
  proof (rule inj_onI)
    fix i j assume ij: "i \<in> {0..<n}" "j \<in> {0..<n}" "(a + of_nat i) AND 0xff = (a + of_nat j) AND 0xff"
    have m: "(0xff :: u32) = mask 8" by (simp add: mask_eq_exp_minus_1)
    have "unat ((a + of_nat k) AND 0xff) = (unat a + k) mod 256" for k :: nat
    proof -
      have "unat (a + of_nat k) = unat (of_nat (unat a + k) :: u32)" by simp
      also have "\<dots> = (unat a + k) mod 2 ^ 32" unfolding unat_of_nat by simp
      finally have "unat (a + of_nat k) mod 2 ^ 8 = (unat a + k) mod 2 ^ 8"
        by (simp only: mod_mod_cancel le_imp_power_dvd)
      moreover have "unat ((a + of_nat k) AND 0xff) = take_bit 8 (unat (a + of_nat k))"
        unfolding m by (simp only: take_bit_eq_mask[symmetric] unsigned_take_bit_eq)
      ultimately show ?thesis by (simp add: take_bit_eq_mod)
    qed
    then have "(unat a + i) mod 256 = (unat a + j) mod 256" using ij(3) by metis
    moreover have "i < 256" "j < 256" using ij(1,2) assms by auto
    ultimately show "i = j" by (rule mod_shift_inj)
  qed
  then show ?thesis by (simp add: distinct_map)
qed

text \<open>
  No two Pis of one run get the same id. When \<open>boot_connected_pies\<close> returns, even early because a
  Pi failed, the ids taken are consecutive from the first free one, the next free id is the one behind
  them, and the file of the store is marked for writing exactly if any was taken. Only the low byte
  of an id travels on the line: the Pis' own ids are distinct as long as no more than 256 were taken.
\<close>

theorem boot_connected_pies_ids:
  assumes "boot_connected_pies devs prog dfs_name a = Ret (b, s)" "length (taken (boots s)) \<le> 256"
  shows "free_id s = a + of_nat (length (taken (boots s)))
    \<and> taken (boots s) = map (\<lambda>i. a + of_nat i) [0..<length (taken (boots s))]
    \<and> (dirty s \<longleftrightarrow> taken (boots s) \<noteq> [])
    \<and> distinct (map (\<lambda>x. x AND 0xff) (taken (boots s)))"
proof -
  have "ids_ok a \<lparr>free_id = a, dirty = False, boots = []\<rparr>" by (simp add: ids_ok_def taken_def)
  then have ok: "ids_ok a s"
    using assms(1) boot_devices_ids by (auto simp: boot_connected_pies_def split: option.splits)
  let ?n = "length (taken (boots s))"
  have "distinct (map (\<lambda>i. (a + of_nat i) AND 0xff) [0..<?n])" by (rule low_ids_distinct[OF assms(2)])
  then have "distinct (map (\<lambda>x. x AND 0xff) (map (\<lambda>i. a + of_nat i) [0..<?n]))" by (simp add: comp_def)
  then show ?thesis using ok unfolding ids_ok_def by metis
qed

text \<open>
  A Pi that boots and, offered \<open>a\<close>, claims an id with the low byte of \<open>b\<close>, after which \<open>a'\<close> is the next free
  id; and what a run over such Pis comes to, the next free ids on the way being \<open>a 0\<close>, \<open>a 1\<close> and so on.
\<close>

definition answers_boot :: "bytes \<Rightarrow> u32 \<Rightarrow> bytes \<Rightarrow> u32 \<Rightarrow> u32 \<Rightarrow> u32 \<Rightarrow> device \<Rightarrow> bool" where
  "answers_boot prog n nm a a' b d \<longleftrightarrow> (\<exists>fd claimed. open_device d = Ret fd \<and> fd \<noteq> - 1
     \<and> fst (boot_pi prog n nm (dev_ready d) a
         (fresh \<lparr>pi_open = False, connected = True, shown = []\<rparr> (dev_line d))) = Ret (True, claimed, a')
     \<and> claimed AND 0xff = b AND 0xff)"

lemma boot_devices_answers:
  assumes "free_id s = a 0" "\<And>i. i < length ds \<Longrightarrow> answers_boot prog n nm (a i) (a (Suc i)) (b i) (ds ! i)"
  shows "\<exists>s' bs. boot_devices prog n nm ds s = Ret (True, s') \<and> free_id s' = a (length ds)
    \<and> (dirty s' \<longleftrightarrow> dirty s \<or> (\<exists>i < length ds. a i \<noteq> a (Suc i))) \<and> boots s' = boots s @ bs \<and> length bs = length ds
    \<and> (\<forall>i < length ds. b_before (bs ! i) = a i \<and> b_after (bs ! i) = a (Suc i)
          \<and> b_claimed (bs ! i) AND 0xff = b i AND 0xff)"
  using assms
proof (induction ds arbitrary: s a b)
  case Nil
  then show ?case by (intro exI[of _ s] exI[of _ "[]"]) simp
next
  case (Cons d ds)
  obtain fd claimed where d: "open_device d = Ret fd" "fd \<noteq> - 1"
    "fst (boot_pi prog n nm (dev_ready d) (a 0)
       (fresh \<lparr>pi_open = False, connected = True, shown = []\<rparr> (dev_line d))) = Ret (True, claimed, a 1)"
    "claimed AND 0xff = b 0 AND 0xff"
    using Cons.prems(2)[of 0] by (auto simp: answers_boot_def)
  let ?b = "\<lparr>b_fd = fd, b_before = a 0, b_after = a 1, b_claimed = claimed\<rparr>"
  let ?s = "s\<lparr>free_id := a 1, dirty := dirty s \<or> a 0 \<noteq> a 1, boots := boots s @ [?b]\<rparr>"
  have step: "boot_devices prog n nm (d # ds) s = boot_devices prog n nm ds ?s"
    using d(1-3) Cons.prems(1) by simp
  have f: "free_id ?s = (\<lambda>i. a (Suc i)) 0" by simp
  have "answers_boot prog n nm (a (Suc i)) (a (Suc (Suc i))) (b (Suc i)) (ds ! i)" if "i < length ds" for i
    using Cons.prems(2)[of "Suc i"] that by simp
  from Cons.IH[of ?s "\<lambda>i. a (Suc i)" "\<lambda>i. b (Suc i)", OF f this]
  obtain s' bs where ih: "boot_devices prog n nm ds ?s = Ret (True, s')"
    "free_id s' = a (Suc (length ds))" "dirty s' \<longleftrightarrow> dirty ?s \<or> (\<exists>i < length ds. a (Suc i) \<noteq> a (Suc (Suc i)))"
    "boots s' = boots ?s @ bs" "length bs = length ds"
    "\<forall>i < length ds. b_before (bs ! i) = a (Suc i) \<and> b_after (bs ! i) = a (Suc (Suc i))
        \<and> b_claimed (bs ! i) AND 0xff = b (Suc i) AND 0xff"
    by auto
  have e: "b_before ((?b # bs) ! i) = a i \<and> b_after ((?b # bs) ! i) = a (Suc i)
      \<and> b_claimed ((?b # bs) ! i) AND 0xff = b i AND 0xff" if "i < length (d # ds)" for i
    using that ih(6) d(4) by (cases i) auto
  have "dirty s' \<longleftrightarrow> dirty s \<or> (\<exists>i < length (d # ds). a i \<noteq> a (Suc i))"
    using ih(3) by (simp add: Ex_less_Suc2)
  then show ?case
    unfolding step using ih(1,2,4,5) e by (intro exI[of _ s'] exI[of _ "?b # bs"]) simp
qed

section \<open>A whole boot\<close>

text \<open>
  The bytes of a Pi whose loader loads the program and which then answers every word of \<open>dfs_boot\<close>:
  it takes the id offered, or claims the one its card records.
\<close>

definition pi_says :: "bytes \<Rightarrow> bool \<Rightarrow> u8 \<Rightarrow> bytes" where
  "pi_says nm takes b = loader_says [] 0 [] @ dummies (length (host_words nm))
     @ bytes32 (if takes then DUMMY2 else DUMMY) @ replicate 4 b"

lemma boot_pi_run:
  assumes "unat n \<le> length prog"
  shows "fst (boot_pi prog n nm 1 a (fresh \<lparr>pi_open = False, connected = True, shown = []\<rparr> (pi_says nm takes b))) =
    Ret (True, le32 b b b b, if takes then a + 1 else a)"
proof -
  let ?w = "\<lparr>pi_open = False, connected = True, shown = []\<rparr>"
  define rest where "rest = dummies (length (host_words nm))
    @ bytes32 (answer_word (if takes then - 1 else 0)) @ replicate 4 b @ []"
  define sent_out where
    "sent_out = words [PUT_PROG_INFO, ARMBASE, n, crc32_bitwise (take (unat n) prog), PUT_CODE] @ take (unat n) prog"
  have w: "connected ?w" "connected (?w\<lparr>pi_open := True\<rparr>)" by simp_all
  have says: "pi_says nm takes b = loader_says [] 0 [] @ rest"
    by (simp add: pi_says_def rest_def answer_word_def)
  have q: "quiet []" by (simp add: quiet_def)
  have 1: "boot prog n \<lparr>inp = loader_says [] 0 [] @ rest, outp = [], env = ?w\<rparr> =
      (Ret 0, \<lparr>inp = rest, outp = sent_out, env = ?w\<lparr>pi_open := True\<rparr>\<rparr>)"
    unfolding sent_out_def by (rule boot_run[OF w(1) q assms]) simp_all
  have "\<exists>q. asks (host_words nm) (ask_id a) \<lparr>inp = rest, outp = sent_out, env = ?w\<lparr>pi_open := True\<rparr>\<rparr> =
      (Ret (0, le32 b b b b, if takes then a + 1 else a), q)"
    unfolding rest_def asks_run[OF w(2)] ask_id_run[OF w(2)] by simp
  then obtain q where 2: "asks (host_words nm) (ask_id a)
      \<lparr>inp = rest, outp = sent_out, env = ?w\<lparr>pi_open := True\<rparr>\<rparr> =
      (Ret (0, le32 b b b b, if takes then a + 1 else a), q)" by blast
  show ?thesis
    unfolding boot_pi_def says fresh_def dfs_boot_asks andthen_def 1 prod.case outcome.case
    using 2 by (simp add: andthen_def)
qed

definition demo_device :: "bool \<Rightarrow> u8 \<Rightarrow> device" where
  "demo_device takes b = \<lparr>dev_opens = (\<lambda>i. if i = 0 then - 1 else 3), dev_term = demo_tty,
     dev_line = pi_says (ascii ''abcd'') takes b, dev_ready = 1\<rparr>"

lemma demo_device_open: "open_device (demo_device takes b) = Ret 3"
  using demo_tty_ok(2) by (simp add: open_device_def demo_device_def upt_rec demo_tty_def)

theorem boot_connected_pies_ids_witness:
  "\<exists>s. boot_connected_pies (Some [demo_device True 5, demo_device False 9, demo_device True 6])
        (Some [1, 2, 3]) (ascii ''abcd'') 5 = Ret (True, s)
    \<and> free_id s = 5 + of_nat (length (taken (boots s)))
    \<and> taken (boots s) = map (\<lambda>i. 5 + of_nat i) [0..<length (taken (boots s))]
    \<and> (dirty s \<longleftrightarrow> taken (boots s) \<noteq> [])
    \<and> distinct (map (\<lambda>x. x AND 0xff) (taken (boots s)))"
proof -
  have run: "fst (boot_pi [1, 2, 3] 3 (ascii ''abcd'') (dev_ready (demo_device takes b)) a
      (fresh \<lparr>pi_open = False, connected = True, shown = []\<rparr> (dev_line (demo_device takes b)))) =
    Ret (True, le32 b b b b, if takes then a + 1 else a)" for takes b a
    using boot_pi_run[of 3 "[1, 2, 3]" "ascii ''abcd''" a takes b] by (simp add: demo_device_def)
  obtain s where s: "boot_connected_pies (Some [demo_device True 5, demo_device False 9, demo_device True 6])
      (Some [1, 2, 3]) (ascii ''abcd'') 5 = Ret (True, s)" "length (taken (boots s)) = 2"
    by (simp add: boot_connected_pies_def demo_device_open run Let_def taken_def)
  have "length (taken (boots s)) \<le> 256" using s(2) by simp
  then show ?thesis by (intro exI[of _ s] conjI s(1)) (use boot_connected_pies_ids [OF s(1)] in blast)+
qed

section \<open>The file between runs\<close>

lemma get_arg_eq: "i < length argv \<Longrightarrow> get_arg i argv = Ret (argv ! i, i + 1)"
  by (simp add: get_arg_def)

lemma u32_at_splice0: "length bs = 4 \<Longrightarrow> 4 \<le> length xs \<Longrightarrow> u32_at (splice 0 bs xs) 0 = u32_at bs 0"
  by (simp add: u32_at_def splice_def nth_append)

lemma u32_at_bytes32: "u32_at (bytes32 v @ xs) 0 = v"
  by (simp add: u32_at_def bytes32_def)

definition store_file :: "bytes \<Rightarrow> bool" where
  "store_file content \<longleftrightarrow> length content = 0 \<or> sizeof_dfs_file \<le> length content"

lemma init_dfs_read:
  assumes "store_file content" "length content \<noteq> 0" "length st = sizeof_dfs_file"
  shows "init_dfs True content st = Some (take sizeof_dfs_file content, content)"
  using assms by (simp add: init_dfs_def store_file_def splice_def)

text \<open>What the next run finds, after \<open>init_dfs\<close> and, when ids were taken, writing back.\<close>

lemma kept_id:
  assumes "store_file content" "init_dfs opened content st = Some (df, c0)"
    and "length st = sizeof_dfs_file" "length st2 = sizeof_dfs_file"
    and "c1 = (if d then write_back (splice 0 (bytes32 v) df) c0 else c0)"
  shows "\<exists>df2. init_dfs True c1 st2 = Some (df2, c1) \<and> store_file c1
    \<and> u32_at df2 0 = (if d then v else u32_at df 0)"
proof -
  have df: "length df = sizeof_dfs_file" and c0: "sizeof_dfs_file \<le> length c0" "take sizeof_dfs_file c0 = df"
    using assms(1-3) by (auto simp: init_dfs_def store_file_def splice_def split: if_splits)
  have n: "4 \<le> sizeof_dfs_file" by (simp add: sizeof_dfs_file_def)
  have sp: "length (splice 0 (bytes32 v) df) = sizeof_dfs_file" using df n by simp
  have c1: "sizeof_dfs_file \<le> length c1" "take sizeof_dfs_file c1 = (if d then splice 0 (bytes32 v) df else df)"
    using assms(5) c0 sp by (simp_all add: write_back_def)
  have ne: "length c1 \<noteq> 0" using c1(1) n by linarith
  have sf: "store_file c1" using c1(1) by (simp add: store_file_def)
  have "u32_at (splice 0 (bytes32 v) df) 0 = v"
    using df n u32_at_bytes32[of v "[]"] by (simp add: u32_at_splice0)
  then show ?thesis using init_dfs_read[OF sf ne assms(4)] sf c1(2) by simp
qed

lemma install_run:
  assumes "2 < length argv" "f = fs (argv ! 2)" "init_dfs (f_opened f) (f_content f) (f_stack f) = Some (df, c0)"
  shows "install argv fs progs devs =
    (let r = boot_connected_pies devs (progs (argv ! 1)) (argv ! 2) (u32_at df 0) in
     (Some r, Some (case r of
        Ret (b, s) \<Rightarrow> if dirty s then write_back (splice 0 (bytes32 (free_id s)) df) c0 else c0
      | _ \<Rightarrow> c0)))"
proof -
  have "get_arg 1 argv = Ret (argv ! 1, 2)" "get_arg 2 argv = Ret (argv ! 2, 3)"
    using assms(1) by (simp_all add: get_arg_eq)
  then show ?thesis using assms(2,3) by (simp add: install_def Let_def)
qed

text \<open>A run over Pis that all answer, with what it leaves in the file.\<close>

lemma install_answers:
  assumes "2 < length argv" "nm = argv ! 2" "f = fs nm" "progs (argv ! 1) = Some prog"
    and "init_dfs (f_opened f) (f_content f) (f_stack f) = Some (df, c0)" "a 0 = u32_at df 0"
    and "\<And>i. i < length ds \<Longrightarrow> answers_boot prog (of_nat (length prog)) nm (a i) (a (Suc i)) (b i) (ds ! i)"
  obtains s where "boot_connected_pies (Some ds) (Some prog) nm (u32_at df 0) = Ret (True, s)"
    "install argv fs progs (Some ds) = (Some (Ret (True, s)),
       Some (if \<exists>i < length ds. a i \<noteq> a (Suc i) then write_back (splice 0 (bytes32 (a (length ds))) df) c0 else c0))"
    "length (boots s) = length ds"
    "\<And>i. i < length ds \<Longrightarrow> b_before (boots s ! i) = a i \<and> b_after (boots s ! i) = a (Suc i)
        \<and> b_claimed (boots s ! i) AND 0xff = b i AND 0xff"
    "length (taken (boots s)) = length (filter (\<lambda>i. a i \<noteq> a (Suc i)) [0..<length ds])"
proof -
  let ?s0 = "\<lparr>free_id = u32_at df 0, dirty = False, boots = []\<rparr>"
  have f0: "free_id ?s0 = a 0" using assms(6) by simp
  obtain s where s: "boot_devices prog (of_nat (length prog)) nm ds ?s0 = Ret (True, s)"
    "free_id s = a (length ds)" "dirty s \<longleftrightarrow> (\<exists>i < length ds. a i \<noteq> a (Suc i))" "length (boots s) = length ds"
    "\<forall>i < length ds. b_before (boots s ! i) = a i \<and> b_after (boots s ! i) = a (Suc i)
        \<and> b_claimed (boots s ! i) AND 0xff = b i AND 0xff"
    using boot_devices_answers[OF f0 assms(7)] by auto
  have r: "boot_connected_pies (Some ds) (Some prog) nm (u32_at df 0) = Ret (True, s)"
    using s(1) by (simp add: boot_connected_pies_def)
  have "boots s = map (\<lambda>i. boots s ! i) [0..<length ds]" using s(4) map_nth[of "boots s"] by simp
  then have "taken (boots s) = map b_before (filter (\<lambda>b. b_before b \<noteq> b_after b) (map (\<lambda>i. boots s ! i) [0..<length ds]))"
    unfolding taken_def by simp
  also have "\<dots> = map (b_before \<circ> (!) (boots s)) (filter (\<lambda>i. b_before (boots s ! i) \<noteq> b_after (boots s ! i)) [0..<length ds])"
    by (simp add: filter_map comp_def)
  also have "filter (\<lambda>i. b_before (boots s ! i) \<noteq> b_after (boots s ! i)) [0..<length ds] = filter (\<lambda>i. a i \<noteq> a (Suc i)) [0..<length ds]"
    by (rule filter_cong) (use s(5) in auto)
  finally have t: "length (taken (boots s)) = length (filter (\<lambda>i. a i \<noteq> a (Suc i)) [0..<length ds])" by simp
  have "install argv fs progs (Some ds) = (Some (Ret (True, s)),
      Some (if \<exists>i < length ds. a i \<noteq> a (Suc i) then write_back (splice 0 (bytes32 (a (length ds))) df) c0 else c0))"
    using install_run[where fs = fs and f = f and progs = progs and devs = "Some ds",
        OF assms(1) assms(3)[unfolded assms(2)] assms(5)] r assms(2,4)
    unfolding s(2,3)[symmetric] by simp
  then show thesis using that[OF r] s(4,5) t by simp
qed

lemma ids_append:
  "map (\<lambda>i. a + of_nat i) [0..<m + n] = map (\<lambda>i. a + of_nat i) [0..<m] @ map (\<lambda>i. (a :: u32) + of_nat m + of_nat i) [0..<n]"
proof -
  have "[0..<m + n] = [0..<m] @ map (\<lambda>i. i + m) [0..<n]"
    unfolding map_add_upt upt_add_eq_append[OF le0] add.commute[of n m] by (rule refl)
  then show ?thesis by (simp add: ac_simps)
qed

lemma boot_connected_ok:
  "boot_connected_pies devs prog nm a = Ret (b, s) \<Longrightarrow> ids_ok a s"
  using boot_devices_ids[of a "\<lparr>free_id = a, dirty = False, boots = []\<rparr>"]
  by (auto simp: boot_connected_pies_def ids_ok_def taken_def split: option.splits)

text \<open>
  C11: ids go on where the last run stopped. If two runs of the program for the same store both come
  to the end of the booting, the second on the file the first left behind, the ids they gave out are
  together consecutive from the one the file held at first; an empty file counts as one that holds 0.
\<close>

theorem install_ids_across_runs:
  assumes "2 < length argv" "f = fs (argv ! 2)" "store_file (f_content f)" "length (f_stack f) = 512"
    and "init_dfs (f_opened f) (f_content f) (f_stack f) = Some (df, c0)"
    and "install argv fs progs devs = (Some (Ret (b, s)), Some c1)"
    and "fs' (argv ! 2) = \<lparr>f_opened = True, f_content = c1, f_stack = st\<rparr>" "length st = 512"
    and "install argv fs' progs' devs' = (Some (Ret (b', s')), Some c2)"
  shows "taken (boots s) @ taken (boots s') =
    map (\<lambda>i. u32_at df 0 + of_nat i) [0..<length (taken (boots s)) + length (taken (boots s'))]"
proof -
  have z: "sizeof_dfs_file = 512" by (simp add: sizeof_dfs_file_def)
  note r1 = install_run[where fs = fs, OF assms(1,2,5), of progs devs]
  have b1: "boot_connected_pies devs (progs (argv ! 1)) (argv ! 2) (u32_at df 0) = Ret (b, s)"
    and c1: "c1 = (if dirty s then write_back (splice 0 (bytes32 (free_id s)) df) c0 else c0)"
    using assms(6) unfolding r1 Let_def by auto
  obtain df2 where d2: "init_dfs True c1 st = Some (df2, c1)"
    "u32_at df2 0 = (if dirty s then free_id s else u32_at df 0)"
    using kept_id[OF assms(3,5) _ _ c1, of st] assms(4,8) z by auto
  have b2: "boot_connected_pies devs' (progs' (argv ! 1)) (argv ! 2) (u32_at df2 0) = Ret (b', s')"
    using assms(9) install_run[where fs = fs' and f = "fs' (argv ! 2)", OF assms(1) refl, of df2 c1 progs' devs'] d2(1) assms(7)
    by (simp add: Let_def)
  have i1: "ids_ok (u32_at df 0) s" and i2: "ids_ok (u32_at df2 0) s'"
    using boot_connected_ok[OF b1] boot_connected_ok[OF b2] by simp_all
  define m n where "m = length (taken (boots s))" and "n = length (taken (boots s'))"
  let ?a = "u32_at df 0"
  have t1: "taken (boots s) = map (\<lambda>i. ?a + of_nat i) [0..<m]"
    using i1 unfolding ids_ok_def m_def by blast
  have "taken (boots s') = map (\<lambda>i. u32_at df2 0 + of_nat i) [0..<n]"
    using i2 unfolding ids_ok_def n_def by blast
  moreover have "u32_at df2 0 = ?a + of_nat m"
    using i1 d2(2) unfolding ids_ok_def m_def by auto
  ultimately have "taken (boots s) @ taken (boots s') = map (\<lambda>i. ?a + of_nat i) [0..<m + n]"
    unfolding t1 ids_append by simp
  then show ?thesis unfolding m_def n_def .
qed

text \<open>
  C34: ids are lost when a later Pi fails. If a Pi took the offered id and the next one does not answer,
  the program exits without writing the file of the store: the next run starts with the same id and
  offers it again, although the first Pi has recorded it for good.
\<close>

theorem install_forgets_ids:
  assumes "2 < length argv" "f = fs (argv ! 2)" "store_file (f_content f)" "length (f_stack f) = 512"
    and "init_dfs (f_opened f) (f_content f) (f_stack f) = Some (df, c0)" "a = u32_at df 0"
    and "progs (argv ! 1) = Some p" "open_device d1 = Ret fd1" "fd1 \<noteq> - 1" "open_device d2 = Ret fd2" "fd2 \<noteq> - 1"
    and "fst (boot_pi p (of_nat (length p)) (argv ! 2) (dev_ready d1) a
        (fresh \<lparr>pi_open = False, connected = True, shown = []\<rparr> (dev_line d1))) = Ret (True, claimed, a + 1)"
    and "fst (boot_pi p (of_nat (length p)) (argv ! 2) (dev_ready d2) (a + 1)
        (fresh \<lparr>pi_open = False, connected = True, shown = []\<rparr> (dev_line d2))) = Starved"
    and "length st = 512"
  shows "\<exists>c1 df2. install argv fs progs (Some (d1 # d2 # ds)) = (Some Starved, Some c1)
    \<and> init_dfs True c1 st = Some (df2, c1) \<and> u32_at df2 0 = a"
proof -
  have "boot_connected_pies (Some (d1 # d2 # ds)) (progs (argv ! 1)) (argv ! 2) (u32_at df 0) = Starved"
    using assms(6-13) by (simp add: boot_connected_pies_def Let_def)
  then have run: "install argv fs progs (Some (d1 # d2 # ds)) = (Some Starved, Some c0)"
    using install_run[where fs = fs, OF assms(1,2,5), of progs "Some (d1 # d2 # ds)"] by simp
  have "\<exists>df2. init_dfs True c0 st = Some (df2, c0) \<and> store_file c0
      \<and> u32_at df2 0 = (if False then 0 else u32_at df 0)"
    by (rule kept_id[OF assms(3,5)]) (use assms(4,14) in \<open>simp_all add: sizeof_dfs_file_def\<close>)
  then show ?thesis using run assms(6) by auto
qed

text \<open>A store file on the host whose next free id is 5, and two runs on it.\<close>

definition demo_store_file :: bytes where
  "demo_store_file = bytes32 5 @ replicate 508 0"

definition demo_argv :: "bytes list" where
  "demo_argv = [ascii ''deploy'', ascii ''prog'', ascii ''abcd'']"

definition demo_files :: "bytes \<Rightarrow> bytes \<Rightarrow> files" where
  "demo_files content nm = \<lparr>f_opened = True, f_content = content, f_stack = replicate 512 0\<rparr>"

definition demo_progs :: "bytes \<Rightarrow> bytes option" where
  "demo_progs path = Some [1, 2, 3]"

lemma demo_boot:
  "fst (boot_pi [1, 2, 3] 3 (ascii ''abcd'') (dev_ready (demo_device takes b)) a
      (fresh \<lparr>pi_open = False, connected = True, shown = []\<rparr> (dev_line (demo_device takes b)))) =
    Ret (True, le32 b b b b, if takes then a + 1 else a)"
  using boot_pi_run[of 3 "[1, 2, 3]" "ascii ''abcd''" a takes b] by (simp add: demo_device_def)

lemma demo_init:
  "length content = 512 \<Longrightarrow> init_dfs True content (replicate 512 0) = Some (content, content)"
  using init_dfs_read[of content "replicate 512 0"] by (simp add: store_file_def sizeof_dfs_file_def)

lemma demo_store_start: "u32_at demo_store_file 0 = 5" "length demo_store_file = 512"
  using u32_at_bytes32[of 5 "replicate 508 0"] by (simp_all add: demo_store_file_def)

lemma demo_argv_nth: "demo_argv ! 2 = ascii ''abcd''" "demo_argv ! 1 = ascii ''prog''" "2 < length demo_argv"
  by (simp_all add: demo_argv_def)

lemma demo_run:
  assumes "length content = 512"
  shows "\<exists>s. install demo_argv (demo_files content) demo_progs (Some [demo_device True b]) =
      (Some (Ret (True, s)), Some (splice 0 (bytes32 (u32_at content 0 + 1)) content))
    \<and> taken (boots s) = [u32_at content 0]"
  using install_run[OF demo_argv_nth(3) refl, of "demo_files content" content content demo_progs "Some [demo_device True b]"]
    demo_init[OF assms] demo_boot[of True b] assms
  by (auto simp: demo_files_def demo_argv_nth demo_progs_def boot_connected_pies_def demo_device_open Let_def
      taken_def write_back_def)

theorem install_ids_across_runs_witness:
  "\<exists>s c1 s' c2.
     install demo_argv (demo_files demo_store_file) demo_progs (Some [demo_device True 5]) = (Some (Ret (True, s)), Some c1)
   \<and> install demo_argv (demo_files c1) demo_progs (Some [demo_device True 6]) = (Some (Ret (True, s')), Some c2)
   \<and> taken (boots s) @ taken (boots s') =
       map (\<lambda>i. u32_at demo_store_file 0 + of_nat i) [0..<length (taken (boots s)) + length (taken (boots s'))]"
proof -
  let ?c1 = "splice 0 (bytes32 (u32_at demo_store_file 0 + 1)) demo_store_file"
  obtain s where s: "install demo_argv (demo_files demo_store_file) demo_progs (Some [demo_device True 5]) =
      (Some (Ret (True, s)), Some ?c1)"
    using demo_run[OF demo_store_start(2)] by blast
  have l: "length ?c1 = 512" by (simp add: demo_store_start)
  obtain s' c2 where s': "install demo_argv (demo_files ?c1) demo_progs (Some [demo_device True 6]) =
      (Some (Ret (True, s')), Some c2)"
    using demo_run[OF l] by blast
  have "taken (boots s) @ taken (boots s') =
      map (\<lambda>i. u32_at demo_store_file 0 + of_nat i) [0..<length (taken (boots s)) + length (taken (boots s'))]"
    by (rule install_ids_across_runs [OF demo_argv_nth(3) refl _ _ _ s _ _ s', where st = "replicate 512 0"])
       (simp_all add: demo_files_def store_file_def sizeof_dfs_file_def demo_store_start demo_init)
  then show ?thesis using s s' by blast
qed

definition silent_device :: device where
  "silent_device = (demo_device True 0)\<lparr>dev_line := []\<rparr>"

lemma silent_boot:
  "fst (boot_pi prog n nm k a (fresh \<lparr>pi_open = False, connected = True, shown = []\<rparr> (dev_line silent_device))) = Starved"
proof -
  have "boot prog n \<lparr>inp = [], outp = [], env = \<lparr>pi_open = False, connected = True, shown = []\<rparr>\<rparr> =
      (Starved, \<lparr>inp = [], outp = [], env = \<lparr>pi_open = False, connected = True, shown = []\<rparr>\<rparr>)"
    using get32_Starved[of "\<lparr>pi_open = False, connected = True, shown = []\<rparr>" "[]"]
    by (simp add: boot_def andthen_def)
  then show ?thesis by (simp add: boot_pi_def andthen_def fresh_def silent_device_def)
qed

theorem install_forgets_ids_witness:
  "\<exists>c1 df2. install demo_argv (demo_files demo_store_file) demo_progs (Some [demo_device True 5, silent_device]) =
      (Some Starved, Some c1)
    \<and> init_dfs True c1 (replicate 512 0) = Some (df2, c1) \<and> u32_at df2 0 = 5"
proof -
  have opn: "open_device silent_device = Ret 3"
    using demo_device_open[of True 0] by (simp add: open_device_def silent_device_def)
  have t: "fst (boot_pi [1, 2, 3] (of_nat (length [1, 2, 3 :: u8])) (demo_argv ! 2) (dev_ready (demo_device True 5)) 5
      (fresh \<lparr>pi_open = False, connected = True, shown = []\<rparr> (dev_line (demo_device True 5)))) =
      Ret (True, le32 5 5 5 5, 5 + 1)"
    using demo_boot[of True 5 5] by (simp add: demo_argv_nth)
  have i: "init_dfs (f_opened (demo_files demo_store_file (demo_argv ! 2)))
      (f_content (demo_files demo_store_file (demo_argv ! 2))) (f_stack (demo_files demo_store_file (demo_argv ! 2))) =
      Some (demo_store_file, demo_store_file)"
    by (simp add: demo_files_def demo_init demo_store_start)
  show ?thesis
    using install_forgets_ids [where fs = "demo_files demo_store_file" and progs = demo_progs and ds = "[]"
        and st = "replicate 512 0", OF demo_argv_nth(3) refl _ _ i _ _ demo_device_open _ opn _ t silent_boot]
    by (simp add: demo_files_def store_file_def sizeof_dfs_file_def demo_store_start demo_progs_def)
qed

end
