(* ===== verification/Boot_Store.thy ===== *)
theory Boot_Store
  imports Protocol Sd_Card
begin

text \<open>
  The whole path of an id: the host's \<open>dfs_boot\<close>, the serial line, the Pi's \<open>entry\<close>, the FAT32
  driver and the card. On a card that holds the configuration file, the host is told the id the card
  records for the store, over any device with the block contract; \<open>Pi_Start\<close> puts the SD driver there.
\<close>

section \<open>The protocol on one line\<close>

text \<open>The two programs are monotone on what they have received, so every order of deliveries agrees.\<close>

interpretation boot_line: duplex
  "host_sends nm a h" "pi_sends rd wr name0 b1 b2 sec0 s"
  unfolding host_sends_def pi_sends_def
  by (rule duplex_sent) (intro causal_dfs_boot causal_entry)+

section \<open>Finding the configuration file\<close>

text \<open>The first sector of a cluster, and the records of the first cluster of the root directory.\<close>

definition cluster_lba :: "(u32 \<Rightarrow> bytes) \<Rightarrow> nat \<Rightarrow> u32 \<Rightarrow> u32" where
  "cluster_lba D p c =
     (let vd = layout_at D p
      in cluster_begin_lba vd + (c - vd_root_dir_first_cluster vd) * ucast (vd_sectors_per_cluster vd))"

definition root_records :: "(u32 \<Rightarrow> bytes) \<Rightarrow> nat \<Rightarrow> dir_record list" where
  "root_records D p =
     concat (map (\<lambda>k. sector_records (D (cluster_lba D p FAT32_ROOT_CLUSTER_NO + of_nat k)))
       [0..<unat (vd_sectors_per_cluster (layout_at D p))])"

lemma mounted_lba:
  "cur_vol s = layout_at D p \<Longrightarrow> cluster_no_to_lba s c = cluster_lba D p c"
  by (simp add: cluster_no_to_lba_def cluster_lba_def Let_def)

lemma mounted_records:
  assumes "cur_vol s = layout_at (view d) p" "view (dev s) = view d"
  shows "dir_records view s [FAT32_ROOT_CLUSTER_NO] = root_records (view d) p"
  using assms
  by (simp add: dir_records_def cluster_records_def dir_sector_def root_records_def spc_def mounted_lba)

lemma mount_finds_config:
  assumes dev: "block_device rd wr view good invar" "invar d"
    and card: "single_volume (view d) p" "layout_ok (view d) p"
      "\<And>l. l \<in> mount_lbas (view d) p \<union> data_lbas (view d) p \<Longrightarrow> good l"
    and cfgs: "find_record FAT32_DFS_CFG_FILENAME (root_records (view d) p) = Some cfg" "cfg \<noteq> - 1"
    and buf: "length b1 = 512"
  shows "\<exists>s1 s2. fat32_init (boot_fs r0 w0 m d) rd wr = Inr (0, s1)
    \<and> dfs_init_config s1 b1 b2 = Some (Inr (cfg, s2))
    \<and> view (dev s1) = view d \<and> view (dev s2) = view d \<and> invar (dev s2)
    \<and> cluster_no_to_lba s2 cfg = cluster_lba (view d) p cfg"
proof -
  obtain s1 where s1: "fat32_init (boot_fs r0 w0 m d) rd wr = Inr (0, s1)"
    "attached rd wr invar good s1" "view (dev s1) = view d" "cur_vol s1 = layout_at (view d) p"
    "unat (FAT_end s1) = 128 * table_sectors (view d) p"
    using init_attached[OF dev card, of r0 w0 m] by blast
  have t: "table_ok s1" using attached_table[OF s1(2)] .
  then have di: "did_init s1" by (simp add: table_ok_def)
  have root: "in_table s1 FAT32_ROOT_CLUSTER_NO"
    using s1(5) card(2) by (simp add: layout_ok_def Let_def in_table_def FAT32_ROOT_CLUSTER_NO_def)
  have n11: "11 \<le> length FAT32_DFS_CFG_FILENAME" using config_name by simp
  have recs: "find_record FAT32_DFS_CFG_FILENAME (dir_records view s1 [FAT32_ROOT_CLUSTER_NO]) = Some cfg"
    using mounted_records[OF s1(4,3)] cfgs(1) by simp
  obtain s2 where s2: "lookup_dir FAT32_DFS_CFG_FILENAME FAT32_ROOT_CLUSTER_NO b1 s1 = Some (Inr (cfg, s2))"
    "attached rd wr invar good s2" "same_store view s1 s2"
    using block_device.lookup_dir_walk[OF dev(1) s1(2), of FAT32_ROOT_CLUSTER_NO "[]" b1 FAT32_DFS_CFG_FILENAME]
      root buf n11 recs by auto
  have "dfs_init_config s1 b1 b2 = Some (Inr (cfg, s2))"
    using s2(1) di cfgs(2) by (simp add: dfs_init_config_def fat32_get_cluster_no_def)
  moreover have "cluster_no_to_lba s2 cfg = cluster_lba (view d) p cfg"
    using geometry_statics(5)[of s2 s1 cfg] s2(3) mounted_lba[OF s1(4)] by (simp add: same_store_def)
  ultimately show ?thesis
    using s1 s2 by (intro exI[of _ s1] exI[of _ s2]) (simp add: attached_def same_store_def)
qed

section \<open>Agreement\<close>

text \<open>
  Every run of the two programs leads to the state where both have returned: the host with success, the
  word \<open>claimed\<close> and the next assignable id \<open>a'\<close>, whatever it has sent before, the Pi in state \<open>s'\<close>. All that is left on the line is
  the Pi's last message to the host.
\<close>

definition boot_agrees ::
  "bytes \<Rightarrow> u32 \<Rightarrow> pi \<Rightarrow> ('d fs, unit) serial \<Rightarrow> 'd fs \<Rightarrow> u32 \<Rightarrow> u32 \<Rightarrow> 'd fs \<Rightarrow> bool" where
  "boot_agrees nm a h pi_prog s claimed a' s' \<longleftrightarrow>
     (\<exists>X Y q. inevitable (host_sends nm a h) (sent pi_prog s) (X, Y)
        \<and> (\<forall>os. \<exists>p. dfs_boot 1 (name_to_send nm) (words_to_send nm) a \<lparr>inp = X, outp = os, env = h\<rparr> =
              (Ret (0, claimed, a'), p) \<and> inp p = ascii done_line)
        \<and> pi_prog (fresh s Y) = (Ret (), q) \<and> inp q = [] \<and> env q = s')"

lemma agreement:
  assumes "connected h" "whole_name nm" "length name0 = 30"
    and "fat32_init s rd wr = Inr (r, s1)"
    and "dfs_init_config s1 b1 b2 = Some (Inr (cfg, s2))"
    and "id_for_dfs rd wr s2 cfg (name_buffer nm name0) (uint (a AND 0xff)) sec0 = Inr (i, s3)"
  shows "\<exists>claimed. boot_agrees nm a h (entry rd wr name0 b1 b2 sec0) s claimed
      (if i = - 1 then a + 1 else a) s3
    \<and> claimed AND 0xff = (if i = - 1 then a AND 0xff else of_int i AND 0xff)"
proof -
  note run = agreement_run[OF assms]
  have low: "le32 b b b b AND 0xff = ucast b" for b :: u8
  proof (rule bit_word_eqI)
    fix n assume n: "n < LENGTH(32)"
    have m: "(0xff :: u32) = mask 8" by (simp add: mask_eq_exp_minus_1)
    show "bit (le32 b b b b AND 0xff) n = bit (ucast b :: u32) n"
      unfolding m using n by (auto simp: le32_def bit_simps dest: bit_imp_le_length)
  qed
  have "ucast (id_byte i a) = (if i = - 1 then a AND 0xff else (of_int i :: u32) AND 0xff)"
  proof (rule bit_word_eqI)
    fix n assume n: "n < LENGTH(32)"
    have m: "(0xff :: u32) = mask 8" by (simp add: mask_eq_exp_minus_1)
    show "bit (ucast (id_byte i a) :: u32) n =
        bit (if i = - 1 then a AND 0xff else (of_int i :: u32) AND 0xff) n"
      unfolding m id_byte_def using n by (auto simp: bit_simps)
  qed
  then have claimed: "le32 (id_byte i a) (id_byte i a) (id_byte i a) (id_byte i a) AND 0xff =
      (if i = - 1 then a AND 0xff else of_int i AND 0xff)"
    by (simp add: low)
  show ?thesis
    unfolding boot_agrees_def
    by (intro exI conjI allI, rule run(1)[unfolded pi_sends_def], rule run(2), simp, rule run(3))
       (simp_all add: claimed)
qed

section \<open>A card with a configuration file\<close>

definition dfs_card :: "(u32 \<Rightarrow> bytes) \<Rightarrow> nat \<Rightarrow> u32 \<Rightarrow> bool" where
  "dfs_card D p cfg \<longleftrightarrow> single_volume D p \<and> layout_ok D p
     \<and> find_record FAT32_DFS_CFG_FILENAME (root_records D p) = Some cfg \<and> cfg \<noteq> - 1"

text \<open>The sectors the Pi touches while it mounts the card and reads or writes the configuration.\<close>

definition boot_lbas :: "(u32 \<Rightarrow> bytes) \<Rightarrow> nat \<Rightarrow> u32 \<Rightarrow> u32 set" where
  "boot_lbas D p cfg = insert (cluster_lba D p cfg) (mount_lbas D p \<union> data_lbas D p)"

lemma length_name_buffer: "whole_name nm \<Longrightarrow> length name0 = 30 \<Longrightarrow> length (name_buffer nm name0) = 30"
  by (simp add: name_buffer_def whole_name_def)

lemma str_of_name_buffer: "str_of (name_buffer nm name0) = str_of nm"
proof -
  have "takeWhile (\<lambda>c. \<not> is_term c) (nm @ 0xff # bs) = takeWhile (\<lambda>c. \<not> is_term c) nm" for bs
    by (induction nm) (simp_all add: is_term_def)
  then show ?thesis by (simp add: name_buffer_def str_of_def)
qed

lemma name_buffer_entry:
  assumes "whole_name nm" "length name0 = 30"
  shows "same_prefix e (take 30 (name_buffer nm name0)) = same_prefix e nm"
    and "other_entry sec (name_buffer nm name0) i = other_entry sec nm i"
  using assms length_name_buffer[OF assms]
  by (simp_all add: other_entry_def same_prefix_def str_of_name_buffer whole_name_def)

lemma boot_on_card:
  assumes "block_device rd wr view good invar" "invar d" "dfs_card (view d) p cfg"
    and "\<And>l. l \<in> boot_lbas (view d) p cfg \<Longrightarrow> good l"
    and "length b1 = 512" "connected h" "whole_name nm" "length name0 = 30"
  obtains s2 where "view (dev s2) = view d" "invar (dev s2)"
    "cluster_no_to_lba s2 cfg = cluster_lba (view d) p cfg"
    "\<And>sec0 i s3. id_for_dfs rd wr s2 cfg (name_buffer nm name0) (uint (a AND 0xff)) sec0 = Inr (i, s3)
      \<Longrightarrow> \<exists>claimed. boot_agrees nm a h (entry rd wr name0 b1 b2 sec0) (boot_fs r0 w0 m d) claimed
            (if i = - 1 then a + 1 else a) s3
          \<and> claimed AND 0xff = (if i = - 1 then a AND 0xff else of_int i AND 0xff)"
proof -
  have good: "l \<in> mount_lbas (view d) p \<union> data_lbas (view d) p \<Longrightarrow> good l" for l
    using assms(4) by (simp add: boot_lbas_def)
  have card: "single_volume (view d) p" "layout_ok (view d) p"
    "find_record FAT32_DFS_CFG_FILENAME (root_records (view d) p) = Some cfg" "cfg \<noteq> - 1"
    using assms(3) by (simp_all add: dfs_card_def)
  obtain s1 s2 where s: "fat32_init (boot_fs r0 w0 m d) rd wr = Inr (0, s1)"
    "dfs_init_config s1 b1 b2 = Some (Inr (cfg, s2))" "view (dev s2) = view d" "invar (dev s2)"
    "cluster_no_to_lba s2 cfg = cluster_lba (view d) p cfg"
    using mount_finds_config[OF assms(1,2) card(1,2) good card(3,4) assms(5)] by blast
  show thesis
    by (rule that[OF s(3-5)])
       (rule agreement[OF assms(6-8) s(1,2)])
qed

section \<open>The configuration is not part of the layout\<close>

text \<open>The sectors that say where everything is: boot records and root directory.\<close>

definition header_lbas :: "(u32 \<Rightarrow> bytes) \<Rightarrow> nat \<Rightarrow> u32 set" where
  "header_lbas D p =
     {0, lba_begin (partition_at D p)} \<union>
     {cluster_lba D p FAT32_ROOT_CLUSTER_NO + of_nat k | k. k < unat (vd_sectors_per_cluster (layout_at D p))}"

lemma volume_cong:
  assumes "D' 0 = D 0" "D' (lba_begin (partition_at D p)) = D (lba_begin (partition_at D p))"
  shows "partition_at D' = partition_at D" "volume_at D' p = volume_at D p" "layout_at D' p = layout_at D p"
    "cluster_lba D' p c = cluster_lba D p c" "table_sectors D' p = table_sectors D p"
    "mount_lbas D' p = mount_lbas D p" "data_lbas D' p = data_lbas D p"
    "single_volume D' p = single_volume D p" "layout_ok D' p = layout_ok D p"
proof -
  show p: "partition_at D' = partition_at D" using assms(1) by (intro ext) (simp add: partition_at_def)
  show v: "volume_at D' p = volume_at D p" using assms(2) by (simp add: volume_at_def p)
  show l: "layout_at D' p = layout_at D p" by (simp add: layout_at_def p v)
  show "cluster_lba D' p c = cluster_lba D p c" by (simp add: cluster_lba_def l)
  show t: "table_sectors D' p = table_sectors D p" by (simp add: table_sectors_def v)
  show "mount_lbas D' p = mount_lbas D p" "data_lbas D' p = data_lbas D p"
    "single_volume D' p = single_volume D p" "layout_ok D' p = layout_ok D p"
    by (simp_all add: mount_lbas_def data_lbas_def single_volume_def layout_ok_def p v l t)
qed

lemma layout_cong:
  assumes "\<And>l. l \<in> header_lbas D p \<Longrightarrow> D' l = D l"
  shows "dfs_card D' p cfg = dfs_card D p cfg" "cluster_lba D' p cfg = cluster_lba D p cfg"
    "boot_lbas D' p cfg = boot_lbas D p cfg" "header_lbas D' p = header_lbas D p"
    "root_records D' p = root_records D p"
proof -
  have "D' 0 = D 0" "D' (lba_begin (partition_at D p)) = D (lba_begin (partition_at D p))"
    using assms by (simp_all add: header_lbas_def)
  note v = volume_cong[of D' D, OF this]
  show "cluster_lba D' p cfg = cluster_lba D p cfg" by (rule v)
  have "D' (cluster_lba D p FAT32_ROOT_CLUSTER_NO + of_nat k) = D (cluster_lba D p FAT32_ROOT_CLUSTER_NO + of_nat k)"
    if "k < unat (vd_sectors_per_cluster (layout_at D p))" for k
    using that assms by (auto simp: header_lbas_def)
  then show r: "root_records D' p = root_records D p"
    unfolding root_records_def v by (intro arg_cong[where f = concat] map_cong refl) simp
  show "dfs_card D' p cfg = dfs_card D p cfg" by (simp add: dfs_card_def v r)
  show "boot_lbas D' p cfg = boot_lbas D p cfg" by (simp add: boot_lbas_def v)
  show "header_lbas D' p = header_lbas D p" by (simp add: header_lbas_def v)
qed

section \<open>The id on the card is the id of the Pi\<close>

lemma told_recorded_id:
  assumes "block_device rd wr view good invar" "invar d" "dfs_card (view d) p cfg"
    and "\<And>l. l \<in> boot_lbas (view d) p cfg \<Longrightarrow> good l"
    and "length b1 = 512" "length sec0 = 512" "connected h" "whole_name nm" "length name0 = 30"
    and "sec = view d (cluster_lba (view d) p cfg)"
    and "n < 16" "\<And>i. i < n \<Longrightarrow> other_entry sec nm i"
    and "dfs_id sec n ! 0 \<noteq> 0" "same_prefix (dfs_id sec n) nm"
  shows "\<exists>claimed s'. boot_agrees nm a h (entry rd wr name0 b1 b2 sec0) (boot_fs r0 w0 m d) claimed a s'
    \<and> claimed AND 0xff = ucast (entry_id sec n) AND 0xff \<and> view (dev s') = view d"
proof -
  obtain s2 where s2: "view (dev s2) = view d" "invar (dev s2)"
    "cluster_no_to_lba s2 cfg = cluster_lba (view d) p cfg"
    and agr: "\<And>sec0 i s3. id_for_dfs rd wr s2 cfg (name_buffer nm name0) (uint (a AND 0xff)) sec0 = Inr (i, s3)
      \<Longrightarrow> \<exists>claimed. boot_agrees nm a h (entry rd wr name0 b1 b2 sec0) (boot_fs r0 w0 m d) claimed
            (if i = - 1 then a + 1 else a) s3
          \<and> claimed AND 0xff = (if i = - 1 then a AND 0xff else of_int i AND 0xff)"
    using boot_on_card[OF assms(1-5,7-9)] by blast
  have good: "good (cluster_lba (view d) p cfg)" using assms(4) by (simp add: boot_lbas_def)
  obtain d' where d': "view d' = view (dev s2)" "length sec = 512"
    "id_for_dfs rd wr s2 cfg (name_buffer nm name0) (uint (a AND 0xff)) sec0 =
      (case config_scan [0..<num_entries] (name_buffer nm name0) (uint (a AND 0xff)) sec of
         Inl f \<Rightarrow> Inl f
       | Inr (Some i, sec') \<Rightarrow> Inr (i, s2\<lparr>dev := d'\<rparr>)
       | Inr (None, sec') \<Rightarrow> Inr (- 1, s2\<lparr>dev := snd (wr d' sec' (cluster_lba (view d) p cfg) 1)\<rparr>))"
    using block_device.id_for_dfs_read[OF assms(1) s2(2) s2(3)[symmetric] good assms(6), of sec]
      assms(10) s2(1) by auto
  have "config_scan [0..<num_entries] (name_buffer nm name0) (uint (a AND 0xff)) sec =
      Inr (Some (uint (entry_id sec n)), sec)"
    using length_name_buffer[OF assms(8,9)] name_buffer_entry[OF assms(8,9)]
    by (intro config_scan_known[OF d'(2) _ assms(11)]) (use assms(12-14) in simp_all)
  then have r: "id_for_dfs rd wr s2 cfg (name_buffer nm name0) (uint (a AND 0xff)) sec0 =
      Inr (uint (entry_id sec n), s2\<lparr>dev := d'\<rparr>)"
    using d'(3) by simp
  have "0 \<le> uint (entry_id sec n)" by (rule unsigned_greater_eq)
  then have "uint (entry_id sec n) \<noteq> - 1" by linarith
  then obtain claimed where "boot_agrees nm a h (entry rd wr name0 b1 b2 sec0) (boot_fs r0 w0 m d) claimed a
      (s2\<lparr>dev := d'\<rparr>)" "claimed AND 0xff = ucast (entry_id sec n) AND 0xff"
    using agr[OF r] by auto
  then show ?thesis using d'(1) s2(1) by (intro exI[of _ claimed] exI[of _ "s2\<lparr>dev := d'\<rparr>"]) simp
qed

text \<open>What recording an id leaves in the sector: entry \<open>n\<close> is the store's, with the id.\<close>

definition holds_id :: "bytes \<Rightarrow> bytes \<Rightarrow> nat \<Rightarrow> u32 \<Rightarrow> bool" where
  "holds_id sec nm n a \<longleftrightarrow> n < 16 \<and> dfs_id sec n ! 0 \<noteq> 0 \<and> same_prefix (dfs_id sec n) nm
     \<and> (\<forall>i < n. other_entry sec nm i) \<and> entry_id sec n = ucast (a AND 0xff)"

definition same_other_entries :: "nat \<Rightarrow> bytes \<Rightarrow> bytes \<Rightarrow> bool" where
  "same_other_entries n sec sec' \<longleftrightarrow>
     (\<forall>i < 16. i \<noteq> n \<longrightarrow> dfs_id sec' i = dfs_id sec i \<and> entry_id sec' i = entry_id sec i)"

lemma register_step:
  assumes "block_device rd wr view good invar" "invar (dev s)"
    and "lba = cluster_no_to_lba s cfg" "good lba" "sec = view (dev s) lba"
    and "length sec0 = 512" "whole_name nm" "length name0 = 30"
    and "n < 16" "\<And>i. i < n \<Longrightarrow> other_entry sec nm i" "dfs_id sec n ! 0 = 0" "str_of nm \<noteq> []"
  obtains s' sec' where "id_for_dfs rd wr s cfg (name_buffer nm name0) (uint (a AND 0xff)) sec0 = Inr (- 1, s')"
    "invar (dev s')" "view (dev s') = (view (dev s))(lba := sec')"
    "holds_id sec' nm n a" "same_other_entries n sec sec'"
proof -
  let ?name = "name_buffer nm name0" and ?v = "uint (a AND 0xff)"
  obtain d' where d': "invar d'" "view d' = view (dev s)" "length sec = 512"
    "id_for_dfs rd wr s cfg ?name ?v sec0 =
      (case config_scan [0..<num_entries] ?name ?v sec of
         Inl f \<Rightarrow> Inl f
       | Inr (Some i, sec') \<Rightarrow> Inr (i, s\<lparr>dev := d'\<rparr>)
       | Inr (None, sec') \<Rightarrow> Inr (- 1, s\<lparr>dev := snd (wr d' sec' lba 1)\<rparr>))"
    using block_device.id_for_dfs_read[OF assms(1-4,6,5)] by blast
  note len = length_name_buffer[OF assms(7,8)] and ne = name_buffer_entry[OF assms(7,8)]
  have v: "?v \<noteq> - 1" using unsigned_greater_eq[of "a AND 0xff", where ?'a = int] by linarith
  obtain e where e: "config_scan [0..<num_entries] ?name ?v sec = Inr (None, set_entry sec n e (of_int ?v))"
    "length e = 30" "str_of e = take 29 (str_of ?name)" "e ! 0 = (if str_of ?name = [] then 0 else ?name ! 0)"
    using config_scan_register[OF d'(3) _ assms(9) _ assms(11) v, of ?name] len ne(2) assms(10) by auto
  let ?sec = "set_entry sec n e (of_int ?v)"
  let ?s = "s\<lparr>dev := snd (wr d' ?sec lba 1)\<rparr>"
  note se = dfs_id_set_entry[OF d'(3) assms(9) _ e(2), of _ "of_int ?v"]
  have run: "id_for_dfs rd wr s cfg ?name ?v sec0 = Inr (- 1, ?s)" using d'(4) e(1) by simp
  have w: "view (dev ?s) = (view (dev s))(lba := ?sec)" "invar (dev ?s)"
    using block_device.wr_view[OF assms(1) d'(1) assms(4) se(3)[OF assms(9)]]
      block_device.wr_invar[OF assms(1) d'(1) assms(4) se(3)[OF assms(9)]] d'(2) by simp_all
  have sn: "str_of e = take 29 (str_of nm)" using e(3) by (simp add: str_of_name_buffer)
  have nm0: "nm \<noteq> []" "\<not> is_term (nm ! 0)"
    using assms(12) by (cases nm; auto simp: str_of_def split: if_splits)+
  have "e ! 0 = ?name ! 0" using e(4) assms(12) unfolding str_of_name_buffer by simp
  moreover have "?name ! 0 = nm ! 0" using nm0(1) by (simp add: name_buffer_def nth_append)
  ultimately have "e ! 0 = nm ! 0" by simp
  then have "dfs_id ?sec n ! 0 \<noteq> 0" using se(1)[OF assms(9)] nm0(2) by (simp add: is_term_def)
  moreover have "same_prefix (dfs_id ?sec n) nm"
    using se(1)[OF assms(9)] by (simp add: same_prefix_def sn take_is_prefix)
  moreover have "\<forall>i < n. other_entry ?sec nm i"
    using other_entry_set[OF d'(3) assms(9) _ e(2)] assms(10) by simp
  moreover have "entry_id ?sec n = ucast (a AND 0xff)" using se(2)[OF assms(9)] by simp
  ultimately have "holds_id ?sec nm n a" using assms(9) by (simp add: holds_id_def)
  moreover have "same_other_entries n sec ?sec" using se(1,2) by (simp add: same_other_entries_def)
  ultimately show thesis by (intro that[OF run w(2,1)])
qed

lemma registers_id:
  assumes "block_device rd wr view good invar" "invar d" "dfs_card (view d) p cfg"
    and "\<And>l. l \<in> boot_lbas (view d) p cfg \<Longrightarrow> good l"
    and "length b1 = 512" "length sec0 = 512" "connected h" "whole_name nm" "length name0 = 30"
    and "lba = cluster_lba (view d) p cfg" "sec = view d lba"
    and "n < 16" "\<And>i. i < n \<Longrightarrow> other_entry sec nm i"
    and "dfs_id sec n ! 0 = 0" "str_of nm \<noteq> []"
  obtains claimed s' sec' where
    "boot_agrees nm a h (entry rd wr name0 b1 b2 sec0) (boot_fs r0 w0 m d) claimed (a + 1) s'"
    "claimed AND 0xff = a AND 0xff" "invar (dev s')" "view (dev s') = (view d)(lba := sec')"
    "holds_id sec' nm n a" "same_other_entries n sec sec'"
proof -
  obtain s2 where s2: "view (dev s2) = view d" "invar (dev s2)"
    "cluster_no_to_lba s2 cfg = cluster_lba (view d) p cfg"
    and agr: "\<And>sec0 i s3. id_for_dfs rd wr s2 cfg (name_buffer nm name0) (uint (a AND 0xff)) sec0 = Inr (i, s3)
      \<Longrightarrow> \<exists>claimed. boot_agrees nm a h (entry rd wr name0 b1 b2 sec0) (boot_fs r0 w0 m d) claimed
            (if i = - 1 then a + 1 else a) s3
          \<and> claimed AND 0xff = (if i = - 1 then a AND 0xff else of_int i AND 0xff)"
    using boot_on_card[OF assms(1-5,7-9)] by blast
  have good: "good lba" using assms(4,10) by (simp add: boot_lbas_def)
  have lba: "lba = cluster_no_to_lba s2 cfg" and sec: "sec = view (dev s2) lba"
    using assms(10,11) s2(1,3) by simp_all
  obtain s' sec' where r: "id_for_dfs rd wr s2 cfg (name_buffer nm name0) (uint (a AND 0xff)) sec0 = Inr (- 1, s')"
    "invar (dev s')" "view (dev s') = (view (dev s2))(lba := sec')" "holds_id sec' nm n a"
    "same_other_entries n sec sec'"
    using register_step[OF assms(1) s2(2) lba good sec assms(6,8,9,12-15)] by metis
  obtain claimed where c: "boot_agrees nm a h (entry rd wr name0 b1 b2 sec0) (boot_fs r0 w0 m d) claimed
      (a + 1) s'" "claimed AND 0xff = a AND 0xff"
    using agr[OF r(1)] by auto
  show thesis by (rule that[OF c r(2) _ r(4,5)]) (simp add: r(3) s2(1))
qed

text \<open>
  C13: a Pi whose card records an id for the store tells the host that id. For a store name of
  whole words and a card with a configuration file, every run of the two programs, whatever the
  order in which the line delivers bytes, ends with both returned; the host has been told the low byte
  of the id in the first entry that agrees with the name, its next assignable id is unchanged, and
  so is the card.
\<close>

theorem dfs_boot_recorded_id:
  assumes "block_device rd wr view good invar" "invar d" "dfs_card (view d) p cfg"
    and "\<And>l. l \<in> boot_lbas (view d) p cfg \<Longrightarrow> good l"
    and "length b1 = 512" "length sec0 = 512" "connected h" "whole_name nm" "length name0 = 30"
    and "sec = view d (cluster_lba (view d) p cfg)"
    and "n < 16" "\<And>i. i < n \<Longrightarrow> other_entry sec nm i"
    and "dfs_id sec n ! 0 \<noteq> 0" "same_prefix (dfs_id sec n) nm"
  shows "\<exists>claimed s'. boot_agrees nm a h (entry rd wr name0 b1 b2 sec0) (boot_fs r0 w0 m d) claimed a s'
    \<and> claimed AND 0xff = ucast (entry_id sec n) AND 0xff \<and> view (dev s') = view d"
  by (rule told_recorded_id[OF assms])

text \<open>A card with the configuration file at cluster 3, whose sector has the entry of the store \<open>abcd\<close>.\<close>

definition store_dir :: bytes where
  "store_dir = ascii ''FS32-DFSCFG'' @ [0x20] @ replicate 14 0 @ [3] @ replicate 485 0"

definition store_config :: "bytes \<Rightarrow> bytes" where
  "store_config e = e @ replicate (512 - length e) 0"

definition store_card :: "bytes \<Rightarrow> u32 \<Rightarrow> bytes" where
  "store_card e l = (if l = 43 then store_dir else if l = 45 then store_config e else demo_card l)"

definition store_entry :: bytes where
  "store_entry = ascii ''abcd'' @ replicate 26 0 @ [7, 0]"

lemma store_dir_find:
  "find_record FAT32_DFS_CFG_FILENAME (sector_records store_dir @ rs) = Some 3"
proof -
  have u: "[0..<16] = 0 # [1..<16::nat]" by (simp add: upt_rec)
  have r: "rec_at store_dir 0 = decode_dir_record (ascii ''FS32-DFSCFG'' @ [0x20] @ replicate 14 0 @ [3] @ replicate 5 0)"
    by (simp add: rec_at_def store_dir_def chunk_def ascii_def)
  have "live_terminal (rec_at store_dir 0) = False"
    "name_matches FAT32_DFS_CFG_FILENAME (rec_at store_dir 0) = True"
    "first_cluster (rec_at store_dir 0) = 3"
    unfolding r by code_simp+
  then show ?thesis by (simp add: sector_records_def records_per_sector_def u)
qed

lemma store_card_layout:
  "partition_at (store_card e) = partition_at demo_card" "volume_at (store_card e) 0 = volume_at demo_card 0"
  "layout_at (store_card e) 0 = layout_at demo_card 0" "table_sectors (store_card e) 0 = 3"
  "cluster_lba (store_card e) 0 3 = 45"
proof -
  have "lba_begin (partition_at demo_card 0) \<noteq> 43" "lba_begin (partition_at demo_card 0) \<noteq> 45"
    by code_simp+
  then show p: "partition_at (store_card e) = partition_at demo_card"
    and v: "volume_at (store_card e) 0 = volume_at demo_card 0"
    by (simp_all add: fun_eq_iff partition_at_def volume_at_def store_card_def)
  then show l: "layout_at (store_card e) 0 = layout_at demo_card 0" by (simp add: layout_at_def)
  show "table_sectors (store_card e) 0 = 3" using demo_card_volume(2) by (simp add: table_sectors_def v)
  show "cluster_lba (store_card e) 0 3 = 45" by (simp add: cluster_lba_def l demo_card_volume)
qed

lemma store_card_dfs: "dfs_card (store_card e) 0 3"
proof -
  have "cluster_lba (store_card e) 0 FAT32_ROOT_CLUSTER_NO = 43"
    by (simp add: cluster_lba_def store_card_layout demo_card_volume FAT32_ROOT_CLUSTER_NO_def)
  then have "root_records (store_card e) 0 = sector_records store_dir @ sector_records (store_card e 44)"
    by (simp add: root_records_def store_card_layout demo_card_volume upt_rec) (simp add: store_card_def)
  then show ?thesis
    using demo_card_volume(1)
    by (simp add: dfs_card_def single_volume_def layout_ok_def store_card_layout demo_card_volume
        FAT32_ROOT_CLUSTER_NO_def store_dir_find SD_SECTOR_SIZE_def)
qed

lemma store_card_invar: "length e \<le> 512 \<Longrightarrow> ram_invar (store_card e)"
  using demo_card_invar by (simp add: ram_invar_def store_card_def store_dir_def store_config_def ascii_def)

lemma store_card_config: "store_card e 45 = store_config e"
  by (simp add: store_card_def)

lemma store_config_entry:
  "dfs_id (store_config store_entry) 0 = ascii ''abcd'' @ replicate 26 0"
  "entry_id (store_config store_entry) 0 = 7" "dfs_id (store_config []) 0 ! 0 = 0"
  by (simp_all add: dfs_id_def entry_id_def store_config_def store_entry_def chunk_def u16_at_def le16_def
      nth_append ascii_def)

lemma abcd: "whole_name (ascii ''abcd'')" "same_prefix (ascii ''abcd'' @ replicate 26 0) (ascii ''abcd'')"
  "str_of (ascii ''abcd'') \<noteq> []" "(ascii ''abcd'' @ replicate 26 0) ! 0 \<noteq> 0" "length store_entry \<le> 512"
proof -
  have l: "length (ascii ''abcd'') = 4" by (simp add: ascii_def)
  show "whole_name (ascii ''abcd'')" unfolding whole_name_def l by (simp add: ascii_def)
qed (simp_all add: ascii_def str_of_def is_term_def store_entry_def)

definition demo_host :: pi where
  "demo_host = \<lparr>pi_open = False, connected = True, shown = []\<rparr>"

theorem dfs_boot_recorded_id_witness:
  "\<exists>claimed s'. boot_agrees (ascii ''abcd'') 3 demo_host
      (entry ram_read ram_write (replicate 30 0) (replicate 512 0) [] (replicate 512 0))
      (boot_fs ram_read ram_write (\<lambda>_. 0) (store_card store_entry)) claimed 3 s'
    \<and> claimed AND 0xff = ucast (entry_id (store_card store_entry 45) 0) AND 0xff
    \<and> dev s' = store_card store_entry"
  by (rule dfs_boot_recorded_id [OF ram.block_device_axioms, where d = "store_card store_entry" and p = 0 and cfg = 3 and n = 0])
     (simp_all add: store_card_dfs store_card_invar store_card_layout store_card_config store_config_entry abcd
       demo_host_def)

text \<open>
  The id a Pi is given is its id from then on. If the card's configuration has no entry for the
  store yet and a free one, the first boot gives the Pi the host's next id, which the host then moves
  past; after that boot every other entry of the configuration is as it was, and a second boot of any
  device with that content, in whatever state memory is, with any host offering any id, tells that
  host the same id again.
\<close>

lemma low_byte_id: "(ucast (ucast (a AND 0xff) :: u16) :: u32) AND 0xff = a AND 0xff"
proof (rule bit_word_eqI)
  fix n assume n: "n < LENGTH(32)"
  have m: "(0xff :: u32) = mask 8" by (simp add: mask_eq_exp_minus_1)
  show "bit ((ucast (ucast (a AND 0xff) :: u16) :: u32) AND 0xff) n = bit (a AND 0xff) n"
    unfolding m using n by (auto simp: bit_simps)
qed

lemma told_again:
  assumes "block_device rd wr view good invar" "invar d" "dfs_card D p cfg"
    and "\<And>l. l \<in> boot_lbas D p cfg \<Longrightarrow> good l"
    and "lba = cluster_lba D p cfg" "lba \<notin> header_lbas D p" "view d = D(lba := sec)" "holds_id sec nm n a"
    and "length b1 = 512" "length sec0 = 512" "connected h" "whole_name nm" "length name0 = 30"
  shows "\<exists>claimed s. boot_agrees nm a' h (entry rd wr name0 b1 b2 sec0) (boot_fs r0 w0 m d) claimed a' s
    \<and> claimed AND 0xff = a AND 0xff"
proof -
  have same: "view d l = D l" if "l \<in> header_lbas D p" for l using that assms(6,7) by auto
  note lay = layout_cong(1-3)[where D = D and D' = "view d" and p = p and cfg = cfg, OF same]
  have card: "dfs_card (view d) p cfg" using assms(3) lay(1) by simp
  have good: "good l" if "l \<in> boot_lbas (view d) p cfg" for l using that assms(4) lay(3) by simp
  have sec: "sec = view d (cluster_lba (view d) p cfg)" using assms(5,7) lay(2) by simp
  have e: "n < 16" "\<And>i. i < n \<Longrightarrow> other_entry sec nm i" "dfs_id sec n ! 0 \<noteq> 0" "same_prefix (dfs_id sec n) nm"
    "entry_id sec n = ucast (a AND 0xff)"
    using assms(8) by (simp_all add: holds_id_def)
  show ?thesis
    using told_recorded_id[OF assms(1,2) card good assms(9-13) sec e(1-4), where a = a']
    unfolding e(5) low_byte_id by blast
qed

lemma id_survives_reboot:
  assumes "block_device rd wr view good invar" "invar d" "dfs_card (view d) p cfg"
    and "\<And>l. l \<in> boot_lbas (view d) p cfg \<Longrightarrow> good l"
    and "length b1 = 512" "length sec0 = 512" "connected h" "whole_name nm" "length name0 = 30"
    and "lba = cluster_lba (view d) p cfg" "sec = view d lba" "lba \<notin> header_lbas (view d) p"
    and "n < 16" "\<And>i. i < n \<Longrightarrow> other_entry sec nm i"
    and "dfs_id sec n ! 0 = 0" "str_of nm \<noteq> []"
  obtains claimed s' where
    "boot_agrees nm a h (entry rd wr name0 b1 b2 sec0) (boot_fs r0 w0 m d) claimed (a + 1) s'"
    "claimed AND 0xff = a AND 0xff" "invar (dev s')" "same_other_entries n sec (view (dev s') lba)"
    "\<And>d2 h2 a2 name0' b1' b2' sec0' r1 w1 m1. invar d2 \<Longrightarrow> view d2 = view (dev s') \<Longrightarrow> connected h2
      \<Longrightarrow> length b1' = 512 \<Longrightarrow> length sec0' = 512 \<Longrightarrow> length name0' = 30 \<Longrightarrow>
      \<exists>claimed2 s2. boot_agrees nm a2 h2 (entry rd wr name0' b1' b2' sec0') (boot_fs r1 w1 m1 d2)
          claimed2 a2 s2
        \<and> claimed2 AND 0xff = a AND 0xff"
proof -
  obtain claimed s' sec' where 1:
    "boot_agrees nm a h (entry rd wr name0 b1 b2 sec0) (boot_fs r0 w0 m d) claimed (a + 1) s'"
    "claimed AND 0xff = a AND 0xff" "invar (dev s')" "view (dev s') = (view d)(lba := sec')"
    "holds_id sec' nm n a" "same_other_entries n sec sec'"
    by (rule registers_id[OF assms(1-11,13-16)])
  show thesis
  proof (rule that[OF 1(1-3)])
    show "same_other_entries n sec (view (dev s') lba)" using 1(4,6) by simp
    show "\<exists>claimed2 s2. boot_agrees nm a2 h2 (entry rd wr name0' b1' b2' sec0') (boot_fs r1 w1 m1 d2)
        claimed2 a2 s2 \<and> claimed2 AND 0xff = a AND 0xff"
      if "invar d2" "view d2 = view (dev s')" "connected h2" "length b1' = 512" "length sec0' = 512"
        "length name0' = (30 :: nat)" for d2 and h2 :: pi and a2 and name0' b1' b2' sec0' :: bytes and r1 w1 m1
      using told_again[OF assms(1) that(1) assms(3,4,10,12) _ 1(5) that(4,5,3) assms(8) that(6)] that(2) 1(4)
      by simp
  qed
qed

end
