(* ===== verification/Boot_New.thy ===== *)
theory Boot_New
  imports Boot_Store
begin

text \<open>
  The first boot of a new card, one without a configuration file. \<open>dfs_init_config\<close> creates the file
  in the root directory, \<open>id_for_dfs\<close> finds its first entry free and records the offered id there, and
  the card has become one with a configuration file, on which \<open>Boot_Store\<close> rests.
\<close>

section \<open>Cards without a configuration file\<close>

text \<open>Entry \<open>j\<close> of the table, for the entries in its first sector.\<close>

definition table_word :: "(u32 \<Rightarrow> bytes) \<Rightarrow> nat \<Rightarrow> nat \<Rightarrow> u32" where
  "table_word D p j = u32_at (D (fat_begin_lba (layout_at D p))) (4 * j)"

text \<open>
  The clusters of the new file. Mounting fills the memory only for the first 128 entries of the table
  (and for every fourth group of 128 after them, with the wrong sectors), so they have to be among those.
\<close>

definition low_free :: "(u32 \<Rightarrow> bytes) \<Rightarrow> nat \<Rightarrow> nat list" where
  "low_free D p = filter (\<lambda>j. table_word D p j = 0) [2..<128]"

definition new_clusters :: "(u32 \<Rightarrow> bytes) \<Rightarrow> nat \<Rightarrow> u32 list" where
  "new_clusters D p = map of_nat (take 2 (low_free D p))"

definition new_card :: "(u32 \<Rightarrow> bytes) \<Rightarrow> nat \<Rightarrow> bool" where
  "new_card D p \<longleftrightarrow> single_volume D p \<and> layout_ok D p
     \<and> table_word D p 2 \<noteq> 0 \<and> 2 \<le> length (low_free D p)
     \<and> (\<exists>dr \<in> set (root_records D p). live_terminal dr)
     \<and> (\<forall>dr \<in> set (takeWhile (\<lambda>dr. \<not> live_terminal dr) (root_records D p)).
          \<not> name_matches FAT32_DFS_CFG_FILENAME dr)
     \<and> 0 \<notin> data_lbas D p \<and> lba_begin (partition_at D p) \<notin> data_lbas D p"

text \<open>All sectors a first boot writes: the first of the table, the root directory's, and the new file's.\<close>

definition new_writes :: "(u32 \<Rightarrow> bytes) \<Rightarrow> nat \<Rightarrow> u32 set" where
  "new_writes D p = insert (fat_begin_lba (layout_at D p))
     (cluster_lba D p ` set (new_clusters D p) \<union>
      (\<lambda>k. cluster_lba D p FAT32_ROOT_CLUSTER_NO + of_nat k) ` {..<unat (vd_sectors_per_cluster (layout_at D p))})"

section \<open>The table after mounting\<close>

lemma mirrored_word:
  assumes "mirrored view s 0" "cur_vol s = layout_at (view (dev s)) p" "j < 128"
  shows "fat_at s (of_nat j) = table_word (view (dev s)) p j"
proof -
  have "u32_at (mem_bytes s (of_nat (128 * 0)) 128) (4 * j) = mem s (of_nat j)"
    using assms(3) by (simp add: mem_bytes_def u32_at_bytes_of_words)
  moreover have "(ucast (of_nat j :: u32) :: widx) = of_nat j"
    using assms(3) by (simp add: word_unat_eq_iff unsigned_ucast_eq unsigned_of_nat take_bit_nat_eq_self)
  ultimately show ?thesis
    using assms(1,2) by (simp add: table_word_def mirrored_def fat_at_def)
qed

lemma unat_low: "j < 128 \<Longrightarrow> unat (of_nat j :: u32) = j"
  by (intro unat_of_nat_small) simp

text \<open>Two clusters taken first-fit are the first two of the low ones.\<close>

lemma two_least:
  fixes U F :: "'a :: linorder set"
  assumes "finite U" "card U = 2" "U \<subseteq> F" "\<And>e d. e \<in> U \<Longrightarrow> d \<in> F - U \<Longrightarrow> e \<le> d"
    and "x \<in> F" "y \<in> F" "x < y" "\<And>d. d \<in> F \<Longrightarrow> d \<noteq> x \<Longrightarrow> d \<noteq> y \<Longrightarrow> y < d"
  shows "U = {x, y}"
proof -
  have "u \<in> {x, y}" if u: "u \<in> U" for u
  proof (rule ccontr)
    assume n: "u \<notin> {x, y}"
    have "\<not> {x, y} \<subseteq> U"
    proof
      assume "{x, y} \<subseteq> U"
      then have "insert u {x, y} \<subseteq> U" using u by simp
      then have "card (insert u {x, y}) \<le> card U" using assms(1) by (rule card_mono[rotated])
      then show False using n assms(2,7) by simp
    qed
    then obtain v where v: "v \<in> {x, y}" "v \<in> F - U" using assms(5,6) by auto
    have "y < u" using assms(3,8) u n by blast
    moreover have "u \<le> v" using assms(4)[OF u v(2)] .
    ultimately show False using v(1) assms(7) by auto
  qed
  then have "U \<subseteq> {x, y}" by blast
  then show ?thesis using assms(2,7) by (intro card_seteq) auto
qed

lemma set_low_free: "j \<in> set (low_free D p) \<longleftrightarrow> 2 \<le> j \<and> j < 128 \<and> table_word D p j = 0"
  unfolding low_free_def set_filter set_upt by auto

lemma low_free_two:
  assumes "2 \<le> length (low_free D p)"
  obtains x y zs where "low_free D p = x # y # zs" "x < y" "2 \<le> x" "y < 128"
    "table_word D p x = 0" "table_word D p y = 0"
    "\<And>j. 2 \<le> j \<Longrightarrow> j < 128 \<Longrightarrow> table_word D p j = 0 \<Longrightarrow> j \<noteq> x \<Longrightarrow> j \<noteq> y \<Longrightarrow> y < j"
proof -
  obtain x y zs where l: "low_free D p = x # y # zs"
    using assms by (metis Suc_le_length_iff numeral_2_eq_2)
  have "sorted_wrt (<) (low_free D p)" 
    unfolding low_free_def by (intro sorted_wrt_filter sorted_wrt_upt)
  then have lt: "x < y" "\<And>z. z \<in> set zs \<Longrightarrow> y < z" by (simp_all add: l)
  note mem = set_low_free[of _ D p]
  have xy: "2 \<le> x" "y < 128" "table_word D p x = 0" "table_word D p y = 0"
    using mem[of x] mem[of y] by (simp_all add: l)
  have "y < j" if "2 \<le> j" "j < 128" "table_word D p j = 0" "j \<noteq> x" "j \<noteq> y" for j
    using that lt(2) mem[of j] by (simp add: l)
  then show thesis by (rule that[OF l lt(1) xy])
qed

lemma new_clusters_two:
  assumes "2 \<le> length (low_free D p)"
  obtains x y where "new_clusters D p = [of_nat x, of_nat y]" "x < y" "y < 128"
    "hd (new_clusters D p) = of_nat x"
proof -
  obtain x y zs where l: "low_free D p = x # y # zs" "x < y" "y < 128"
    using low_free_two[OF assms] by metis
  then have "new_clusters D p = [of_nat x, of_nat y]" by (simp add: new_clusters_def numeral_2_eq_2)
  with l show thesis by (intro that) simp_all
qed

lemma pair_list:
  assumes "set [x, y] = set (x # zs)" "x \<noteq> y" "distinct (x # zs)"
  shows "zs = [y]"
proof -
  have "set zs = set (x # zs) - {x}" using assms(3) by simp
  then have z: "set zs = {y}" unfolding assms(1)[symmetric] using assms(2) by auto
  have "card (set zs) = length zs" using assms(3) by (simp add: distinct_card)
  then have "length zs = 1" by (simp add: z)
  then obtain z where "zs = [z]" by (auto simp: length_Suc_conv)
  then show ?thesis using z by simp
qed

lemma new_clusters_taken:
  assumes "\<And>j. 2 \<le> j \<Longrightarrow> j < 128 \<Longrightarrow> fat_at s (of_nat j) = table_word D p j"
    and "unat (FAT_end s) = 128 * n" "0 < n" "2 \<le> length (low_free D p)"
  shows "2 \<le> card (free_clusters s)"
    and "finite U \<Longrightarrow> card U = 2 \<Longrightarrow> U \<subseteq> free_clusters s \<Longrightarrow> (\<And>e d. e \<in> U \<Longrightarrow> d \<in> free_clusters s - U \<Longrightarrow> e \<le> d)
      \<Longrightarrow> U = set (new_clusters D p)"
    and "(\<And>d. d \<in> free_clusters s \<Longrightarrow> a \<le> d) \<Longrightarrow> a \<in> free_clusters s \<Longrightarrow> a = hd (new_clusters D p)"
proof -
  obtain x y zs where l: "low_free D p = x # y # zs" "x < y" "2 \<le> x" "y < 128"
    "table_word D p x = 0" "table_word D p y = 0"
    "\<And>j. 2 \<le> j \<Longrightarrow> j < 128 \<Longrightarrow> table_word D p j = 0 \<Longrightarrow> j \<noteq> x \<Longrightarrow> j \<noteq> y \<Longrightarrow> y < j"
    using low_free_two[OF assms(4)] by metis
  let ?x = "of_nat x :: u32" and ?y = "of_nat y :: u32"
  have u: "unat ?x = x" "unat ?y = y" using l(2,4) by (simp_all add: unat_low)
  have free: "?x \<in> free_clusters s" "?y \<in> free_clusters s"
    using l(2-6) u assms(1)[of x] assms(1)[of y] assms(2,3)
    by (auto simp: free_clusters_def word_le_nat_alt)
  have xy: "?x < ?y" using l(2) u by (simp add: word_less_nat_alt)
  have above: "?y < d" if d: "d \<in> free_clusters s" "d \<noteq> ?x" "d \<noteq> ?y" for d
  proof (cases "unat d < 128")
    case True
    have dn: "of_nat (unat d) = d" by simp
    have ud: "2 \<le> unat d" using d(1) by (simp add: free_clusters_def word_le_nat_alt)
    have "table_word D p (unat d) = 0"
      using assms(1)[OF ud True] d(1) unfolding dn by (simp add: free_clusters_def)
    moreover have "unat d \<noteq> x" "unat d \<noteq> y" using d(2,3) u by auto
    ultimately have "y < unat d" using l(7)[OF ud True] by blast
    then show ?thesis using u by (simp add: word_less_nat_alt)
  next
    case False
    then show ?thesis using l(4) u by (simp add: word_less_nat_alt)
  qed
  have "card {?x, ?y} \<le> card (free_clusters s)" using free by (intro card_mono) auto
  then show "2 \<le> card (free_clusters s)" using xy by simp
  have nc: "new_clusters D p = [?x, ?y]" by (simp add: new_clusters_def l(1) numeral_2_eq_2)
  show "U = set (new_clusters D p)"
    if "finite U" "card U = 2" "U \<subseteq> free_clusters s" "\<And>e d. e \<in> U \<Longrightarrow> d \<in> free_clusters s - U \<Longrightarrow> e \<le> d"
    using two_least[OF that free xy above] nc by simp
  show "a = hd (new_clusters D p)" if "\<And>d. d \<in> free_clusters s \<Longrightarrow> a \<le> d" "a \<in> free_clusters s"
    using that(1)[OF free(1)] above[OF that(2)] xy nc by fastforce
qed

section \<open>Room in the root directory\<close>

lemma takeWhile_concat:
  assumes "\<exists>x \<in> set (concat xss). P x"
  obtains k i where "k < length xss" "i < length (xss ! k)" "P (xss ! k ! i)"
    "takeWhile (\<lambda>x. \<not> P x) (concat xss) = concat (take k xss) @ take i (xss ! k)"
  using assms
proof (induction xss arbitrary: thesis)
  case Nil
  then show ?case by simp
next
  case (Cons xs xss)
  let ?i = "length (takeWhile (\<lambda>x. \<not> P x) xs)"
  show ?case
  proof (cases "\<exists>x \<in> set xs. P x")
    case True
    then have "?i < length xs"
      by (metis length_takeWhile_le linorder_neqE_nat not_less takeWhile_eq_all_conv takeWhile_eq_take take_all_iff
          order_refl)
    moreover from this have "P (xs ! ?i)" using nth_length_takeWhile by blast
    moreover have "takeWhile (\<lambda>x. \<not> P x) (xs @ concat xss) = take ?i xs"
      using True by (metis takeWhile_append1 takeWhile_eq_take)
    ultimately show ?thesis by (intro Cons.prems(1)[of 0 ?i]) simp_all
  next
    case False
    then have "\<exists>x \<in> set (concat xss). P x" using Cons.prems(2) by auto
    then obtain k i where "k < length xss" "i < length (xss ! k)" "P (xss ! k ! i)"
      "takeWhile (\<lambda>x. \<not> P x) (concat xss) = concat (take k xss) @ take i (xss ! k)"
      using Cons.IH by metis
    then show ?thesis using False by (intro Cons.prems(1)[of "Suc k" i]) simp_all
  qed
qed

lemma new_card_slot:
  assumes "cur_vol s = layout_at (view (dev s)) p" "in_table s FAT32_ROOT_CLUSTER_NO"
    and "FAT32_ROOT_CLUSTER_NO \<notin> free_clusters s"
    and "\<exists>dr \<in> set (root_records (view (dev s)) p). live_terminal dr"
  obtains k i where "dir_slot view s [] FAT32_ROOT_CLUSTER_NO k i"
    "records_before view s [] FAT32_ROOT_CLUSTER_NO k i =
      takeWhile (\<lambda>dr. \<not> live_terminal dr) (root_records (view (dev s)) p)"
proof -
  let ?f = "\<lambda>k. sector_records (dir_sector view s FAT32_ROOT_CLUSTER_NO k)"
  have rr: "root_records (view (dev s)) p = concat (map ?f [0..<spc s])"
    using assms(1) by (simp add: root_records_def dir_sector_def spc_def mounted_lba[OF assms(1)])
  obtain k i where ki: "k < length (map ?f [0..<spc s])" "i < length (map ?f [0..<spc s] ! k)"
    "live_terminal (map ?f [0..<spc s] ! k ! i)"
    "takeWhile (\<lambda>dr. \<not> live_terminal dr) (concat (map ?f [0..<spc s])) =
      concat (take k (map ?f [0..<spc s])) @ take i (map ?f [0..<spc s] ! k)"
    by (rule takeWhile_concat[OF assms(4)[unfolded rr]])
  have k: "k < spc s" using ki(1) by simp
  have i: "i < 16" using ki(2) k by (simp add: sector_records_def records_per_sector_def)
  have rec: "live_terminal (rec_at (dir_sector view s FAT32_ROOT_CLUSTER_NO k) i)"
    using ki(3) k i by (simp add: sector_records_def records_per_sector_def)
  have before: "records_before view s [] FAT32_ROOT_CLUSTER_NO k i =
      takeWhile (\<lambda>dr. \<not> live_terminal dr) (concat (map ?f [0..<spc s]))"
    unfolding ki(4) using k i
    by (simp add: records_before_def dir_records_def cluster_records_def take_map
        sector_records_def records_per_sector_def)
  have "dir_slot view s [] FAT32_ROOT_CLUSTER_NO k i"
    using assms(2,3) k i rec unfolding dir_slot_def before by (auto dest: set_takeWhileD)
  then show thesis using before rr by (intro that) simp_all
qed

section \<open>Creating the configuration file\<close>

text \<open>The card with its new file: no file is lost, and nothing outside of \<open>new_writes\<close> has changed.\<close>

definition config_added :: "(u32 \<Rightarrow> bytes) \<Rightarrow> nat \<Rightarrow> (u32 \<Rightarrow> bytes) \<Rightarrow> bool" where
  "config_added D p D' \<longleftrightarrow> dfs_card D' p (hd (new_clusters D p))
     \<and> (\<forall>lba. lba \<notin> new_writes D p \<longrightarrow> D' lba = D lba)
     \<and> chain (\<lambda>c. CLUSTER_NO (table_word D' p (unat c))) (new_clusters D p)
     \<and> (\<forall>j. 2 \<le> j \<and> j < 128 \<and> of_nat j \<notin> set (new_clusters D p) \<longrightarrow> table_word D' p j = table_word D p j)
     \<and> (\<forall>fn r. find_record fn (root_records D p) = Some r \<and> r \<noteq> - 1
          \<longrightarrow> find_record fn (root_records D' p) = Some r)"

lemma find_record_before:
  assumes "find_record fn rs = Some r" "r \<noteq> - 1" "dr \<in> set rs" "live_terminal dr"
  shows "find_record fn (takeWhile (\<lambda>dr. \<not> live_terminal dr) rs) = Some r"
  using assms by (induction rs) (auto split: if_splits)

lemma new_writes_volume:
  assumes "geometry_ok s" "cur_vol s = layout_at D p" "\<And>c. c \<in> set (new_clusters D p) \<Longrightarrow> in_table s c"
    and "in_table s FAT32_ROOT_CLUSTER_NO" "0 < fat_sectors s"
  shows "new_writes D p \<subseteq> volume_lbas s"
proof -
  have k0: "0 < spc s" using assms(1) by (simp add: geometry_ok_def)
  have "fat_begin_lba (layout_at D p) \<in> volume_lbas s"
    using fat_lba(2)[OF assms(1,5)] assms(2) by simp
  moreover have "cluster_lba D p c \<in> volume_lbas s" if "c \<in> set (new_clusters D p)" for c
    using lba_data_area(2)[OF assms(1) assms(3)[OF that] k0] mounted_lba[OF assms(2)] by simp
  moreover have "cluster_lba D p FAT32_ROOT_CLUSTER_NO + of_nat k \<in> volume_lbas s"
    if "k < unat (vd_sectors_per_cluster (layout_at D p))" for k
    using lba_data_area(2)[OF assms(1,4), of k] that mounted_lba[OF assms(2)] assms(2) by (simp add: spc_def)
  ultimately show ?thesis unfolding new_writes_def by blast
qed

lemma cluster_writes_new:
  assumes "cur_vol s = layout_at D p"
  shows "cluster_writes s (set (new_clusters D p)) \<union> cluster_sectors s FAT32_ROOT_CLUSTER_NO \<subseteq> new_writes D p"
proof -
  have "unat c div 128 = 0" if "c \<in> set (new_clusters D p)" for c
  proof -
    have "c \<in> of_nat ` set (low_free D p)" using that by (auto simp: new_clusters_def dest: in_set_takeD)
    then show ?thesis by (auto simp: set_low_free unat_low)
  qed
  then show ?thesis
    using assms by (auto simp: cluster_writes_def cluster_sectors_def new_writes_def spc_def mounted_lba[OF assms])
qed

text \<open>Mounting, then creating the file.\<close>

lemma new_mount:
  assumes "block_device rd wr view good invar" "invar d" "new_card (view d) p"
    and "\<And>l. l \<in> mount_lbas (view d) p \<union> data_lbas (view d) p \<Longrightarrow> good l"
    and "length b1 = 512" "length b2 = 512"
  obtains s1 s2 k i where "fat32_init (boot_fs r0 w0 m d) rd wr = Inr (0, s1)"
    "dfs_init_config s1 b1 b2 = Some (Inr (hd (new_clusters (view d) p), s2))"
    "attached rd wr invar good s1" "attached rd wr invar good s2" "mirrored view s1 0" "view (dev s1) = view d"
    "cur_vol s1 = layout_at (view d) p" "unat (FAT_end s1) = 128 * table_sectors (view d) p"
    "dir_slot view s1 [] FAT32_ROOT_CLUSTER_NO k i"
    "records_before view s1 [] FAT32_ROOT_CLUSTER_NO k i =
      takeWhile (\<lambda>dr. \<not> live_terminal dr) (root_records (view d) p)"
    "file_inserted view s1 [] FAT32_ROOT_CLUSTER_NO k i FAT32_DFS_CFG_FILENAME (hd (new_clusters (view d) p)) s2"
    "file_fresh view s1 FAT32_ROOT_CLUSTER_NO 2 (hd (new_clusters (view d) p)) s2"
    "free_clusters s1 - free_clusters s2 = set (new_clusters (view d) p)"
proof -
  let ?D = "view d"
  note nc = assms(3)[unfolded new_card_def]
  have sv: "single_volume ?D p" and lo: "layout_ok ?D p" and low: "2 \<le> length (low_free ?D p)" using nc by blast+
  obtain s1 where s1: "fat32_init (boot_fs r0 w0 m d) rd wr = Inr (0, s1)" "attached rd wr invar good s1"
    "mirrored view s1 0" "view (dev s1) = ?D" "cur_vol s1 = layout_at ?D p"
    "unat (FAT_end s1) = 128 * table_sectors ?D p"
    using init_attached[OF assms(1,2) sv lo assms(4), of r0 w0 m] by blast
  have n: "0 < table_sectors ?D p" using lo by (simp add: layout_ok_def Let_def)
  have words: "fat_at s1 (of_nat j) = table_word ?D p j" if "j < 128" for j
    using mirrored_word[OF s1(3) _ that, of p] s1(4,5) by simp
  have root: "in_table s1 FAT32_ROOT_CLUSTER_NO" using s1(6) n by (simp add: in_table_def FAT32_ROOT_CLUSTER_NO_def)
  have "fat_at s1 FAT32_ROOT_CLUSTER_NO \<noteq> 0"
    using words[of 2] nc by (simp add: FAT32_ROOT_CLUSTER_NO_def)
  then have nf: "FAT32_ROOT_CLUSTER_NO \<notin> free_clusters s1" by (simp add: free_clusters_def)
  have cv: "cur_vol s1 = layout_at (view (dev s1)) p" using s1(4,5) by simp
  have ex: "\<exists>dr \<in> set (root_records (view (dev s1)) p). live_terminal dr" using nc s1(4) by simp
  obtain k i where slot: "dir_slot view s1 [] FAT32_ROOT_CLUSTER_NO k i"
    "records_before view s1 [] FAT32_ROOT_CLUSTER_NO k i =
      takeWhile (\<lambda>dr. \<not> live_terminal dr) (root_records ?D p)"
    using new_card_slot[where view = view and p = p, OF cv root nf ex] unfolding s1(4) by blast
  note taken = new_clusters_taken[OF words s1(6) n low]
  have names: "\<not> name_matches FAT32_DFS_CFG_FILENAME dr"
    if "dr \<in> set (records_before view s1 [] FAT32_ROOT_CLUSTER_NO k i)" for dr
    using that nc unfolding slot(2) by blast
  obtain a s2 where r: "dfs_init_config s1 b1 b2 = Some (Inr (a, s2))" "attached rd wr invar good s2"
    "file_inserted view s1 [] FAT32_ROOT_CLUSTER_NO k i FAT32_DFS_CFG_FILENAME a s2"
    "file_fresh view s1 FAT32_ROOT_CLUSTER_NO 2 a s2" "a \<in> free_clusters s1"
    using config_created[OF assms(1) s1(2) slot(1) _ names assms(5,6)] taken(1) by metis
  note ff = r(4)[unfolded file_fresh_def Let_def]
  have a: "a = hd (new_clusters ?D p)" using ff r(5) by (intro taken(3)) blast+
  have U: "free_clusters s1 - free_clusters s2 = set (new_clusters ?D p)"
    by (rule taken(2)) (use ff in auto)
  show thesis
    by (rule that[OF s1(1) r(1)[unfolded a] s1(2) r(2) s1(3-6) slot r(3,4)[unfolded a] U])
qed

lemma new_config:
  assumes "block_device rd wr view good invar" "invar d" "new_card (view d) p"
    and "\<And>l. l \<in> mount_lbas (view d) p \<union> data_lbas (view d) p \<Longrightarrow> good l"
    and "length b1 = 512" "length b2 = 512" "cfg = hd (new_clusters (view d) p)"
  obtains s1 s2 where "fat32_init (boot_fs r0 w0 m d) rd wr = Inr (0, s1)"
    "dfs_init_config s1 b1 b2 = Some (Inr (cfg, s2))" "invar (dev s2)"
    "config_added (view d) p (view (dev s2))" "cluster_no_to_lba s2 cfg = cluster_lba (view d) p cfg"
    "view (dev s2) (cluster_lba (view d) p cfg) = blank_sector"
    "view (dev s2) 0 = view d 0"
    "view (dev s2) (lba_begin (partition_at (view d) p)) = view d (lba_begin (partition_at (view d) p))"
    "cluster_lba (view d) p cfg \<in> data_lbas (view d) p" "cluster_lba (view d) p cfg \<in> new_writes (view d) p"
    "cluster_lba (view d) p cfg \<notin> insert (fat_begin_lba (layout_at (view d) p)) (header_lbas (view d) p)"
proof -
  let ?D = "view d" and ?root = FAT32_ROOT_CLUSTER_NO and ?fn = FAT32_DFS_CFG_FILENAME
  note nc = assms(3)[unfolded new_card_def]
  obtain s1 s2 k i where r: "fat32_init (boot_fs r0 w0 m d) rd wr = Inr (0, s1)"
    "dfs_init_config s1 b1 b2 = Some (Inr (cfg, s2))"
    and at: "attached rd wr invar good s1" "attached rd wr invar good s2"
    and s1: "mirrored view s1 0" "view (dev s1) = ?D" "cur_vol s1 = layout_at ?D p"
      "unat (FAT_end s1) = 128 * table_sectors ?D p"
    and slot: "dir_slot view s1 [] ?root k i" "records_before view s1 [] ?root k i =
      takeWhile (\<lambda>dr. \<not> live_terminal dr) (root_records ?D p)"
    and ins: "file_inserted view s1 [] ?root k i ?fn cfg s2" and fresh: "file_fresh view s1 ?root 2 cfg s2"
    and U: "free_clusters s1 - free_clusters s2 = set (new_clusters ?D p)"
    unfolding assms(7) by (rule new_mount[OF assms(1-6), of r0 w0 m])
  note g = attached_geometry[OF at(1)] and ff = fresh[unfolded file_fresh_def Let_def U]
  have st: "statics s2 = statics s1" using ins by (simp add: file_inserted_def)
  note ml = mounted_lba[OF s1(3)]
  have root: "in_table s1 ?root" "?root \<notin> free_clusters s1" using slot(1) by (auto simp: dir_slot_def)
  have new: "c \<in> free_clusters s1" "in_table s1 c" if "c \<in> set (new_clusters ?D p)" for c
    using that U free_in_table by blast+
  have n: "0 < table_sectors ?D p" using nc by (simp add: layout_ok_def Let_def)
  have fs: "fat_sectors s1 = table_sectors ?D p" by (simp add: fat_sectors_def s1(4))
  have vl: "volume_lbas s1 = data_lbas ?D p"
    using s1(3,4) by (simp add: volume_lbas_def data_lbas_def Let_def spc_def)
  have nw: "new_writes ?D p \<subseteq> data_lbas ?D p"
    using new_writes_volume[OF g s1(3) new(2) root(1)] n fs vl by simp
  have kept: "view (dev s2) lba = ?D lba" if "lba \<notin> new_writes ?D p" for lba
    using ff that cluster_writes_new[OF s1(3)] s1(2) unfolding kept_def by (metis subsetD)
  have hd: "view (dev s2) 0 = ?D 0"
    "view (dev s2) (lba_begin (partition_at ?D p)) = ?D (lba_begin (partition_at ?D p))"
    using nc nw by (auto intro!: kept)
  note vc = volume_cong[of "view (dev s2)" ?D, OF hd]
  have cv: "cur_vol s2 = layout_at (view (dev s2)) p" using statics_eqD(8)[OF st] s1(3) vc(3) by simp
  have k0: "0 < spc s1" using g by (simp add: geometry_ok_def)
  have cfg: "cfg \<in> set (new_clusters ?D p)" using ff by blast
  have lba: "cluster_no_to_lba s2 cfg = cluster_lba ?D p cfg" using ml geometry_statics(5)[OF st] by simp
  have blank: "view (dev s2) (cluster_lba ?D p cfg) = blank_sector"
    using ff lba by (simp add: dir_sector_def)
  have wr: "cluster_lba ?D p cfg \<in> new_writes ?D p" using cfg by (auto simp: new_writes_def)
  then have data: "cluster_lba ?D p cfg \<in> data_lbas ?D p" using nw by blast
  have "cluster_lba ?D p cfg \<noteq> cluster_lba ?D p ?root + of_nat k"
    if "k < unat (vd_sectors_per_cluster (layout_at ?D p))" for k
    using lba_inj[OF g new(2)[OF cfg] root(1) k0, of k] that s1(3) ml new(1)[OF cfg] root(2)
    by (auto simp: spc_def)
  moreover have "cluster_lba ?D p cfg \<noteq> fat_begin_lba (layout_at ?D p)"
    using data_lba_not_fat[OF g _ new(2)[OF cfg] k0, of 0] fs n s1(3) ml by simp
  ultimately have out: "cluster_lba ?D p cfg \<notin> insert (fat_begin_lba (layout_at ?D p)) (header_lbas ?D p)"
    using data nc by (auto simp: header_lbas_def)
  obtain rest where recs: "root_records (view (dev s2)) p = takeWhile (\<lambda>dr. \<not> live_terminal dr) (root_records ?D p)
      @ file_record (rec_at (dir_sector view s1 ?root k) i) ?fn cfg # rest"
    using file_inserted_walk(3)[OF slot(1) ins] mounted_records[where view = view, OF cv refl] slot(2) by auto
  have "find_record ?fn (root_records (view (dev s2)) p) = Some cfg"
    using config_find[OF slot(1), of cfg] nc unfolding recs slot(2)
    by (simp add: find_record_append split: option.splits if_splits)
  moreover have "cfg \<noteq> - 1" using in_tableD(5)[OF attached_table[OF at(1)] new(2)[OF cfg]] .
  ultimately have card: "dfs_card (view (dev s2)) p cfg" using nc vc by (simp add: dfs_card_def)
  have m2: "mirrored view s2 0" using ff s1(1) n fs by simp
  have chain: "chain (\<lambda>c. CLUSTER_NO (table_word (view (dev s2)) p (unat c))) (new_clusters ?D p)"
  proof -
    obtain x y where xy: "new_clusters ?D p = [of_nat x, of_nat y]" "x < y" "y < 128" "cfg = of_nat x"
      using new_clusters_two[of ?D p] nc assms(7) by metis
    obtain cs where cs: "set (new_clusters ?D p) = set (cfg # cs)" "distinct (cfg # cs)"
      "chain (next_of s2) (cfg # cs)"
      using ff by blast
    have u: "unat (of_nat x :: u32) = x" "unat (of_nat y :: u32) = y" using xy(2,3) by (simp_all add: unat_low)
    then have "(of_nat x :: u32) \<noteq> of_nat y" using xy(2) by (auto dest: arg_cong[where f = unat])
    then have ch: "cfg # cs = new_clusters ?D p"
      using cs(1,2) pair_list[of cfg "of_nat y" cs] unfolding xy(1,4) by metis
    have "next_of s2 c = CLUSTER_NO (table_word (view (dev s2)) p (unat c))" if "c \<in> set (new_clusters ?D p)" for c
      using mirrored_word[where view = view, OF m2 cv, of "unat c"] that u xy(2,3) unfolding xy(1)
      by (auto simp: next_of_def)
    then show ?thesis using cs(3) chain_cong unfolding ch by metis
  qed
  have words: "table_word (view (dev s2)) p j = table_word ?D p j"
    if "2 \<le> j" "j < 128" "of_nat j \<notin> set (new_clusters ?D p)" for j
  proof -
    have "in_table s1 (of_nat j)" using that(1,2) n s1(4) by (simp add: in_table_def unat_low word_le_nat_alt)
    then have "fat_at s2 (of_nat j) = fat_at s1 (of_nat j)" using ff that(3) by blast
    then show ?thesis
      using mirrored_word[where view = view, OF m2 cv that(2)] mirrored_word[OF s1(1) _ that(2), of p] s1(2,3) by simp
  qed
  have old: "find_record fn (root_records (view (dev s2)) p) = Some r"
    if "find_record fn (root_records ?D p) = Some r" "r \<noteq> - 1" for fn r
  proof -
    obtain dr where "dr \<in> set (root_records ?D p)" "live_terminal dr" using nc by blast
    then show ?thesis using find_record_before[OF that] by (simp add: recs find_record_append)
  qed
  have "config_added ?D p (view (dev s2))"
    using card kept words old chain assms(7) by (simp add: config_added_def)
  moreover have "invar (dev s2)" using at(2) by (simp add: attached_def)
  ultimately show thesis by (intro that[OF r _ _ lba blank hd data wr out])
qed

section \<open>The first boot\<close>

lemma config_added_update:
  assumes "config_added D p D'" "lba \<in> new_writes D p"
    and "lba \<notin> insert (fat_begin_lba (layout_at D p)) (header_lbas D p)"
    and "D' 0 = D 0" "D' (lba_begin (partition_at D p)) = D (lba_begin (partition_at D p))"
  shows "config_added D p (D'(lba := sec))"
proof -
  note vc = volume_cong[of D' D, OF assms(4,5)]
  have h: "header_lbas D' p = header_lbas D p" by (simp add: header_lbas_def vc)
  have same: "(D'(lba := sec)) l = D' l" if "l \<in> header_lbas D' p" for l using that assms(3) h by auto
  note lc = layout_cong[of D' p "D'(lba := sec)", OF same]
  have "0 \<in> header_lbas D p" "lba_begin (partition_at D p) \<in> header_lbas D p" by (simp_all add: header_lbas_def)
  then have "(D'(lba := sec)) 0 = D 0"
    "(D'(lba := sec)) (lba_begin (partition_at D p)) = D (lba_begin (partition_at D p))"
    using assms(3-5) by auto
  note vu = volume_cong[of "D'(lba := sec)" D, OF this]
  have "table_word (D'(lba := sec)) p j = table_word D' p j" for j
    using assms(3) by (auto simp: table_word_def vu vc)
  then show ?thesis
    using assms(1,2) lc(1,5) by (simp add: config_added_def)
qed

lemma new_card_boots:
  assumes "block_device rd wr view good invar" "invar d" "new_card (view d) p"
    and "\<And>l. l \<in> mount_lbas (view d) p \<union> data_lbas (view d) p \<Longrightarrow> good l"
    and "length b1 = 512" "length b2 = 512" "length sec0 = 512"
    and "connected h" "whole_name nm" "length name0 = 30" "str_of nm \<noteq> []"
    and "lba = cluster_lba (view d) p (hd (new_clusters (view d) p))"
  obtains claimed s' where
    "boot_agrees nm a h (entry rd wr name0 b1 b2 sec0) (boot_fs r0 w0 m d) claimed (a + 1) s'"
    "claimed AND 0xff = a AND 0xff" "invar (dev s')"
    "config_added (view d) p (view (dev s'))" "holds_id (view (dev s') lba) nm 0 a"
    "\<And>d2 h2 a2 name0' b1' b2' sec0' r1 w1 m1. invar d2 \<Longrightarrow> view d2 = view (dev s') \<Longrightarrow> connected h2
      \<Longrightarrow> length b1' = 512 \<Longrightarrow> length sec0' = 512 \<Longrightarrow> length name0' = 30 \<Longrightarrow>
      \<exists>claimed2 s2. boot_agrees nm a2 h2 (entry rd wr name0' b1' b2' sec0') (boot_fs r1 w1 m1 d2)
          claimed2 a2 s2
        \<and> claimed2 AND 0xff = a AND 0xff"
proof -
  let ?D = "view d" and ?cfg = "hd (new_clusters (view d) p)"
  obtain s1 s2 where r: "fat32_init (boot_fs r0 w0 m d) rd wr = Inr (0, s1)"
    "dfs_init_config s1 b1 b2 = Some (Inr (?cfg, s2))"
    and inv: "invar (dev s2)" and added: "config_added ?D p (view (dev s2))"
    and l2: "cluster_no_to_lba s2 ?cfg = cluster_lba ?D p ?cfg"
      "view (dev s2) (cluster_lba ?D p ?cfg) = blank_sector"
    and hd: "view (dev s2) 0 = ?D 0" "view (dev s2) (lba_begin (partition_at ?D p)) = ?D (lba_begin (partition_at ?D p))"
    and mem: "cluster_lba ?D p ?cfg \<in> data_lbas ?D p" "cluster_lba ?D p ?cfg \<in> new_writes ?D p"
      "cluster_lba ?D p ?cfg \<notin> insert (fat_begin_lba (layout_at ?D p)) (header_lbas ?D p)"
    by (rule new_config[OF assms(1-6) refl, of r0 w0 m])
  note vc = volume_cong[of "view (dev s2)" ?D, OF hd]
  have lba: "lba = cluster_no_to_lba s2 ?cfg" using l2(1) assms(12) by simp
  have good: "good lba" using assms(4,12) mem(1) by blast
  have blank: "blank_sector = view (dev s2) lba" using l2(2) assms(12) by simp
  have free: "dfs_id blank_sector 0 ! 0 = 0" by (simp add: blank_entry)
  obtain s' sec' where id: "id_for_dfs rd wr s2 ?cfg (name_buffer nm name0) (uint (a AND 0xff)) sec0 = Inr (- 1, s')"
    "invar (dev s')" "view (dev s') = (view (dev s2))(lba := sec')" "holds_id sec' nm 0 a"
    by (rule register_step[OF assms(1) inv lba good blank assms(7,9,10) _ _ free assms(11), of a]) simp_all
  obtain claimed where agr: "boot_agrees nm a h (entry rd wr name0 b1 b2 sec0) (boot_fs r0 w0 m d) claimed (a + 1) s'"
    "claimed AND 0xff = a AND 0xff"
    using agreement[OF assms(8-10) r id(1)] by auto
  have h: "header_lbas (view (dev s2)) p = header_lbas ?D p" by (simp add: header_lbas_def vc)
  have card: "dfs_card (view (dev s2)) p ?cfg" using added by (simp add: config_added_def)
  have good2: "good l" if "l \<in> boot_lbas (view (dev s2)) p ?cfg" for l
    using that assms(4) mem(1) by (auto simp: boot_lbas_def vc)
  have lba2: "lba = cluster_lba (view (dev s2)) p ?cfg" "lba \<notin> header_lbas (view (dev s2)) p"
    using assms(12) mem(3) by (simp_all add: vc h)
  show thesis
  proof (rule that[OF agr id(2)])
    show "config_added ?D p (view (dev s'))"
      using config_added_update[OF added mem(2,3) hd] id(3) assms(12) by simp
    show "holds_id (view (dev s') lba) nm 0 a" using id(3,4) by simp
    show "\<exists>claimed2 t. boot_agrees nm a2 h2 (entry rd wr name0' b1' b2' sec0') (boot_fs r1 w1 m1 d2)
        claimed2 a2 t \<and> claimed2 AND 0xff = a AND 0xff"
      if "invar d2" "view d2 = view (dev s')" "connected h2" "length b1' = 512" "length sec0' = 512"
        "length name0' = (30 :: nat)" for d2 and h2 :: pi and a2 and name0' b1' b2' sec0' :: bytes and r1 w1 m1
      using told_again[OF assms(1) that(1) card good2 lba2 _ id(4) that(4,5,3) assms(9) that(6)] that(2) id(3)
      by simp
  qed
qed

text \<open>A card as formatting leaves it: the root directory's entry is in use, everything else is zero.\<close>

definition fresh_card :: "u32 \<Rightarrow> bytes" where
  "fresh_card l = (if l = 40 then replicate 8 0 @ [0xff, 0xff, 0xff, 0x0f] @ replicate 500 0 else demo_card l)"

lemma fresh_card_layout:
  "partition_at fresh_card = partition_at demo_card" "volume_at fresh_card 0 = volume_at demo_card 0"
  "layout_at fresh_card 0 = layout_at demo_card 0" "table_sectors fresh_card 0 = 3"
  "cluster_lba fresh_card 0 c = 43 + (c - 2) * 2"
proof -
  have "lba_begin (partition_at demo_card 0) \<noteq> 40" by code_simp
  then show p: "partition_at fresh_card = partition_at demo_card"
    and v: "volume_at fresh_card 0 = volume_at demo_card 0"
    by (simp_all add: fun_eq_iff partition_at_def volume_at_def fresh_card_def)
  then show l: "layout_at fresh_card 0 = layout_at demo_card 0" by (simp add: layout_at_def)
  show "table_sectors fresh_card 0 = 3" using demo_card_volume(2) by (simp add: table_sectors_def v)
  show "cluster_lba fresh_card 0 c = 43 + (c - 2) * 2" by (simp add: cluster_lba_def l demo_card_volume)
qed

lemma fresh_card_words:
  assumes "j < 128"
  shows "table_word fresh_card 0 j = (if j = 2 then 0x0FFFFFFF else 0)"
proof -
  have t: "table_word fresh_card 0 j = u32_at (replicate 8 0 @ [0xff, 0xff, 0xff, 0x0f] @ replicate 500 0) (4 * j)"
    by (simp add: table_word_def fresh_card_layout demo_card_volume fresh_card_def)
  have "j < 2 \<or> j = 2 \<or> 3 \<le> j" by linarith
  then show ?thesis
    unfolding t using assms by (elim disjE) (simp_all add: u32_at_def nth_append le32_def)
qed

lemma fresh_card_clusters: "2 \<le> length (low_free fresh_card 0)" "new_clusters fresh_card 0 = [3, 4]"
proof -
  have u: "[2..<128] = 2 # 3 # 4 # [5..<128::nat]" by (simp add: upt_rec)
  have "low_free fresh_card 0 = 3 # 4 # filter (\<lambda>j. table_word fresh_card 0 j = 0) [5..<128]"
    unfolding low_free_def u by (simp add: fresh_card_words del: upt_Suc upt_rec_numeral)
  then show "2 \<le> length (low_free fresh_card 0)" "new_clusters fresh_card 0 = [3, 4]"
    by (simp_all add: new_clusters_def numeral_2_eq_2 del: upt_Suc upt_rec_numeral)
qed

lemma fresh_card_new: "new_card fresh_card 0"
proof -
  have z: "live_terminal (rec_at (replicate 512 0) 0)"
    by (simp add: rec_at_def chunk_def live_terminal_def decode_dir_record_def IS_LFN_def IS_TERMINAL_def)
  have u: "[0..<16] = 0 # [1..<16::nat]" by (simp add: upt_rec)
  have "root_records fresh_card 0 = sector_records (replicate 512 0) @ sector_records (fresh_card 44)"
    by (simp add: root_records_def fresh_card_layout demo_card_volume FAT32_ROOT_CLUSTER_NO_def upt_rec)
       (simp add: fresh_card_def demo_card_def)
  then obtain rs where rs: "root_records fresh_card 0 = rec_at (replicate 512 0) 0 # rs"
    by (simp add: sector_records_def records_per_sector_def u)
  have l: "lba_begin (partition_at demo_card 0) = 30" by code_simp
  show ?thesis
    using demo_card_volume(1) z fresh_card_clusters(1)
    by (simp add: new_card_def rs single_volume_def layout_ok_def data_lbas_def fresh_card_layout l
        demo_card_volume fresh_card_words FAT32_ROOT_CLUSTER_NO_def SD_SECTOR_SIZE_def)
qed

lemma fresh_card_invar: "ram_invar fresh_card"
  using demo_card_invar by (simp add: ram_invar_def fresh_card_def)

end
