(* ===== verification/Sd_Init.thy ===== *)
theory Sd_Init
  imports Sd_Card
begin

text \<open>
  Setting the card up: \<open>sd_clk\<close> and \<open>sd_init\<close> of \<open>src/pi-src/bzt-sd.c\<close>, register access by register
  access. The counters of \<open>sd_init\<close> are \<open>uint64_t\<close>, which decides what its timeout tests see. Its last
  loop may run forever and is a partial function into \<open>option\<close>.
\<close>

section \<open>The clock\<close>

text \<open>One line of the normalisation: shift by \<open>k\<close> when the top \<open>k\<close> bits are clear.\<close>

definition norm_step :: "u32 \<Rightarrow> nat \<Rightarrow> u32 \<times> u32 \<Rightarrow> u32 \<times> u32" where
  "norm_step hi k xs =
     (let (x, s) = xs in if x AND hi = 0 then (push_bit k x, s - of_nat k) else (x, s))"

definition clk_shift :: "u32 \<Rightarrow> u32" where
  "clk_shift x =
     (if x = 0 then 0
      else
        let (x1, s1) = norm_step 0x80000000 1 (norm_step 0xc0000000 2 (norm_step 0xf0000000 4
              (norm_step 0xff000000 8 (norm_step 0xffff0000 16 (x, 32)))));
            s2 = (if 0 < s1 then s1 - 1 else s1)
        in if 7 < s2 then 7 else s2)"

definition clk_divisor :: "u32 \<Rightarrow> u32 \<Rightarrow> u32" where
  "clk_divisor hv c =
     (let d0 = (if HOST_SPEC_V2 < hv then c else push_bit (unat (clk_shift (c - 1))) 1)
      in if d0 \<le> 2 then 2 else d0)"

text \<open>The bits of the divisor as \<open>CONTROL1\<close> takes them.\<close>

definition clk_bits :: "u32 \<Rightarrow> u32 \<Rightarrow> u32" where
  "clk_bits hv d =
     (let h = (if HOST_SPEC_V2 < hv then drop_bit 2 (d AND 0x300) else 0)
      in push_bit 8 (d AND 0x0ff) OR h)"

definition status_bits :: "'h bus \<Rightarrow> u32 \<Rightarrow> ('h sd, bool) state" where
  "status_bits bus m = do { st \<leftarrow> get32 bus EMMC_STATUS; State_Monad.return (st AND m \<noteq> 0) }"

definition control1_bits :: "'h bus \<Rightarrow> u32 \<Rightarrow> ('h sd, bool) state" where
  "control1_bits bus m = do { c1 \<leftarrow> get32 bus EMMC_CONTROL1; State_Monad.return (c1 AND m \<noteq> 0) }"

definition negate :: "('s, bool) state \<Rightarrow> ('s, bool) state" where
  "negate c = do { b \<leftarrow> c; State_Monad.return (\<not> b) }"

definition update32 :: "'h bus \<Rightarrow> u32 \<Rightarrow> (u32 \<Rightarrow> u32) \<Rightarrow> ('h sd, unit) state" where
  "update32 bus a f = do { v \<leftarrow> get32 bus a; put32 bus a (f v) }"

definition sd_clk :: "'h bus \<Rightarrow> u32 \<Rightarrow> ('h sd, u32) state" where
  "sd_clk bus f =
     do { cnt \<leftarrow> poll 100000 (status_bits bus (SR_CMD_INHIBIT OR SR_DAT_INHIBIT)) (wait_msec bus 1);
          if cnt \<le> 0 then State_Monad.return SD_ERROR
          else
            do { update32 bus EMMC_CONTROL1 (\<lambda>v. v AND NOT C1_CLK_EN);
                 wait_msec bus 10;
                 hv \<leftarrow> gets sd_hv;
                 update32 bus EMMC_CONTROL1
                   (\<lambda>v. (v AND 0xffff003f) OR clk_bits hv (clk_divisor hv (41666666 div f)));
                 wait_msec bus 10;
                 update32 bus EMMC_CONTROL1 (\<lambda>v. v OR C1_CLK_EN);
                 wait_msec bus 10;
                 cnt2 \<leftarrow> poll 10000 (negate (control1_bits bus C1_CLK_STABLE)) (wait_msec bus 10);
                 State_Monad.return (if cnt2 \<le> 0 then SD_ERROR else SD_OK) } }"

section \<open>sd_init\<close>

text \<open>The pull-up sequence on a set of pins of the second bank.\<close>

definition pull_up :: "'h bus \<Rightarrow> u32 \<Rightarrow> ('h sd, unit) state" where
  "pull_up bus pins =
     do { put32 bus GPPUD 2; wait_cycles bus 150; put32 bus GPPUDCLK1 pins; wait_cycles bus 150;
          put32 bus GPPUD 0; put32 bus GPPUDCLK1 0 }"

definition sd_gpio :: "'h bus \<Rightarrow> ('h sd, unit) state" where
  "sd_gpio bus =
     do { update32 bus GPFSEL4 (\<lambda>r. r AND NOT (push_bit 21 7));
          pull_up bus (push_bit 15 1);
          update32 bus GPHEN1 (\<lambda>r. r OR push_bit 15 1);
          update32 bus GPFSEL4 (\<lambda>r. r OR (push_bit 24 7 OR push_bit 27 7));
          pull_up bus (push_bit 16 1 OR push_bit 17 1);
          update32 bus GPFSEL5 (\<lambda>r. r OR (7 OR push_bit 3 7 OR push_bit 6 7 OR push_bit 9 7));
          pull_up bus (push_bit 18 1 OR push_bit 19 1 OR push_bit 20 1 OR push_bit 21 1) }"

text \<open>The reset, and the value of the unsigned counter its timeout test looks at.\<close>

definition sd_reset :: "'h bus \<Rightarrow> ('h sd, u64) state" where
  "sd_reset bus =
     do { put32 bus EMMC_CONTROL0 0;
          update32 bus EMMC_CONTROL1 (\<lambda>v. v OR C1_SRST_HC);
          wait_msec bus 10;
          cnt \<leftarrow> poll 10000 (control1_bits bus C1_SRST_HC) (wait_msec bus 10);
          State_Monad.return (word_of_int cnt) }"

text \<open>
  The loop that waits for the card to come up: \<open>Inl\<close> is a return from \<open>sd_init\<close>, \<open>Inr\<close> the last
  response and the counter.
\<close>

function op_cond_loop :: "'h bus \<Rightarrow> nat \<Rightarrow> u64 \<Rightarrow> ('h sd, u32 + u64 \<times> u64) state" where
  "op_cond_loop bus n r =
     (if r AND ucast ACMD41_CMD_COMPLETE \<noteq> 0 then State_Monad.return (Inr (r, of_nat n))
      else if n = 0 then State_Monad.return (Inr (r, - 1))
      else
        do { wait_cycles bus 400;
             v \<leftarrow> sd_cmd bus CMD_SEND_OP_COND ACMD41_ARG_HC;
             e \<leftarrow> gets sd_err;
             if e \<noteq> SD_TIMEOUT \<and> e \<noteq> SD_OK then State_Monad.return (Inl e)
             else op_cond_loop bus (n - 1) (scast v) })"
  by pat_completeness auto
termination
  by (relation "measure (\<lambda>(bus, n, r). n)") auto

declare op_cond_loop.simps [simp del]

text \<open>What the code decides after the loop: the \<open>ccs\<close> flag, or the value to return.\<close>

definition op_cond_result :: "u64 \<Rightarrow> u64 \<Rightarrow> u32 + u32" where
  "op_cond_result r cnt =
     (if r AND ucast ACMD41_CMD_COMPLETE = 0 \<or> cnt = 0 then Inl SD_TIMEOUT
      else if r AND ucast ACMD41_VOLTAGE = 0 then Inl SD_ERROR
      else Inr (if r AND ucast ACMD41_CMD_CCS \<noteq> 0 then SCR_SUPP_CCS else 0))"

text \<open>A return of \<open>sd_err\<close> when it is set.\<close>

definition unless_err :: "('h sd, u32 + 'b) state \<Rightarrow> ('h sd, u32 + 'b) state" where
  "unless_err k = do { e \<leftarrow> gets sd_err; if e \<noteq> 0 then State_Monad.return (Inl e) else k }"

definition sd_identify :: "'h bus \<Rightarrow> ('h sd, u32 + u32) state" where
  "sd_identify bus =
     do { sd_cmd bus CMD_GO_IDLE 0;
          unless_err
            (do { sd_cmd bus CMD_SEND_IF_COND 0x000001AA;
                  unless_err
                    (do { x \<leftarrow> op_cond_loop bus 6 0;
                          State_Monad.return
                            (case x of Inl e \<Rightarrow> Inl e | Inr (r, cnt) \<Rightarrow> op_cond_result r cnt) }) }) }"

definition sd_select :: "'h bus \<Rightarrow> ('h sd, u32 + unit) state" where
  "sd_select bus =
     do { sd_cmd bus CMD_ALL_SEND_CID 0;
          rca \<leftarrow> sd_cmd bus CMD_SEND_REL_ADDR 0;
          modify (\<lambda>s. s\<lparr>sd_rca := scast rca\<rparr>);
          unless_err
            (do { r \<leftarrow> sd_clk bus 25000000;
                  if r \<noteq> 0 then State_Monad.return (Inl r)
                  else
                    do { rca' \<leftarrow> gets sd_rca;
                         sd_cmd bus CMD_CARD_SELECT (ucast rca');
                         unless_err
                           (do { st \<leftarrow> sd_status bus SR_DAT_INHIBIT;
                                 if st \<noteq> 0 then State_Monad.return (Inl SD_TIMEOUT)
                                 else
                                   do { put32 bus EMMC_BLKSIZECNT (push_bit 16 1 OR 8);
                                        sd_cmd bus CMD_SEND_SCR 0;
                                        unless_err
                                          (do { i \<leftarrow> sd_int bus INT_READ_RDY;
                                                State_Monad.return
                                                  (if i \<noteq> 0 then Inl SD_TIMEOUT else Inr ()) }) } }) } }) }"

text \<open>Everything up to the loop that reads the configuration register.\<close>

definition sd_init_to_scr :: "'h bus \<Rightarrow> ('h sd, u32 + u32) state" where
  "sd_init_to_scr bus =
     do { sd_gpio bus;
          ver \<leftarrow> get32 bus EMMC_SLOTISR_VER;
          modify (\<lambda>s. s\<lparr>sd_hv := drop_bit 16 (ver AND HOST_SPEC_NUM)\<rparr>);
          cnt \<leftarrow> sd_reset bus;
          if cnt \<le> 0 then State_Monad.return (Inl SD_ERROR)
          else
            do { update32 bus EMMC_CONTROL1 (\<lambda>v. v OR (C1_CLK_INTLEN OR C1_TOUNIT_MAX));
                 wait_msec bus 10;
                 r \<leftarrow> sd_clk bus 400000;
                 if r \<noteq> 0 then State_Monad.return (Inl r)
                 else
                   do { put32 bus EMMC_INT_EN 0xffffffff;
                        put32 bus EMMC_INT_MASK 0xffffffff;
                        modify (\<lambda>s. s\<lparr>sd_scr0 := 0, sd_scr1 := 0, sd_rca := 0, sd_err := 0\<rparr>);
                        x \<leftarrow> sd_identify bus;
                        case x of Inl e \<Rightarrow> State_Monad.return (Inl e)
                        | Inr ccs \<Rightarrow>
                            do { y \<leftarrow> sd_select bus;
                                 State_Monad.return
                                   (case y of Inl e \<Rightarrow> Inl e | Inr u \<Rightarrow> Inr ccs) } } } }"

text \<open>
  The loop \<open>while(r<2 && cnt)\<close>: nothing in it changes \<open>cnt\<close>, which is 100000, so only \<open>r\<close> can end it.
\<close>

partial_function (option) read_scr :: "'h bus \<Rightarrow> nat \<Rightarrow> 'h sd \<Rightarrow> 'h sd option" where
  "read_scr bus r s =
     (if r < 2 then
        let (st, s1) = run_state (get32 bus EMMC_STATUS) s in
        if st AND SR_READ_AVAILABLE \<noteq> 0 then
          let (w, s2) = run_state (get32 bus EMMC_DATA) s1
          in read_scr bus (r + 1) (if r = 0 then s2\<lparr>sd_scr0 := w\<rparr> else s2\<lparr>sd_scr1 := w\<rparr>)
        else read_scr bus r (snd (run_state (wait_msec bus 1) s1))
      else Some s)"

definition sd_init_from_scr :: "'h bus \<Rightarrow> u32 \<Rightarrow> ('h sd, u32) state" where
  "sd_init_from_scr bus ccs =
     do { scr \<leftarrow> gets sd_scr0;
          e \<leftarrow> (if scr AND SCR_SD_BUS_WIDTH_4 \<noteq> 0 then
                  do { rca \<leftarrow> gets sd_rca;
                       sd_cmd bus CMD_SET_BUS_WIDTH (ucast rca OR 2);
                       err \<leftarrow> gets sd_err;
                       if err \<noteq> 0 then State_Monad.return err
                       else do { update32 bus EMMC_CONTROL0 (\<lambda>v. v OR C0_HCTL_DWITDH);
                                 State_Monad.return 0 } }
                else State_Monad.return 0);
          if e \<noteq> 0 then State_Monad.return e
          else
            do { modify (\<lambda>s. s\<lparr>sd_scr0 := (sd_scr0 s AND NOT SCR_SUPP_CCS) OR ccs\<rparr>);
                 State_Monad.return SD_OK } }"

definition sd_init :: "'h bus \<Rightarrow> 'h sd \<Rightarrow> (u32 \<times> 'h sd) option" where
  "sd_init bus s =
     (case run_state (sd_init_to_scr bus) s of
        (Inl e, s1) \<Rightarrow> Some (e, s1)
      | (Inr ccs, s1) \<Rightarrow>
          (case read_scr bus 0 s1 of
             None \<Rightarrow> None
           | Some s2 \<Rightarrow> Some (run_state (sd_init_from_scr bus ccs) s2)))"

section \<open>The clock shift is a logarithm\<close>

lemma hi_bits_clear: "(x :: u32) AND NOT (mask n) = 0 \<longleftrightarrow> unat x < 2 ^ n"
proof -
  have "x AND NOT (mask n) = 0 \<longleftrightarrow> take_bit n x = x"
    by (metis (no_types) and.commute bit.conj_cancel_right bit.conj_disj_distrib bit.conj_one_right
        bit.disj_cancel_right or.right_neutral take_bit_eq_mask and.assoc and_zero_eq)
  also have "\<dots> \<longleftrightarrow> take_bit n (unat x) = unat x"
    by (metis unsigned_take_bit_eq unsigned_word_eqI)
  also have "\<dots> \<longleftrightarrow> unat x < 2 ^ n" by (rule take_bit_nat_eq_self_iff)
  finally show ?thesis .
qed

text \<open>\<open>(y, s)\<close> is \<open>x\<close> shifted left by \<open>32 - s\<close>, with nothing lost.\<close>

definition shifted :: "u32 \<Rightarrow> u32 \<times> u32 \<Rightarrow> bool" where
  "shifted x ys \<longleftrightarrow> (\<exists>j < 32. unat (snd ys) = 32 - j \<and> unat (fst ys) = unat x * 2 ^ j)"

lemma two_power_less_imp: "(2 :: nat) ^ a < 2 ^ b \<Longrightarrow> a < b"
  by simp

lemma norm_step_spec:
  assumes "shifted x ys" "2 ^ (32 - 2 * k) \<le> unat (fst ys)" "2 * k \<le> 32" "0 < k" "x \<noteq> 0"
    and "hi = NOT (mask (32 - k))"
  shows "shifted x (norm_step hi k ys) \<and> 2 ^ (32 - k) \<le> unat (fst (norm_step hi k ys))"
proof -
  obtain y s where ys: "ys = (y, s)" by force
  obtain j where j: "j < 32" "unat s = 32 - j" "unat y = unat x * 2 ^ j"
    using assms(1) by (auto simp: shifted_def ys)
  show ?thesis
  proof (cases "unat y < 2 ^ (32 - k)")
    case False
    then have "norm_step hi k ys = ys" by (simp add: norm_step_def ys assms(6) hi_bits_clear)
    then show ?thesis using False assms(1) ys by simp
  next
    case True
    then have ns: "norm_step hi k ys = (push_bit k y, s - of_nat k)"
      by (simp add: norm_step_def ys assms(6) hi_bits_clear)
    have "unat y * 2 ^ k < 2 ^ (32 - k) * 2 ^ k" using True by simp
    also have "\<dots> = 2 ^ 32" using assms(3) by (simp flip: power_add)
    finally have lt: "unat y * 2 ^ k < 2 ^ LENGTH(32)" by simp
    have "unat (push_bit k y) = take_bit LENGTH(32) (push_bit k (unat y))"
      by (rule unsigned_push_bit_eq)
    then have py: "unat (push_bit k y) = unat y * 2 ^ k"
      using lt by (simp add: push_bit_eq_mult take_bit_nat_eq_self)
    have x1: "1 \<le> unat x" using assms(5) by (simp add: unat_gt_0 Suc_leI)
    have "unat x * 2 ^ (j + k) = unat y * 2 ^ k" by (simp add: j(3) power_add)
    moreover have "2 ^ (j + k) \<le> unat x * 2 ^ (j + k)" using x1 by simp
    ultimately have "(2::nat) ^ (j + k) < 2 ^ LENGTH(32)" using lt by (metis le_less_trans)
    then have "j + k < LENGTH(32)" by (rule two_power_less_imp)
    then have jk: "j + k < 32" by simp
    have "of_nat k \<le> s" using j(2) jk by (simp add: word_le_nat_alt unat_of_nat_small)
    then have us: "unat (s - of_nat k) = 32 - (j + k)"
      using j(2) jk by (simp add: unat_sub unat_of_nat_small)
    have "shifted x (norm_step hi k ys)"
      unfolding shifted_def ns using us py jk j(3)
      by (intro exI[of _ "j + k"]) (simp add: power_add ac_simps)
    moreover have "2 ^ (32 - k) \<le> unat y * 2 ^ k"
    proof -
      have "(2::nat) ^ (32 - k) = 2 ^ (32 - 2 * k) * 2 ^ k"
        using assms(3) by (simp flip: power_add)
      then show ?thesis using assms(2) ys by simp
    qed
    ultimately show ?thesis by (simp add: ns py)
  qed
qed

text \<open>
  For controllers of the older specification \<open>sd_clk\<close> programs a power of two: the shift it
  computes is the position of the highest set bit of its argument, capped at 7, so the divisor
  it leads to is at most the requested one and more than half of it (or the largest there is).
\<close>

theorem clk_shift_log2:
  assumes "x \<noteq> 0"
  shows "unat (clk_shift x) \<le> 7 \<and> 2 ^ unat (clk_shift x) \<le> unat x
    \<and> (unat (clk_shift x) = 7 \<or> unat x < 2 ^ (unat (clk_shift x) + 1))"
proof -
  have x1: "1 \<le> unat x" using assms by (simp add: unat_gt_0 Suc_leI)
  have hi: "0xffff0000 = NOT (mask (32 - 16) :: u32)" "0xff000000 = NOT (mask (32 - 8) :: u32)"
    "0xf0000000 = NOT (mask (32 - 4) :: u32)" "0xc0000000 = NOT (mask (32 - 2) :: u32)"
    "0x80000000 = NOT (mask (32 - 1) :: u32)"
    by (simp_all add: mask_eq_exp_minus_1)
  define a where "a = norm_step 0xffff0000 16 (x, 32)"
  define b where "b = norm_step 0xff000000 8 a"
  define c where "c = norm_step 0xf0000000 4 b"
  define d where "d = norm_step 0xc0000000 2 c"
  define e where "e = norm_step 0x80000000 1 d"
  have "shifted x (x, 32)" by (auto simp: shifted_def intro!: exI[of _ 0])
  then have a: "shifted x a" "2 ^ 16 \<le> unat (fst a)"
    using norm_step_spec[of x "(x, 32)" 16, OF _ _ _ _ assms hi(1)] x1 by (simp_all add: a_def)
  have b: "shifted x b" "2 ^ 24 \<le> unat (fst b)"
    using norm_step_spec[of x a 8, OF a(1) _ _ _ assms hi(2)] a(2) by (simp_all add: b_def)
  have c: "shifted x c" "2 ^ 28 \<le> unat (fst c)"
    using norm_step_spec[of x b 4, OF b(1) _ _ _ assms hi(3)] b(2) by (simp_all add: c_def)
  have d: "shifted x d" "2 ^ 30 \<le> unat (fst d)"
    using norm_step_spec[of x c 2, OF c(1) _ _ _ assms hi(4)] c(2) by (simp_all add: d_def)
  have e: "shifted x e" "2 ^ 31 \<le> unat (fst e)"
    using norm_step_spec[of x d 1, OF d(1) _ _ _ assms hi(5)] d(2) by (simp_all add: e_def)
  obtain j where j: "j < 32" "unat (snd e) = 32 - j" "unat (fst e) = unat x * 2 ^ j"
    using e(1) by (auto simp: shifted_def)
  have pos: "0 < snd e" using j(1,2) by (simp add: word_less_nat_alt)
  have s1: "unat (snd e - 1) = 31 - j"
    using j(1,2) pos by (simp add: unat_minus_one word_gt_0)
  have cs: "clk_shift x = (if 7 < snd e - 1 then 7 else snd e - 1)"
    using assms pos by (simp add: clk_shift_def Let_def split_beta del: One_nat_def flip: a_def b_def c_def d_def e_def)
  have lo: "2 ^ (31 - j) \<le> unat x"
  proof -
    have "2 ^ (31 - j) * 2 ^ j \<le> unat x * 2 ^ j" using e(2) j by (simp flip: power_add)
    then show ?thesis by simp
  qed
  have up: "unat x < 2 ^ (32 - j)"
  proof -
    have "unat x * 2 ^ j < 2 ^ (32 - j) * 2 ^ j"
      using unsigned_less[of "fst e", where ?'a = nat] j by (simp flip: power_add)
    then show ?thesis by simp
  qed
  have m: "unat (clk_shift x) = min 7 (31 - j)"
    using s1 by (auto simp: cs word_less_nat_alt min_def)
  have "(2::nat) ^ min 7 (31 - j) \<le> 2 ^ (31 - j)" by (intro power_increasing) auto
  then have "2 ^ min 7 (31 - j) \<le> unat x" using lo by (rule order.trans)
  moreover have "min 7 (31 - j) = 7 \<or> unat x < 2 ^ (min 7 (31 - j) + 1)"
  proof (cases "min 7 (31 - j) = 7")
    case False
    then have "32 - j = min 7 (31 - j) + 1" using j(1) by linarith
    then show ?thesis using up by simp
  qed simp
  ultimately show ?thesis unfolding m by simp
qed

theorem clk_shift_log2_witness:
  "unat (clk_shift 103) \<le> 7 \<and> 2 ^ unat (clk_shift 103) \<le> unat (103 :: u32)
    \<and> (unat (clk_shift 103) = 7 \<or> unat (103 :: u32) < 2 ^ (unat (clk_shift 103) + 1))"
  by (rule clk_shift_log2) simp

section \<open>What the counters miss\<close>

text \<open>
  A controller that never leaves reset is not noticed. The counter of the reset loop is
  unsigned and ends at 2^64 - 1 when the loop runs out, so the test \<open>cnt<=0\<close> that should report the
  failure is false, and \<open>sd_init\<close> goes on with a controller in reset.
\<close>

theorem sd_reset_timeout_missed:
  assumes "inreset (hw s)"
    and "\<And>h. inreset h \<Longrightarrow> fst (bus_read bus h EMMC_CONTROL1) AND C1_SRST_HC \<noteq> 0
          \<and> inreset (snd (bus_read bus h EMMC_CONTROL1))"
    and "\<And>h a v. inreset h \<Longrightarrow> inreset (bus_write bus h a v)"
    and "\<And>h us. inreset h \<Longrightarrow> inreset (bus_wait bus h us)"
  shows "fst (run_state (sd_reset bus) s) = - 1 \<and> \<not> fst (run_state (sd_reset bus) s) \<le> 0
    \<and> inreset (hw (snd (run_state (sd_reset bus) s)))"
proof -
  let ?I = "\<lambda>t. inreset (hw t)"
  let ?cond = "control1_bits bus C1_SRST_HC" and ?body = "wait_msec bus 10"
  define t where "t = s\<lparr>hw := bus_wait bus (bus_write bus (snd (bus_read bus (bus_write bus (hw s) EMMC_CONTROL0 0)
    EMMC_CONTROL1)) EMMC_CONTROL1 (fst (bus_read bus (bus_write bus (hw s) EMMC_CONTROL0 0) EMMC_CONTROL1)
      OR C1_SRST_HC)) 10000\<rparr>"
  have t: "?I t" using assms by (simp add: t_def)
  have cond: "fst (run_state ?cond u) \<and> ?I (snd (run_state ?cond u))" if "?I u" for u
    using that assms(2) by (simp add: control1_bits_def run_simps)
  have body: "?I (snd (run_state ?body u))" if "?I u" for u
    using that assms(4) by (simp add: run_simps)
  have p: "fst (run_state (poll 10000 ?cond ?body) t) = - 1 \<and> ?I (snd (run_state (poll 10000 ?cond ?body) t))"
    by (rule poll_stuck[where I = ?I]) (fact t, rule cond, assumption, rule body, assumption)
  have "run_state (sd_reset bus) s =
      (case run_state (poll 10000 ?cond ?body) t of (c, u) \<Rightarrow> (word_of_int c, u))"
    by (simp add: sd_reset_def update32_def run_simps t_def)
  then show ?thesis using p by (simp add: split_beta)
qed

text \<open>A controller whose registers read all ones.\<close>

definition ones_bus :: "unit bus" where
  "ones_bus = \<lparr>bus_read = (\<lambda>h a. (- 1, h)), bus_write = (\<lambda>h a v. h), bus_wait = (\<lambda>h us. h),
     bus_spin = (\<lambda>h n. h)\<rparr>"

theorem sd_reset_timeout_missed_witness:
  "fst (run_state (sd_reset ones_bus) stuck_sd) = - 1 \<and> \<not> fst (run_state (sd_reset ones_bus) stuck_sd) \<le> 0
    \<and> True"
  by (rule sd_reset_timeout_missed [where inreset = "\<lambda>_. True"])
     (simp_all add: ones_bus_def C1_SRST_HC_def)

text \<open>
  A card that comes up on the last of the allowed attempts is taken for one that never does.
  When the card reports completion on the next attempt, the loop leaves with one less on its counter,
  and the code accepts the card exactly when that is not zero.
\<close>

theorem op_cond_last_attempt:
  assumes "r AND ucast ACMD41_CMD_COMPLETE = 0" "0 < n" "n \<le> 6"
    and "run_state (sd_cmd bus CMD_SEND_OP_COND ACMD41_ARG_HC) (s\<lparr>hw := bus_spin bus (hw s) 400\<rparr>) = (v, s')"
    and "sd_err s' = SD_OK" "scast v AND ucast ACMD41_CMD_COMPLETE \<noteq> (0 :: u64)"
    and "scast v AND ucast ACMD41_VOLTAGE \<noteq> (0 :: u64)"
  shows "run_state (op_cond_loop bus n r) s = (Inr (scast v, of_nat (n - 1)), s')
    \<and> op_cond_result (scast v) (of_nat (n - 1)) =
        (if n = 1 then Inl SD_TIMEOUT
         else Inr (if scast v AND ucast ACMD41_CMD_CCS \<noteq> (0 :: u64) then SCR_SUPP_CCS else 0))"
proof -
  have inner: "op_cond_loop bus (n - 1) (scast v) = State_Monad.return (Inr (scast v, of_nat (n - 1)))"
    using assms(6) by (subst op_cond_loop.simps) simp
  have "run_state (op_cond_loop bus n r) s = (Inr (scast v, of_nat (n - 1)), s')"
    using assms(1,2,4,5) by (subst op_cond_loop.simps) (simp add: run_simps inner del: One_nat_def)
  moreover have "(of_nat (n - 1) :: u64) = 0 \<longleftrightarrow> n = 1"
    using assms(2,3) unat_of_nat_small[of "n - 1", where ?'a = 64] by (auto simp: word_unat_eq_iff)
  ultimately show ?thesis using assms(6,7) by (simp add: op_cond_result_def)
qed

text \<open>
  A controller that is idle and successful at once, whose card answers every command with the
  same word and never has data to read.
\<close>

definition ready_regs :: "u32 \<Rightarrow> u32" where
  "ready_regs a =
     (if a = EMMC_STATUS then 0 else if a = EMMC_INTERRUPT then INT_CMD_DONE OR INT_READ_RDY
      else if a = EMMC_CONTROL1 then C1_CLK_STABLE else 0x80ff0020)"

definition ready_bus :: "unit bus" where
  "ready_bus = \<lparr>bus_read = (\<lambda>h a. (ready_regs a, h)),
     bus_write = (\<lambda>h a v. h), bus_wait = (\<lambda>h us. h), bus_spin = (\<lambda>h n. h)\<rparr>"

lemma ready_run:
  "run_state (get32 ready_bus a) s = (ready_regs a, s)"
  "run_state (put32 ready_bus a v) s = ((), s)" "run_state (wait_msec ready_bus n) s = ((), s)"
  "run_state (wait_cycles ready_bus n) s = ((), s)"
  by (simp_all add: run_simps ready_bus_def)

lemma ready_regs_simps:
  "ready_regs EMMC_STATUS = 0" "ready_regs EMMC_INTERRUPT = 0x21"
  "ready_regs EMMC_CONTROL1 = 2" "ready_regs EMMC_RESP0 = 0x80ff0020"
  by (simp_all add: ready_regs_def register_defs EMMC_CONTROL1_def INT_CMD_DONE_def INT_READ_RDY_def
      C1_CLK_STABLE_def)

lemmas command_defs =
  CMD_SEND_OP_COND_def CMD_SEND_IF_COND_def CMD_APP_CMD_def CMD_GO_IDLE_def CMD_RSPNS_48_def
  CMD_ALL_SEND_CID_def CMD_SEND_REL_ADDR_def CMD_NEED_APP_def CMD_ERRORS_MASK_def

lemma ready_status: "run_state (sd_status ready_bus m) s = (SD_OK, s)"
proof -
  have "run_state (busy ready_bus m) s = (False, s)" by (simp add: busy_def ready_run ready_regs_simps)
  then have "run_state (poll 1000000 (busy ready_bus m) (wait_msec ready_bus 1)) s = (1000000, s)"
    by (subst poll.simps) simp
  then show ?thesis by (simp add: sd_status_def ready_run ready_regs_simps INT_ERROR_MASK_def)
qed

lemma ready_int:
  assumes "m = INT_CMD_DONE \<or> m = INT_READ_RDY"
  shows "run_state (sd_int ready_bus m) s = (0, s)"
proof -
  let ?c = "no_interrupt ready_bus (m OR INT_ERROR_MASK)"
  have "run_state ?c s = (False, s)"
    using assms by (auto simp: no_interrupt_def ready_run ready_regs_simps INT_CMD_DONE_def
        INT_READ_RDY_def INT_ERROR_MASK_def)
  then have "run_state (poll 1000000 ?c (wait_msec ready_bus 1)) s = (1000000, s)"
    by (subst poll.simps) simp
  then show ?thesis
    by (simp add: sd_int_def ready_run ready_regs_simps INT_ERROR_MASK_def INT_CMD_TIMEOUT_def
        INT_DATA_TIMEOUT_def)
qed

lemma ready_send:
  "run_state (send_cmd ready_bus code arg) s = run_state (cmd_response ready_bus code arg) s"
  by (simp add: send_cmd_def ready_status ready_int SD_OK_def ready_run)

lemma ready_response:
  assumes "code \<in> {0x02010000, 0x03020000, 0x07030000, 0x08020000, 0x29020000, 0x33220010, 0x37000000,
      0x37020000, 0}"
  shows "sd_err (snd (run_state (cmd_response ready_bus code arg) (s\<lparr>sd_err := 0\<rparr>))) = 0"
    and "snd (run_state (cmd_response ready_bus code arg) (s\<lparr>sd_err := 0\<rparr>)) = s\<lparr>sd_err := 0\<rparr>"
    and "code = 0x29020000 \<or> code = 0x37020000 \<or> code = 0x03020000 \<Longrightarrow>
      fst (run_state (cmd_response ready_bus code arg) s) =
        (if code = 0x29020000 then 0x80f90000 else if code = 0x37020000 then 0x20 else 0x80ff0000)"
  using assms
  by (auto simp: cmd_response_def command_defs ready_run ready_regs_simps run_set_err SR_APP_CMD_def
      CMD_RCA_MASK_def split: if_splits)

lemma ready_cmd_plain:
  assumes "code \<in> {0x02010000, 0x03020000, 0x07030000, 0x08020000, 0x29020000, 0x33220010, 0x37000000,
      0x37020000, 0}"
  shows "\<exists>v. run_state (sd_cmd ready_bus code arg) s = (v, s\<lparr>sd_err := 0\<rparr>)
    \<and> (code = 0x37020000 \<longrightarrow> v = 0x20) \<and> (code = 0x03020000 \<longrightarrow> v = 0x80ff0000)"
proof -
  have "code AND CMD_NEED_APP = 0" using assms by (auto simp: CMD_NEED_APP_def)
  then have "run_state (sd_cmd ready_bus code arg) s =
      run_state (cmd_response ready_bus code arg) (s\<lparr>sd_err := 0\<rparr>)"
    by (subst sd_cmd.simps) (simp add: run_set_err ready_send SD_OK_def)
  then show ?thesis
    using ready_response(2)[OF assms, of arg s] ready_response(3)[OF assms, of arg "s\<lparr>sd_err := 0\<rparr>"]
    by (cases "run_state (cmd_response ready_bus code arg) (s\<lparr>sd_err := 0\<rparr>)") auto
qed

lemma ready_cmd_app:
  assumes "code \<in> {0x29020000, 0x33220010}"
  shows "\<exists>v. run_state (sd_cmd ready_bus (code OR CMD_NEED_APP) arg) s = (v, s\<lparr>sd_err := 0\<rparr>)
    \<and> (code = 0x29020000 \<longrightarrow> v = 0x80f90000)"
proof -
  let ?app = "CMD_APP_CMD OR (if sd_rca s \<noteq> 0 then CMD_RSPNS_48 else 0)"
  have app: "?app \<in> {0x37000000, 0x37020000}" by (simp add: CMD_APP_CMD_def CMD_RSPNS_48_def)
  obtain v where v: "run_state (sd_cmd ready_bus ?app (ucast (sd_rca s))) (s\<lparr>sd_err := 0\<rparr>) =
      (v, s\<lparr>sd_err := 0\<rparr>)" "?app = 0x37020000 \<longrightarrow> v = 0x20"
    using ready_cmd_plain[of ?app "ucast (sd_rca s)" "s\<lparr>sd_err := 0\<rparr>"] app by auto
  have nz: "sd_rca s \<noteq> 0 \<Longrightarrow> v \<noteq> 0"
    using v(2) by (simp add: CMD_APP_CMD_def CMD_RSPNS_48_def)
  have code: "(code OR CMD_NEED_APP) AND CMD_NEED_APP \<noteq> 0" "(code OR CMD_NEED_APP) AND NOT CMD_NEED_APP = code"
    using assms by (auto simp: CMD_NEED_APP_def)
  have c9: "code \<in> {0x02010000, 0x03020000, 0x07030000, 0x08020000, 0x29020000, 0x33220010, 0x37000000,
      0x37020000, 0}" using assms by auto
  have "run_state (sd_cmd ready_bus (code OR CMD_NEED_APP) arg) s =
      run_state (cmd_response ready_bus code arg) (s\<lparr>sd_err := 0\<rparr>)"
    using v(1) nz unfolding sd_cmd.simps[of ready_bus "code OR CMD_NEED_APP"] code(2) if_P[OF code(1)]
    by (auto simp: run_set_err ready_send SD_OK_def)
  then show ?thesis
    using ready_response(2)[OF c9, of arg s] ready_response(3)[OF c9, of arg "s\<lparr>sd_err := 0\<rparr>"]
    by (cases "run_state (cmd_response ready_bus code arg) (s\<lparr>sd_err := 0\<rparr>)") auto
qed

lemma ready_op_cond:
  "run_state (sd_cmd ready_bus CMD_SEND_OP_COND arg) s = (0x80f90000, s\<lparr>sd_err := 0\<rparr>)"
  using ready_cmd_app[where code = "0x29020000" and arg = arg and s = s]
  by (auto simp: CMD_SEND_OP_COND_def)

text \<open>The run of \<open>sd_init\<close> on the controller that is always ready.\<close>

lemma ready_pull: "run_state (pull_up ready_bus pins) s = ((), s)"
  by (simp add: pull_up_def ready_run)

lemma ready_update: "run_state (update32 ready_bus a f) s = ((), s)"
  by (simp add: update32_def ready_run)

lemma poll_at_once: "run_state c s = (False, s) \<Longrightarrow> run_state (poll n c b) s = (int n, s)"
  by (subst poll.simps) simp

lemma ready_clk: "run_state (sd_clk ready_bus f) s = (SD_OK, s)"
proof -
  have "run_state (status_bits ready_bus m) s = (False, s)" for m
    by (simp add: status_bits_def ready_run ready_regs_simps)
  moreover have "run_state (negate (control1_bits ready_bus C1_CLK_STABLE)) s = (False, s)"
    by (simp add: negate_def control1_bits_def ready_run ready_regs_simps C1_CLK_STABLE_def)
  ultimately show ?thesis by (simp add: sd_clk_def poll_at_once ready_run ready_update)
qed

lemma ready_reset: "run_state (sd_reset ready_bus) s = (10000, s)"
proof -
  have "run_state (control1_bits ready_bus C1_SRST_HC) s = (False, s)"
    by (simp add: control1_bits_def ready_run ready_regs_simps C1_SRST_HC_def)
  then show ?thesis by (simp add: sd_reset_def poll_at_once ready_run ready_update)
qed

lemma ready_cmds:
  "\<exists>v. run_state (sd_cmd ready_bus CMD_GO_IDLE arg) s = (v, s\<lparr>sd_err := 0\<rparr>)"
  "\<exists>v. run_state (sd_cmd ready_bus CMD_SEND_IF_COND arg) s = (v, s\<lparr>sd_err := 0\<rparr>)"
  "\<exists>v. run_state (sd_cmd ready_bus CMD_ALL_SEND_CID arg) s = (v, s\<lparr>sd_err := 0\<rparr>)"
  "\<exists>v. run_state (sd_cmd ready_bus CMD_SEND_REL_ADDR arg) s = (v, s\<lparr>sd_err := 0\<rparr>)"
  "\<exists>v. run_state (sd_cmd ready_bus CMD_CARD_SELECT arg) s = (v, s\<lparr>sd_err := 0\<rparr>)"
  "\<exists>v. run_state (sd_cmd ready_bus CMD_SEND_SCR arg) s = (v, s\<lparr>sd_err := 0\<rparr>)"
  using ready_cmd_plain[of CMD_GO_IDLE arg s] ready_cmd_plain[of CMD_SEND_IF_COND arg s]
    ready_cmd_plain[of CMD_ALL_SEND_CID arg s] ready_cmd_plain[of CMD_SEND_REL_ADDR arg s]
    ready_cmd_plain[of CMD_CARD_SELECT arg s] ready_cmd_app[of "0x33220010" arg s]
  by (auto simp: command_defs CMD_CARD_SELECT_def CMD_SEND_SCR_def)

lemma ready_op_cond_loop:
  "run_state (op_cond_loop ready_bus 6 0) s =
     (Inr (scast (0x80f90000 :: u32), 5), s\<lparr>sd_err := 0\<rparr>)"
proof -
  have "op_cond_loop ready_bus 5 (scast (0x80f90000 :: u32)) =
      State_Monad.return (Inr (scast (0x80f90000 :: u32), of_nat 5))"
    by (subst op_cond_loop.simps) (simp add: ACMD41_CMD_COMPLETE_def)
  then show ?thesis
    by (subst op_cond_loop.simps) (simp add: ready_run ready_op_cond SD_OK_def)
qed

lemma ready_identify: "run_state (sd_identify ready_bus) s = (Inr 0, s\<lparr>sd_err := 0\<rparr>)"
proof -
  obtain v where v: "run_state (sd_cmd ready_bus CMD_GO_IDLE 0) s = (v, s\<lparr>sd_err := 0\<rparr>)"
    using ready_cmds(1) by blast
  obtain w where w: "run_state (sd_cmd ready_bus CMD_SEND_IF_COND 0x1AA) (s\<lparr>sd_err := 0\<rparr>) =
      (w, s\<lparr>sd_err := 0\<rparr>)"
    using ready_cmds(2)[of "0x1AA" "s\<lparr>sd_err := 0\<rparr>"] by auto
  have "op_cond_result (scast (0x80f90000 :: u32)) 5 = Inr 0"
    by (simp add: op_cond_result_def ACMD41_CMD_COMPLETE_def ACMD41_VOLTAGE_def ACMD41_CMD_CCS_def)
  then show ?thesis by (simp add: sd_identify_def unless_err_def v w ready_op_cond_loop)
qed

lemma ready_select: "\<exists>s'. run_state (sd_select ready_bus) s = (Inr (), s')"
proof -
  obtain v where v: "run_state (sd_cmd ready_bus CMD_ALL_SEND_CID 0) s = (v, s\<lparr>sd_err := 0\<rparr>)"
    using ready_cmds(3) by blast
  obtain w where w: "run_state (sd_cmd ready_bus CMD_SEND_REL_ADDR 0) (s\<lparr>sd_err := 0\<rparr>) =
      (w, s\<lparr>sd_err := 0\<rparr>)"
    using ready_cmds(4)[of 0 "s\<lparr>sd_err := 0\<rparr>"] by auto
  define t where "t = s\<lparr>sd_err := 0, sd_rca := scast w\<rparr>"
  have t0: "sd_err t = 0" by (simp add: t_def)
  have te: "t\<lparr>sd_err := 0\<rparr> = t" by (simp add: t_def)
  obtain x where x: "run_state (sd_cmd ready_bus CMD_CARD_SELECT (ucast (sd_rca t))) t = (x, t)"
    using ready_cmds(5)[of _ t] te by metis
  obtain y where y: "run_state (sd_cmd ready_bus CMD_SEND_SCR 0) t = (y, t)"
    using ready_cmds(6)[of 0 t] te by metis
  show ?thesis
    by (simp add: sd_select_def unless_err_def v w ready_clk SD_OK_def ready_status ready_int ready_run
        x y t0 flip: t_def)
qed

lemma ready_init: "\<exists>s'. run_state (sd_init_to_scr ready_bus) s = (Inr 0, s')"
proof -
  have g: "run_state (sd_gpio ready_bus) s = ((), s)"
    by (simp add: sd_gpio_def ready_pull ready_update)
  define t where "t = s\<lparr>sd_hv := drop_bit 16 (ready_regs EMMC_SLOTISR_VER AND HOST_SPEC_NUM),
      sd_scr0 := 0, sd_scr1 := 0, sd_rca := 0, sd_err := 0\<rparr>"
  obtain s' where "run_state (sd_select ready_bus) t = (Inr (), s')"
    using ready_select by blast
  then show ?thesis
    by (simp add: sd_init_to_scr_def g ready_run ready_reset ready_update ready_clk SD_OK_def
        ready_identify t_def)
qed

theorem op_cond_last_attempt_witness:
  "run_state (op_cond_loop ready_bus 1 0) stuck_sd =
      (Inr (scast (0x80f90000 :: u32), of_nat (1 - 1)), stuck_sd\<lparr>sd_err := 0\<rparr>)
    \<and> op_cond_result (scast (0x80f90000 :: u32)) (of_nat (1 - 1)) =
        (if (1 :: nat) = 1 then Inl SD_TIMEOUT
         else Inr (if scast (0x80f90000 :: u32) AND ucast ACMD41_CMD_CCS \<noteq> (0 :: u64) then SCR_SUPP_CCS else 0))"
proof (rule op_cond_last_attempt)
  have "stuck_sd\<lparr>hw := bus_spin ready_bus (hw stuck_sd) 400\<rparr> = stuck_sd"
    by (simp add: stuck_sd_def)
  then show "run_state (sd_cmd ready_bus CMD_SEND_OP_COND ACMD41_ARG_HC)
      (stuck_sd\<lparr>hw := bus_spin ready_bus (hw stuck_sd) 400\<rparr>) = (0x80f90000, stuck_sd\<lparr>sd_err := 0\<rparr>)"
    by (simp only: ready_op_cond)
qed (simp_all add: SD_OK_def ACMD41_CMD_COMPLETE_def ACMD41_VOLTAGE_def)

text \<open>Steps whose result has no bit outside the error mask.\<close>

definition masked :: "('s, u32) state \<Rightarrow> bool" where
  "masked m \<longleftrightarrow> (\<forall>s. fst (run_state m s) AND NOT CMD_ERRORS_MASK = 0)"

lemma masked_intros:
  "masked (State_Monad.return 0)" "masked (State_Monad.return (r AND CMD_ERRORS_MASK))"
  "(\<And>x. masked (f x)) \<Longrightarrow> masked (m \<bind> f)"
  "masked m1 \<Longrightarrow> masked m2 \<Longrightarrow> masked (if b then m1 else m2)"
  by (auto simp: masked_def and.assoc split: prod.split)

lemma masked_op_cond_response: "masked (cmd_response bus 0x29020000 arg)"
proof -
  have "masked (do { r \<leftarrow> get32 bus EMMC_RESP0; State_Monad.return (r AND CMD_ERRORS_MASK) })"
    by (intro masked_intros)
  then show ?thesis unfolding cmd_response_def by (simp add: command_defs)
qed

lemma masked_send_op_cond: "masked (send_cmd bus 0x29020000 arg)"
  unfolding send_cmd_def by (intro masked_intros masked_op_cond_response)

text \<open>
  The special treatment of \<open>CMD_SEND_OP_COND\<close> in \<open>sd_cmd\<close> is dead code. The bit that marks
  application commands is part of that constant and has been cleared when the code compares with it,
  so neither the one-second pause nor the return of the whole response happens: the caller
  gets the card's operating conditions cut down to the bits of the error mask.
\<close>

theorem sd_cmd_op_cond_masked:
  "fst (run_state (sd_cmd bus CMD_SEND_OP_COND arg) s) AND NOT CMD_ERRORS_MASK = 0"
proof -
  have c: "CMD_SEND_OP_COND AND NOT CMD_NEED_APP = 0x29020000" by (simp add: command_defs)
  have n: "CMD_SEND_OP_COND AND CMD_NEED_APP \<noteq> 0" by (simp add: command_defs)
  have "masked (sd_cmd bus CMD_SEND_OP_COND arg)"
    by (subst sd_cmd.simps) (unfold c if_P[OF n], intro masked_intros masked_send_op_cond)
  then show ?thesis by (simp add: masked_def)
qed

text \<open>What keeps the last loop going, as an induction on the partial function.\<close>

lemma read_scr_diverges:
  assumes "silent (hw s)" "r < 2"
    and "\<And>h. silent h \<Longrightarrow> fst (bus_read bus h EMMC_STATUS) AND SR_READ_AVAILABLE = 0
          \<and> silent (snd (bus_read bus h EMMC_STATUS))"
    and "\<And>h. silent h \<Longrightarrow> silent (bus_wait bus h 1000)"
  shows "read_scr bus r s = None"
proof -
  have "\<not> (b = bus \<and> n < 2 \<and> silent (hw t))" if "read_scr b n t = Some y" for b n t y
  proof (rule read_scr.raw_induct[OF _ that, where P = "\<lambda>b n t y. \<not> (b = bus \<and> n < 2 \<and> silent (hw t))"])
    fix L b n t y
    assume IH: "\<And>b n t y. L b n t = Some y \<Longrightarrow> \<not> (b = bus \<and> n < 2 \<and> silent (hw t))"
      and eq: "(if n < 2 then
        let (st, s1) = run_state (get32 b EMMC_STATUS) t in
        if st AND SR_READ_AVAILABLE \<noteq> 0 then
          let (w, s2) = run_state (get32 b EMMC_DATA) s1
          in L b (n + 1) (if n = 0 then s2\<lparr>sd_scr0 := w\<rparr> else s2\<lparr>sd_scr1 := w\<rparr>)
        else L b n (snd (run_state (wait_msec b 1) s1))
      else Some t) = Some y"
    show "\<not> (b = bus \<and> n < 2 \<and> silent (hw t))"
    proof
      assume a: "b = bus \<and> n < 2 \<and> silent (hw t)"
      let ?t = "t\<lparr>hw := bus_wait bus (snd (bus_read bus (hw t) EMMC_STATUS)) 1000\<rparr>"
      have "L bus n ?t = Some y" using eq a assms(3)[of "hw t"] by (simp add: run_simps)
      from IH[OF this] show False using a assms(3,4) by simp
    qed
  qed
  then show ?thesis using assms(1,2) by (metis option.exhaust)
qed

text \<open>
  Waiting for the card's configuration register has no timeout. The counter the loop tests is
  never changed, so when the controller never has data available \<open>sd_init\<close> does not return, where
  the code after the loop means to report a timeout.
\<close>

theorem sd_init_hangs:
  assumes "run_state (sd_init_to_scr bus) s = (Inr ccs, s1)" "silent (hw s1)"
    and "\<And>h. silent h \<Longrightarrow> fst (bus_read bus h EMMC_STATUS) AND SR_READ_AVAILABLE = 0
          \<and> silent (snd (bus_read bus h EMMC_STATUS))"
    and "\<And>h. silent h \<Longrightarrow> silent (bus_wait bus h 1000)"
  shows "sd_init bus s = None"
  using read_scr_diverges[of silent s1 0 bus] assms by (simp add: sd_init_def)

theorem sd_init_hangs_witness: "sd_init ready_bus stuck_sd = None"
proof -
  obtain s1 where "run_state (sd_init_to_scr ready_bus) stuck_sd = (Inr 0, s1)"
    using ready_init by blast
  then show ?thesis
    by (rule sd_init_hangs [where silent = "\<lambda>_. True"])
       (simp_all add: ready_bus_def ready_regs_simps)
qed

end
