(* ===== verification/Sd_Host.thy ===== *)
theory Sd_Host
  imports Sd_Init
begin

text \<open>
  What a controller and card do while \<open>sd_init\<close> of \<open>src/pi-src/bzt-sd.c\<close> sets them up: \<open>sd_host\<close> extends
  \<open>emmc_host\<close>, whose laws are about transfers, by the clock and reset bits, the commands of the
  identification and the card's configuration register. Here too are the driver's waits and commands
  on such a controller.
\<close>

section \<open>The protocol of the set-up\<close>

text \<open>
  What the controller remembers outside of transfers: the clock control last written, the interrupts
  still to come, the response of the last command, how many more times the card answers
  \<open>CMD_SEND_OP_COND\<close> with "busy", and the words of the configuration register not yet read.
\<close>

record ctl_state =
  ctl :: u32
  due :: u32
  resp :: u32
  tries :: nat
  scr_left :: nat

definition quiet_to ::
  "('h \<Rightarrow> xfer) \<Rightarrow> ('h \<Rightarrow> bool) \<Rightarrow> ('h \<Rightarrow> u32 \<Rightarrow> bytes) \<Rightarrow> 'h \<Rightarrow> 'h \<Rightarrow> bool" where
  "quiet_to phase ok disk h h' \<longleftrightarrow> ok h' \<and> phase h' = Quiet \<and> disk h' = disk h"

text \<open>The registers the code reads and writes on the way, and the commands without their marker bit.\<close>

definition setup_reads :: "u32 set" where
  "setup_reads = {EMMC_STATUS, EMMC_INTERRUPT, EMMC_RESP0, EMMC_RESP1, EMMC_RESP2, EMMC_RESP3,
     EMMC_CONTROL0, EMMC_CONTROL1, EMMC_SLOTISR_VER, GPFSEL4, GPFSEL5, GPHEN1}"

definition setup_writes :: "u32 set" where
  "setup_writes = {EMMC_ARG1, EMMC_BLKSIZECNT, EMMC_CONTROL0, EMMC_INT_EN, EMMC_INT_MASK,
     GPFSEL4, GPFSEL5, GPHEN1, GPPUD, GPPUDCLK1}"

definition app_op_cond :: u32 where "app_op_cond = 0x29020000"
definition app_send_scr :: u32 where "app_send_scr = 0x33220010"
definition app_bus_width :: u32 where "app_bus_width = 0x06020000"

definition setup_cmds :: "u32 set" where
  "setup_cmds = {CMD_GO_IDLE, CMD_SEND_IF_COND, CMD_APP_CMD, CMD_APP_CMD OR CMD_RSPNS_48, app_op_cond,
     CMD_ALL_SEND_CID, CMD_SEND_REL_ADDR, CMD_CARD_SELECT, app_send_scr, app_bus_width}"

text \<open>Issuing a command: the interrupts it brings, and its effect on the counters.\<close>

definition asked :: "u32 \<Rightarrow> ctl_state \<Rightarrow> u32 \<Rightarrow> ctl_state" where
  "asked code g r = g\<lparr>
     due := (if code = app_send_scr then INT_CMD_DONE OR INT_READ_RDY else INT_CMD_DONE), resp := r,
     tries := (if code = app_op_cond then tries g - 1 else tries g),
     scr_left := (if code = app_send_scr then 2 else scr_left g)\<rparr>"

text \<open>
  The responses the code tests: the card accepts application commands, reports no error with its
  address, and once it has come up tells its voltage window and its addressing mode.
\<close>

definition good_response :: "bool \<Rightarrow> u32 \<Rightarrow> ctl_state \<Rightarrow> u32 \<Rightarrow> bool" where
  "good_response ccs code g r \<longleftrightarrow>
     (code \<noteq> CMD_APP_CMD OR CMD_RSPNS_48 \<or> r AND SR_APP_CMD \<noteq> 0)
   \<and> (code \<noteq> CMD_SEND_REL_ADDR \<or> r AND 0xe004 = 0)
   \<and> (code \<noteq> app_op_cond \<or>
       (if tries g = 0
        then r AND ACMD41_CMD_COMPLETE \<noteq> 0 \<and> r AND (ACMD41_VOLTAGE AND CMD_ERRORS_MASK) \<noteq> 0
          \<and> (r AND ACMD41_CMD_CCS \<noteq> 0 \<longleftrightarrow> ccs)
        else r AND ACMD41_CMD_COMPLETE = 0))"

locale sd_host = emmc_host bus phase disk arg1 late ok sect ccs good
  for bus :: "'h bus"
    and phase :: "'h \<Rightarrow> xfer"
    and disk :: "'h \<Rightarrow> u32 \<Rightarrow> bytes"
    and arg1 :: "'h \<Rightarrow> u32"
    and late :: "'h \<Rightarrow> nat"
    and ok :: "'h \<Rightarrow> bool"
    and sect :: "u32 \<Rightarrow> u32"
    and ccs :: bool
    and good :: "u32 \<Rightarrow> bool" +
  fixes cs :: "'h \<Rightarrow> ctl_state"
  assumes late_small: "ok h \<Longrightarrow> late h < 10000"
    and long_wait: "ok h \<Longrightarrow> 0 < late h \<Longrightarrow> late (bus_wait bus h 10000) < late h"
    and wait_cs: "ok h \<Longrightarrow> phase h = Quiet \<Longrightarrow> cs (bus_wait bus h us) = cs h"
    and spin_law: "ok h \<Longrightarrow> phase h = Quiet \<Longrightarrow>
        quiet_to phase ok disk h (bus_spin bus h n) \<and> cs (bus_spin bus h n) = cs h"
    and setup_read: "ok h \<Longrightarrow> phase h = Quiet \<Longrightarrow> a \<in> setup_reads \<Longrightarrow>
        quiet_to phase ok disk h (snd (bus_read bus h a)) \<and> cs (snd (bus_read bus h a)) = cs h
        \<and> late (snd (bus_read bus h a)) \<le> late h"
    and setup_write: "ok h \<Longrightarrow> phase h = Quiet \<Longrightarrow> a \<in> setup_writes \<Longrightarrow>
        quiet_to phase ok disk h (bus_write bus h a v) \<and> cs (bus_write bus h a v) = cs h"
    and control_write: "ok h \<Longrightarrow> phase h = Quiet \<Longrightarrow>
        quiet_to phase ok disk h (bus_write bus h EMMC_CONTROL1 v)
        \<and> cs (bus_write bus h EMMC_CONTROL1 v) = (cs h)\<lparr>ctl := v\<rparr>"
    and reset_law: "ok h \<Longrightarrow> phase h = Quiet \<Longrightarrow>
        fst (bus_read bus h EMMC_CONTROL1) AND C1_SRST_HC \<noteq> 0 \<Longrightarrow>
        0 < late (snd (bus_read bus h EMMC_CONTROL1))"
    and stable_law: "ok h \<Longrightarrow> phase h = Quiet \<Longrightarrow> ctl (cs h) AND C1_CLK_EN \<noteq> 0 \<Longrightarrow>
        fst (bus_read bus h EMMC_CONTROL1) AND C1_CLK_STABLE = 0 \<Longrightarrow>
        0 < late (snd (bus_read bus h EMMC_CONTROL1))"
    and ask_law: "ok h \<Longrightarrow> phase h = Quiet \<Longrightarrow> code \<in> setup_cmds \<Longrightarrow>
        quiet_to phase ok disk h (bus_write bus h EMMC_CMDTM code)
        \<and> cs (bus_write bus h EMMC_CMDTM code) = asked code (cs h) (resp (cs (bus_write bus h EMMC_CMDTM code)))
        \<and> good_response ccs code (cs h) (resp (cs (bus_write bus h EMMC_CMDTM code)))"
    and due_law: "ok h \<Longrightarrow> phase h = Quiet \<Longrightarrow> m = INT_CMD_DONE \<or> m = INT_READ_RDY \<Longrightarrow>
        due (cs h) AND m \<noteq> 0 \<Longrightarrow> fst (bus_read bus h EMMC_INTERRUPT) AND m = 0 \<Longrightarrow> 0 < late h"
    and ack_cs: "ok h \<Longrightarrow> phase h = Quiet \<Longrightarrow>
        cs (bus_write bus h EMMC_INTERRUPT v) = (cs h)\<lparr>due := due (cs h) AND NOT v\<rparr>"
    and resp_law: "ok h \<Longrightarrow> phase h = Quiet \<Longrightarrow> due (cs h) AND INT_CMD_DONE = 0 \<Longrightarrow>
        fst (bus_read bus h EMMC_RESP0) = resp (cs h)"
    and scr_ready: "ok h \<Longrightarrow> phase h = Quiet \<Longrightarrow> 0 < scr_left (cs h) \<Longrightarrow>
        fst (bus_read bus h EMMC_STATUS) AND SR_READ_AVAILABLE = 0 \<Longrightarrow>
        0 < late (snd (bus_read bus h EMMC_STATUS))"
    and scr_data: "ok h \<Longrightarrow> phase h = Quiet \<Longrightarrow> 0 < scr_left (cs h) \<Longrightarrow>
        quiet_to phase ok disk h (snd (bus_read bus h EMMC_DATA))
        \<and> cs (snd (bus_read bus h EMMC_DATA)) = (cs h)\<lparr>scr_left := scr_left (cs h) - 1\<rparr>"
begin

text \<open>States that differ in the hardware only, at rest with the same disk, and moreover with the same \<open>cs\<close>.\<close>

definition resting :: "'h sd \<Rightarrow> bool" where
  "resting s \<longleftrightarrow> ok (hw s) \<and> phase (hw s) = Quiet"

definition moved :: "'h sd \<Rightarrow> 'h sd \<Rightarrow> bool" where
  "moved s s' \<longleftrightarrow> (\<exists>h. s' = s\<lparr>hw := h\<rparr> \<and> quiet_to phase ok disk (hw s) h)"

definition calm :: "'h sd \<Rightarrow> 'h sd \<Rightarrow> bool" where
  "calm s s' \<longleftrightarrow> moved s s' \<and> cs (hw s') = cs (hw s)"

lemma moved_trans: "moved s t \<Longrightarrow> moved t u \<Longrightarrow> moved s u"
  by (auto simp: moved_def quiet_to_def)

lemma moved_upd: "quiet_to phase ok disk (hw s) h \<Longrightarrow> moved s (s\<lparr>hw := h\<rparr>)"
  by (auto simp: moved_def)

lemma moved_resting: "moved s s' \<Longrightarrow> resting s'"
  by (auto simp: moved_def quiet_to_def resting_def)

lemma moved_refl: "resting s \<Longrightarrow> moved s s"
  by (auto simp: moved_def quiet_to_def resting_def intro!: exI[of _ "hw s"])

lemma calm_refl: "resting s \<Longrightarrow> calm s s"
  by (simp add: calm_def moved_refl)

lemma calm_trans: "calm s t \<Longrightarrow> calm t u \<Longrightarrow> calm s u"
  by (auto simp: calm_def intro: moved_trans)

lemma calm_resting: "calm s t \<Longrightarrow> resting t"
  by (auto simp: calm_def intro: moved_resting)

lemma calm_cs: "calm s t \<Longrightarrow> cs (hw t) = cs (hw s)"
  by (simp add: calm_def)

lemma calm_steps:
  assumes "resting s"
  shows "a \<in> setup_reads \<Longrightarrow> calm s (s\<lparr>hw := snd (bus_read bus (hw s) a)\<rparr>)"
    "a \<in> setup_writes \<Longrightarrow> calm s (s\<lparr>hw := bus_write bus (hw s) a v\<rparr>)"
    "calm s (s\<lparr>hw := bus_wait bus (hw s) us\<rparr>)" "calm s (s\<lparr>hw := bus_spin bus (hw s) n\<rparr>)"
proof -
  have r: "ok (hw s)" "phase (hw s) = Quiet" using assms by (simp_all add: resting_def)
  show "a \<in> setup_reads \<Longrightarrow> calm s (s\<lparr>hw := snd (bus_read bus (hw s) a)\<rparr>)"
    using setup_read[OF r] by (simp add: calm_def moved_upd)
  show "a \<in> setup_writes \<Longrightarrow> calm s (s\<lparr>hw := bus_write bus (hw s) a v\<rparr>)"
    using setup_write[OF r] by (simp add: calm_def moved_upd)
  show "calm s (s\<lparr>hw := bus_wait bus (hw s) us\<rparr>)"
    using wait_law[OF r(1)] wait_cs[OF r] r(2) by (simp add: calm_def moved_upd quiet_to_def)
  show "calm s (s\<lparr>hw := bus_spin bus (hw s) n\<rparr>)"
    using spin_law[OF r] by (simp add: calm_def moved_upd)
qed

lemma calm_runs:
  assumes "resting s"
  shows "a \<in> setup_reads \<Longrightarrow> calm s (snd (run_state (get32 bus a) s))"
    "a \<in> setup_writes \<Longrightarrow> calm s (snd (run_state (put32 bus a v) s))"
    "calm s (snd (run_state (wait_msec bus n) s))" "calm s (snd (run_state (wait_cycles bus n) s))"
  using calm_steps[OF assms] by (simp_all add: run_simps)

lemma calmE:
  assumes "calm s t"
  obtains h where "t = s\<lparr>hw := h\<rparr>" "quiet_to phase ok disk (hw s) h" "cs h = cs (hw s)"
  using assms by (auto simp: calm_def moved_def)

lemma calm_disk: "calm s t \<Longrightarrow> disk (hw t) = disk (hw s)"
  by (auto elim!: calmE simp: quiet_to_def)

text \<open>A polling loop whose flag depends on \<open>late\<close> ends in time.\<close>

lemma poll_up:
  assumes "resting s" "ms = 1 \<or> ms = 10" "10000 \<le> n"
    and "\<And>t. calm s t \<Longrightarrow> calm s (snd (run_state cond t)) \<and> late (hw (snd (run_state cond t))) \<le> late (hw t)"
    and "\<And>t. calm s t \<Longrightarrow> fst (run_state cond t) \<Longrightarrow> 0 < late (hw (snd (run_state cond t)))"
  shows "\<exists>c s'. run_state (poll n cond (wait_msec bus ms)) s = (c, s') \<and> 0 < c \<and> c \<le> int n \<and> calm s s'"
proof -
  let ?body = "wait_msec bus ms"
  have body: "calm s (snd (run_state ?body t)) \<and> late (hw (snd (run_state ?body t))) < late (hw t)"
    if "calm s t" "0 < late (hw t)" for t
  proof -
    have t: "ok (hw t)" "phase (hw t) = Quiet" using calm_resting[OF that(1)] by (simp_all add: resting_def)
    have "late (bus_wait bus (hw t) (ms * 1000)) < late (hw t)"
      using assms(2) wait_progress[OF t(1) that(2)] long_wait[OF t(1) that(2)] by auto
    then show ?thesis
      using calm_trans[OF that(1) calm_runs(3)[OF calm_resting[OF that(1)]], of ms] by (simp add: run_simps)
  qed
  have "late (hw s) < n" using late_small[of "hw s"] assms(1,3) by (simp add: resting_def)
  then have p: "0 < fst (run_state (poll n cond ?body) s) \<and> calm s (snd (run_state (poll n cond ?body) s))"
    using poll_in_time[of "calm s" s "\<lambda>t. late (hw t)" n cond ?body] calm_refl[OF assms(1)] assms(4,5) body
    by blast
  moreover have "fst (run_state (poll n cond ?body) s) \<le> int n" by (rule poll_le)
  ultimately show ?thesis by (cases "run_state (poll n cond ?body) s") auto
qed

lemma restingD: "resting s \<Longrightarrow> ok (hw s)" "resting s \<Longrightarrow> phase (hw s) = Quiet"
  by (simp_all add: resting_def)

text \<open>Reading one register in a loop condition.\<close>

lemma calm_read_late:
  assumes "calm s t" "a \<in> setup_reads"
  shows "calm s (t\<lparr>hw := snd (bus_read bus (hw t) a)\<rparr>)" "late (snd (bus_read bus (hw t) a)) \<le> late (hw t)"
  using calm_trans[OF assms(1) calm_steps(1)[OF calm_resting[OF assms(1)] assms(2)]]
    setup_read[OF restingD[OF calm_resting[OF assms(1)]] assms(2)] by simp_all

lemma reads_mem:
  "EMMC_STATUS \<in> setup_reads" "EMMC_INTERRUPT \<in> setup_reads" "EMMC_RESP0 \<in> setup_reads"
  "EMMC_RESP1 \<in> setup_reads" "EMMC_RESP2 \<in> setup_reads" "EMMC_RESP3 \<in> setup_reads"
  "EMMC_CONTROL0 \<in> setup_reads" "EMMC_CONTROL1 \<in> setup_reads" "EMMC_SLOTISR_VER \<in> setup_reads"
  "GPFSEL4 \<in> setup_reads" "GPFSEL5 \<in> setup_reads" "GPHEN1 \<in> setup_reads"
  by (simp_all add: setup_reads_def)

lemma writes_mem:
  "EMMC_ARG1 \<in> setup_writes" "EMMC_BLKSIZECNT \<in> setup_writes" "EMMC_CONTROL0 \<in> setup_writes"
  "EMMC_INT_EN \<in> setup_writes" "EMMC_INT_MASK \<in> setup_writes" "GPFSEL4 \<in> setup_writes"
  "GPFSEL5 \<in> setup_writes" "GPHEN1 \<in> setup_writes" "GPPUD \<in> setup_writes" "GPPUDCLK1 \<in> setup_writes"
  by (simp_all add: setup_writes_def)

lemma sd_status_up:
  assumes "resting s" "m = m AND busy_bits"
  shows "\<exists>s'. run_state (sd_status bus m) s = (SD_OK, s') \<and> calm s s'"
proof -
  let ?cond = "busy bus m"
  have mb: "v AND busy_bits \<noteq> 0" if "v AND m \<noteq> 0" for v
  proof
    assume "v AND busy_bits = 0"
    moreover have "v AND m = (v AND busy_bits) AND m" by (subst assms(2)) (simp add: ac_simps)
    ultimately show False using that by simp
  qed
  have cond: "calm s (snd (run_state ?cond t)) \<and> late (hw (snd (run_state ?cond t))) \<le> late (hw t)"
    if "calm s t" for t
    using calm_read_late[OF that reads_mem(1)]
      calm_read_late[OF calm_read_late(1)[OF that reads_mem(1)] reads_mem(2)]
    by (simp add: busy_def run_simps)
  have late: "0 < late (hw (snd (run_state ?cond t)))" if "calm s t" "fst (run_state ?cond t)" for t
  proof -
    note n1 = calm_read_late(1)[OF that(1) reads_mem(1)]
    have "fst (bus_read bus (hw t) EMMC_STATUS) AND m \<noteq> 0"
      using that(2) by (simp add: busy_def run_simps split: if_splits)
    then have "0 < late (snd (bus_read bus (hw t) EMMC_STATUS))"
      using status_law[OF restingD[OF calm_resting[OF that(1)]]] mb by simp
    then show ?thesis
      using error_read_late[OF restingD(1)[OF calm_resting[OF n1]]] by (simp add: busy_def run_simps)
  qed
  obtain c t where t: "run_state (poll 1000000 ?cond (wait_msec bus 1)) s = (c, t)" "0 < c" "calm s t"
    using poll_up[where cond = ?cond and ms = 1 and n = 1000000, OF assms(1) _ _ cond late] by auto
  then show ?thesis
    using no_error_bits(1)[OF restingD(1)[OF calm_resting[OF t(3)]]] calm_read_late(1)[OF t(3) reads_mem(2)]
    by (simp add: sd_status_def run_simps)
qed

text \<open>Waiting for an interrupt that is due.\<close>

lemma sd_int_up:
  assumes "resting s" "due (cs (hw s)) AND m \<noteq> 0" "m = INT_CMD_DONE \<or> m = INT_READ_RDY"
  shows "\<exists>h. run_state (sd_int bus m) s = (0, s\<lparr>hw := h\<rparr>) \<and> quiet_to phase ok disk (hw s) h
    \<and> cs h = (cs (hw s))\<lparr>due := due (cs (hw s)) AND NOT m\<rparr>"
proof -
  let ?cond = "no_interrupt bus (m OR INT_ERROR_MASK)"
  have cond: "calm s (snd (run_state ?cond t)) \<and> late (hw (snd (run_state ?cond t))) \<le> late (hw t)"
    if "calm s t" for t
    using calm_read_late[OF that reads_mem(2)] by (simp add: no_interrupt_def run_simps)
  have late: "0 < late (hw (snd (run_state ?cond t)))" if "calm s t" "fst (run_state ?cond t)" for t
  proof -
    have "fst (bus_read bus (hw t) EMMC_INTERRUPT) AND m = 0"
      using that(2) by (simp add: no_interrupt_def run_simps bit.conj_disj_distrib or_eq_0_iff)
    then have "0 < late (hw t)"
      using due_law[OF restingD[OF calm_resting[OF that(1)]] assms(3)] calm_cs[OF that(1)] assms(2) by simp
    then show ?thesis
      using error_read_late[OF restingD(1)[OF calm_resting[OF that(1)]]] by (simp add: no_interrupt_def run_simps)
  qed
  obtain c t where t: "run_state (poll 1000000 ?cond (wait_msec bus 1)) s = (c, t)" "0 < c" "calm s t"
    using poll_up[where cond = ?cond and ms = 1 and n = 1000000, OF assms(1) _ _ cond late] by auto
  let ?h1 = "snd (bus_read bus (hw t) EMMC_INTERRUPT)"
  note c1 = calm_read_late(1)[OF t(3) reads_mem(2)]
  have h1: "ok ?h1" "phase ?h1 = Quiet" "cs ?h1 = cs (hw s)"
    using restingD[OF calm_resting[OF c1]] calm_cs[OF c1] by simp_all
  have run: "run_state (sd_int bus m) s = (0, t\<lparr>hw := bus_write bus ?h1 EMMC_INTERRUPT m\<rparr>)"
    using t(1,2) no_error_bits[OF restingD(1)[OF calm_resting[OF t(3)]]] by (simp add: sd_int_def run_simps)
  obtain h0 where "t = s\<lparr>hw := h0\<rparr>" using t(3) by (rule calmE)
  moreover have "disk ?h1 = disk (hw s)" using calm_disk[OF c1] by simp
  ultimately show ?thesis
    using run quiet_ack[OF h1(1,2), of m] ack_cs[OF h1(1,2), of m] h1(3) by (auto simp: quiet_to_def)
qed

text \<open>
  Issuing a set-up command ends after its interrupt, with the response in place; \<open>answered\<close> is what
  holds then.
\<close>

definition answered :: "u32 \<Rightarrow> 'h \<Rightarrow> 'h \<Rightarrow> bool" where
  "answered code h h' \<longleftrightarrow> quiet_to phase ok disk h h'
     \<and> due (cs h') = (if code = app_send_scr then INT_READ_RDY else 0)
     \<and> tries (cs h') = (if code = app_op_cond then tries (cs h) - 1 else tries (cs h))
     \<and> (code = app_send_scr \<longrightarrow> scr_left (cs h') = 2)
     \<and> good_response ccs code (cs h) (resp (cs h'))"

lemma due_rest:
  "(INT_CMD_DONE OR INT_READ_RDY) AND INT_CMD_DONE \<noteq> 0" "INT_CMD_DONE AND INT_CMD_DONE \<noteq> 0"
  "(INT_CMD_DONE OR INT_READ_RDY) AND NOT INT_CMD_DONE = INT_READ_RDY"
  "INT_CMD_DONE AND NOT INT_CMD_DONE = 0" "INT_READ_RDY AND INT_CMD_DONE = 0" "INT_READ_RDY \<noteq> 0"
  "INT_CMD_DONE \<noteq> 0"
  by (simp_all add: INT_CMD_DONE_def INT_READ_RDY_def)

lemma cmd_inhibit: "SR_CMD_INHIBIT = SR_CMD_INHIBIT AND busy_bits" "SR_DAT_INHIBIT = SR_DAT_INHIBIT AND busy_bits"
  by (simp_all add: busy_bits_def SR_CMD_INHIBIT_def SR_DAT_INHIBIT_def SR_WRITE_AVAILABLE_def)

lemma good_response_tries:
  "tries g' = tries g \<Longrightarrow> good_response c code g' r = good_response c code g r"
  by (simp add: good_response_def)

lemma send_up:
  assumes "resting s" "code \<in> setup_cmds"
  shows "\<exists>h. run_state (send_cmd bus code arg) s = run_state (cmd_response bus code arg) (s\<lparr>hw := h\<rparr>)
    \<and> answered code (hw s) h"
proof -
  obtain s1 where s1: "run_state (sd_status bus SR_CMD_INHIBIT) s = (SD_OK, s1)" "calm s s1"
    using sd_status_up[OF assms(1) cmd_inhibit(1)] by blast
  define i where "i = fst (bus_read bus (hw s1) EMMC_INTERRUPT)"
  define h2 where "h2 = snd (bus_read bus (hw s1) EMMC_INTERRUPT)"
  have c2: "calm s (s1\<lparr>hw := h2\<rparr>)"
    using calm_read_late(1)[OF s1(2) reads_mem(2)] by (simp add: h2_def)
  have h2: "ok h2" "phase h2 = Quiet" "disk h2 = disk (hw s)" "cs h2 = cs (hw s)"
    using restingD[OF calm_resting[OF c2]] calm_disk[OF c2] calm_cs[OF c2] by simp_all
  define h3 where "h3 = bus_write bus h2 EMMC_INTERRUPT i"
  have h3: "ok h3" "phase h3 = Quiet" "disk h3 = disk (hw s)" "tries (cs h3) = tries (cs (hw s))"
    using quiet_ack[OF h2(1,2), of i] ack_cs[OF h2(1,2), of i] h2(3,4) by (simp_all add: h3_def)
  define h4 where "h4 = bus_write bus h3 EMMC_ARG1 arg"
  have h4: "ok h4" "phase h4 = Quiet" "disk h4 = disk (hw s)" "tries (cs h4) = tries (cs (hw s))"
    using setup_write[OF h3(1,2) writes_mem(1), of arg] h3(3,4) by (simp_all add: h4_def quiet_to_def)
  define h5 where "h5 = bus_write bus h4 EMMC_CMDTM code"
  have h5: "ok h5" "phase h5 = Quiet" "disk h5 = disk (hw s)" "cs h5 = asked code (cs h4) (resp (cs h5))"
    "good_response ccs code (cs (hw s)) (resp (cs h5))"
    using ask_law[OF h4(1,2) assms(2)] h4(3) good_response_tries[OF h4(4)]
    by (simp_all add: h5_def quiet_to_def)
  let ?w = "if code = CMD_SEND_OP_COND then wait_msec bus 1000
    else if code = CMD_SEND_IF_COND \<or> code = CMD_APP_CMD then wait_msec bus 100 else State_Monad.return ()"
  have r5: "resting (s1\<lparr>hw := h5\<rparr>)" using h5(1,2) by (simp add: resting_def)
  obtain s6 where w6: "run_state ?w (s1\<lparr>hw := h5\<rparr>) = ((), s6)" by (cases "run_state ?w (s1\<lparr>hw := h5\<rparr>)") auto
  have c6: "calm (s1\<lparr>hw := h5\<rparr>) s6"
    using w6 calm_refl[OF r5] calm_runs(3)[OF r5, of 1000] calm_runs(3)[OF r5, of 100]
    by (auto split: if_splits)
  then have g6: "cs (hw s6) = asked code (cs h4) (resp (cs h5))" "disk (hw s6) = disk (hw s)"
    using calm_cs[OF c6] h5(3,4) calm_disk[OF c6] by simp_all
  have "due (cs (hw s6)) AND INT_CMD_DONE \<noteq> 0" by (simp add: g6 asked_def due_rest)
  then obtain h7 where h7: "run_state (sd_int bus INT_CMD_DONE) s6 = (0, s6\<lparr>hw := h7\<rparr>)"
    "quiet_to phase ok disk (hw s6) h7"
    "cs h7 = (cs (hw s6))\<lparr>due := due (cs (hw s6)) AND NOT INT_CMD_DONE\<rparr>"
    using sd_int_up[OF calm_resting[OF c6]] by blast
  obtain h6 where "s6 = s1\<lparr>hw := h6\<rparr>" using c6 by (auto elim!: calmE)
  moreover obtain h1 where "s1 = s\<lparr>hw := h1\<rparr>" using s1(2) by (rule calmE)
  ultimately have "run_state (send_cmd bus code arg) s = run_state (cmd_response bus code arg) (s\<lparr>hw := h7\<rparr>)"
    using s1(1) w6 h7(1)
    by (simp add: send_cmd_def run_simps SD_OK_def h5_def h4_def h3_def h2_def i_def del: if_split)
  moreover have "answered code (hw s) h7"
    using h7(2,3) h5(5) h4(4) by (simp add: answered_def g6 asked_def due_rest quiet_to_def)
  ultimately show ?thesis by blast
qed

lemma answeredD:
  "answered code h0 h \<Longrightarrow> ok h" "answered code h0 h \<Longrightarrow> phase h = Quiet"
  "answered code h0 h \<Longrightarrow> disk h = disk h0" "answered code h0 h \<Longrightarrow> quiet_to phase ok disk h0 h"
  "answered code h0 h \<Longrightarrow> due (cs h) AND INT_CMD_DONE = 0"
  by (auto simp: answered_def quiet_to_def due_rest)

lemma answered_calm: "answered code h0 (hw s) \<Longrightarrow> calm s t \<Longrightarrow> answered code h0 (hw t)"
  by (auto simp: answered_def quiet_to_def elim!: calmE)

lemma answered_read:
  assumes "answered code h0 h" "a \<in> setup_reads"
  shows "answered code h0 (snd (bus_read bus h a))" "cs (snd (bus_read bus h a)) = cs h"
  using setup_read[OF answeredD(1,2)[OF assms(1)] assms(2)] assms(1)
  by (auto simp: answered_def quiet_to_def)

lemma rca_error_bits:
  assumes "r AND 0xe004 = (0 :: u32)"
  shows "((r AND 0x1fff) OR push_bit 6 (r AND 0x2000) OR push_bit 8 (r AND 0x4000) OR push_bit 8 (r AND 0x8000))
    AND CMD_ERRORS_MASK = 0"
proof -
  have sub: "r AND m = 0" if "m AND 0xe004 = m" for m
  proof -
    have "r AND m = (r AND 0xe004) AND m" by (subst that[symmetric]) (simp add: ac_simps)
    then show ?thesis by (simp add: assms)
  qed
  have z: "r AND 0x2000 = 0" "r AND 0x4000 = 0" "r AND 0x8000 = 0" "r AND 4 = 0"
    by (rule sub; simp)+
  have "(r AND 0x1fff) AND CMD_ERRORS_MASK = r AND 4" by (simp add: CMD_ERRORS_MASK_def and.assoc)
  then show ?thesis by (simp add: z)
qed

lemma response_up:
  assumes "answered code h0 (hw s)" "sd_err s = 0"
  shows "\<exists>v h. run_state (cmd_response bus code arg) s = (v, s\<lparr>hw := h\<rparr>) \<and> answered code h0 h
    \<and> (code = CMD_APP_CMD OR CMD_RSPNS_48 \<longrightarrow> v \<noteq> 0)
    \<and> (code = app_op_cond \<longrightarrow> v = resp (cs h) AND CMD_ERRORS_MASK)"
proof -
  let ?h1 = "snd (bus_read bus (hw s) EMMC_RESP0)" and ?r = "resp (cs (hw s))"
  have r: "fst (bus_read bus (hw s) EMMC_RESP0) = ?r"
    using resp_law[OF answeredD(1,2,5)[OF assms(1)]] .
  note a1 = answered_read[OF assms(1) reads_mem(3)]
  note a2 = answered_read[OF a1(1) reads_mem(6)]
  note a3 = answered_read[OF a2(1) reads_mem(5)]
  note a4 = answered_read[OF a3(1) reads_mem(4)]
  have g: "good_response ccs code (cs h0) ?r" using assms(1) by (simp add: answered_def)
  have e: "s\<lparr>hw := h, sd_err := 0\<rparr> = s\<lparr>hw := h\<rparr>" for h using assms(2) by simp
  show ?thesis
  proof (cases "code = CMD_ALL_SEND_CID")
    case True
    let ?h4 = "snd (bus_read bus (snd (bus_read bus (snd (bus_read bus ?h1 EMMC_RESP3)) EMMC_RESP2)) EMMC_RESP1)"
    have "\<exists>v. run_state (cmd_response bus code arg) s = (v, s\<lparr>hw := ?h4\<rparr>)"
      using True by (simp add: cmd_response_def run_simps command_defs)
    then show ?thesis
      using a4(1) True by (auto simp: command_defs app_op_cond_def intro!: exI[of _ ?h4])
  next
    case not_cid: False
    show ?thesis
    proof (cases "code = CMD_SEND_REL_ADDR")
      case True
      then have "?r AND 0xe004 = 0" using g by (simp add: good_response_def)
      note z = rca_error_bits[OF this]
      have "run_state (cmd_response bus code arg) s = (?r AND CMD_RCA_MASK, s\<lparr>hw := ?h1\<rparr>)"
        using True z e by (simp add: cmd_response_def run_simps command_defs[unfolded CMD_ERRORS_MASK_def] r)
      then show ?thesis
        using a1(1) True by (auto simp: command_defs app_op_cond_def intro!: exI[of _ ?h1])
    next
      case False
      obtain v where v: "run_state (cmd_response bus code arg) s = (v, s\<lparr>hw := ?h1\<rparr>)"
        "v = (if code = CMD_GO_IDLE \<or> code = CMD_APP_CMD then 0
              else if code = CMD_APP_CMD OR CMD_RSPNS_48 then ?r AND SR_APP_CMD
              else if code = CMD_SEND_OP_COND then ?r
              else if code = CMD_SEND_IF_COND then if ?r = arg then SD_OK else SD_ERROR
              else ?r AND CMD_ERRORS_MASK)"
        using not_cid False r by (simp add: cmd_response_def run_simps)
      show ?thesis
      proof (intro exI conjI)
        show "run_state (cmd_response bus code arg) s = (v, s\<lparr>hw := ?h1\<rparr>)" by (rule v(1))
        show "answered code h0 ?h1" by (rule a1(1))
        show "code = CMD_APP_CMD OR CMD_RSPNS_48 \<longrightarrow> v \<noteq> 0"
          using g v(2) by (auto simp: good_response_def command_defs)
        show "code = app_op_cond \<longrightarrow> v = resp (cs ?h1) AND CMD_ERRORS_MASK"
          using v(2) a1(2) by (simp add: command_defs app_op_cond_def)
      qed
    qed
  qed
qed

end

end
