(* ===== verification/Sd_Up.thy ===== *)
theory Sd_Up
  imports Sd_Host
begin

text \<open>
  Coming up: the steps of \<open>sd_init\<close> on a controller and card that keep the protocol. Each lemma says
  what one routine of \<open>Sd_Init\<close> returns there, and that the disk is as before; \<open>sd_init_up\<close> puts them
  together.
\<close>

context sd_host
begin

lemma moved_err: "resting (s\<lparr>sd_err := e\<rparr>) = resting s"
  by (simp add: resting_def)

text \<open>A command that is not an application command, and one that is.\<close>

lemma sd_cmd_up:
  assumes "resting s" "code \<in> setup_cmds" "code AND CMD_NEED_APP = 0"
  shows "\<exists>v h. run_state (sd_cmd bus code arg) s = (v, s\<lparr>sd_err := 0, hw := h\<rparr>) \<and> answered code (hw s) h
    \<and> (code = CMD_APP_CMD OR CMD_RSPNS_48 \<longrightarrow> v \<noteq> 0)
    \<and> (code = app_op_cond \<longrightarrow> v = resp (cs h) AND CMD_ERRORS_MASK)"
proof -
  let ?s = "s\<lparr>sd_err := 0\<rparr>"
  obtain h where h: "run_state (send_cmd bus code arg) ?s = run_state (cmd_response bus code arg) (?s\<lparr>hw := h\<rparr>)"
    "answered code (hw s) h"
    using send_up[of ?s code arg] assms(1,2) by (auto simp: moved_err)
  have "run_state (sd_cmd bus code arg) s = run_state (cmd_response bus code arg) (?s\<lparr>hw := h\<rparr>)"
    using h(1) assms(3) by (subst sd_cmd.simps) (simp add: run_set_err SD_OK_def)
  then show ?thesis
    using response_up[of code "hw s" "?s\<lparr>hw := h\<rparr>" arg] h(2) by auto
qed

lemma sd_cmd_app_up:
  assumes "resting s" "code \<in> {app_op_cond, app_send_scr, app_bus_width}"
  shows "\<exists>v h. run_state (sd_cmd bus (code OR CMD_NEED_APP) arg) s = (v, s\<lparr>sd_err := 0, hw := h\<rparr>)
    \<and> answered code (hw s) h \<and> (code = app_op_cond \<longrightarrow> v = resp (cs h) AND CMD_ERRORS_MASK)"
proof -
  let ?s = "s\<lparr>sd_err := 0\<rparr>" and ?app = "CMD_APP_CMD OR (if sd_rca s \<noteq> 0 then CMD_RSPNS_48 else 0)"
  have app: "?app \<in> setup_cmds" "?app AND CMD_NEED_APP = 0"
    by (auto simp: setup_cmds_def app_cmd_plain)
  have na: "?app \<noteq> app_op_cond" "?app \<noteq> app_send_scr"
    by (simp_all add: app_op_cond_def app_send_scr_def command_defs)
  obtain v h where vh: "run_state (sd_cmd bus ?app (ucast (sd_rca s))) ?s = (v, ?s\<lparr>hw := h\<rparr>)"
    "answered ?app (hw s) h" "?app = CMD_APP_CMD OR CMD_RSPNS_48 \<longrightarrow> v \<noteq> 0"
    using sd_cmd_up[of ?s, OF _ app, of "ucast (sd_rca s)"] assms(1) by (auto simp: moved_err)
  have nz: "sd_rca s \<noteq> 0 \<Longrightarrow> v \<noteq> 0" using vh(3) by simp
  have code: "(code OR CMD_NEED_APP) AND CMD_NEED_APP \<noteq> 0" "(code OR CMD_NEED_APP) AND NOT CMD_NEED_APP = code"
    "code \<in> setup_cmds"
    using assms(2) by (auto simp: CMD_NEED_APP_def app_op_cond_def app_send_scr_def app_bus_width_def setup_cmds_def)
  have rest: "resting (?s\<lparr>hw := h\<rparr>)" using answeredD(1,2)[OF vh(2)] by (simp add: resting_def)
  obtain h' where h': "run_state (send_cmd bus code arg) (?s\<lparr>hw := h\<rparr>) =
      run_state (cmd_response bus code arg) (?s\<lparr>hw := h'\<rparr>)" "answered code h h'"
    using send_up[OF rest code(3), of arg] by auto
  have a: "answered code (hw s) h'"
    using h'(2) vh(2) na good_response_tries[of "cs h" "cs (hw s)"]
    by (auto simp: answered_def quiet_to_def split: if_splits)
  have "run_state (sd_cmd bus (code OR CMD_NEED_APP) arg) s = run_state (cmd_response bus code arg) (?s\<lparr>hw := h'\<rparr>)"
    using vh(1) nz h'(1) unfolding sd_cmd.simps[of bus "code OR CMD_NEED_APP"] code(2) if_P[OF code(1)]
    by (auto simp: run_set_err SD_OK_def)
  then show ?thesis
    using response_up[of code "hw s" "?s\<lparr>hw := h'\<rparr>" arg] a by auto
qed

section \<open>The steps of sd_init\<close>

lemma calm_seq:
  assumes "calm s t" "resting t \<Longrightarrow> calm t u" shows "calm s u"
  using calm_trans[OF assms(1) assms(2)[OF calm_resting[OF assms(1)]]] .

text \<open>Programs whose whole run is calm.\<close>

definition calms :: "('h sd, 'a) state \<Rightarrow> bool" where
  "calms m \<longleftrightarrow> (\<forall>s. resting s \<longrightarrow> calm s (snd (run_state m s)))"

lemma calmsD: "calms m \<Longrightarrow> resting s \<Longrightarrow> calm s (snd (run_state m s))"
  by (simp add: calms_def)

lemma calms_intros:
  "a \<in> setup_reads \<Longrightarrow> calms (get32 bus a)" "a \<in> setup_writes \<Longrightarrow> calms (put32 bus a v)"
  "calms (wait_msec bus n)" "calms (wait_cycles bus n)" "calms (State_Monad.return x)"
  using calm_runs calm_refl by (auto simp: calms_def)

lemma calms_bind:
  assumes "calms m" "\<And>x. calms (f x)" shows "calms (m \<bind> f)"
  unfolding calms_def
proof (intro allI impI)
  fix s assume "resting s"
  then have t: "calm s (snd (run_state m s))" using assms(1) by (rule calmsD[rotated])
  have "calm (snd (run_state m s)) (snd (run_state (f (fst (run_state m s))) (snd (run_state m s))))"
    by (rule calmsD[OF assms(2) calm_resting[OF t]])
  then show "calm s (snd (run_state (m \<bind> f) s))" using t by (auto simp: split_beta intro: calm_trans)
qed

lemma calms_update: "a \<in> setup_reads \<Longrightarrow> a \<in> setup_writes \<Longrightarrow> calms (update32 bus a f)"
  unfolding update32_def by (intro calms_bind calms_intros)

lemma calms_gpio: "calms (sd_gpio bus)"
  unfolding sd_gpio_def pull_up_def
  by (intro calms_bind calms_intros calms_update reads_mem writes_mem)

text \<open>Writing the clock and reset bits.\<close>

lemma control1_up:
  assumes "resting s"
  shows "\<exists>s'. run_state (update32 bus EMMC_CONTROL1 f) s = ((), s') \<and> moved s s'
    \<and> cs (hw s') = (cs (hw s))\<lparr>ctl := f (fst (bus_read bus (hw s) EMMC_CONTROL1))\<rparr>"
proof -
  let ?h = "snd (bus_read bus (hw s) EMMC_CONTROL1)" and ?v = "f (fst (bus_read bus (hw s) EMMC_CONTROL1))"
  note r = setup_read[OF restingD[OF assms] reads_mem(8)]
  have "quiet_to phase ok disk (hw s) (bus_write bus ?h EMMC_CONTROL1 ?v)
      \<and> cs (bus_write bus ?h EMMC_CONTROL1 ?v) = (cs (hw s))\<lparr>ctl := ?v\<rparr>"
    using control_write[of ?h ?v] r by (auto simp: quiet_to_def)
  then show ?thesis by (simp add: update32_def run_simps moved_upd)
qed

definition same_counts :: "'h sd \<Rightarrow> 'h sd \<Rightarrow> bool" where
  "same_counts s s' \<longleftrightarrow> moved s s' \<and> tries (cs (hw s')) = tries (cs (hw s))"

lemma same_counts_trans: "same_counts s t \<Longrightarrow> same_counts t u \<Longrightarrow> same_counts s u"
  by (auto simp: same_counts_def intro: moved_trans)

lemma calm_same_counts: "calm s t \<Longrightarrow> same_counts s t"
  by (simp add: same_counts_def calm_def)

lemma control1_poll:
  assumes "resting s" "n = 10000"
    and "\<And>h. ok h \<Longrightarrow> phase h = Quiet \<Longrightarrow> cs h = cs (hw s) \<Longrightarrow>
      b \<longleftrightarrow> fst (bus_read bus h EMMC_CONTROL1) AND m \<noteq> 0 \<Longrightarrow> 0 < late (snd (bus_read bus h EMMC_CONTROL1))"
    and "cond = (if b then control1_bits bus m else negate (control1_bits bus m))"
  shows "\<exists>c s'. run_state (poll n cond (wait_msec bus 10)) s = (c, s') \<and> 0 < c \<and> c \<le> 10000 \<and> calm s s'"
proof -
  have run: "run_state cond t = (b \<longleftrightarrow> fst (bus_read bus (hw t) EMMC_CONTROL1) AND m \<noteq> 0,
      t\<lparr>hw := snd (bus_read bus (hw t) EMMC_CONTROL1)\<rparr>)" for t
    by (auto simp: assms(4) control1_bits_def negate_def run_simps)
  have "\<exists>c s'. run_state (poll n cond (wait_msec bus 10)) s = (c, s') \<and> 0 < c \<and> c \<le> int n \<and> calm s s'"
  proof (rule poll_up)
    show "calm s (snd (run_state cond t)) \<and> late (hw (snd (run_state cond t))) \<le> late (hw t)" if "calm s t" for t
      using calm_read_late[OF that reads_mem(8)] by (simp add: run)
    show "0 < late (hw (snd (run_state cond t)))" if "calm s t" "fst (run_state cond t)" for t
      using assms(3)[OF restingD[OF calm_resting[OF that(1)]] calm_cs[OF that(1)]] that(2) by (simp add: run)
  qed (use assms(1,2) in simp_all)
  then show ?thesis by (simp add: assms(2))
qed

lemma same_counts_resting: "same_counts s t \<Longrightarrow> resting t"
  by (auto simp: same_counts_def intro: moved_resting)

lemma wait_up: "resting s \<Longrightarrow> \<exists>s'. run_state (wait_msec bus n) s = ((), s') \<and> calm s s'"
  using calm_runs(3)[of s n] by (cases "run_state (wait_msec bus n) s") auto

text \<open>One write of the clock control and the pause after it.\<close>

lemma control1_wait:
  assumes "resting s"
  shows "\<exists>s' v. run_state (update32 bus EMMC_CONTROL1 f) s = ((), v)
    \<and> run_state (wait_msec bus 10) v = ((), s') \<and> same_counts s s'
    \<and> ctl (cs (hw s')) = f (fst (bus_read bus (hw s) EMMC_CONTROL1))"
proof -
  obtain t where t: "run_state (update32 bus EMMC_CONTROL1 f) s = ((), t)" "moved s t"
    "cs (hw t) = (cs (hw s))\<lparr>ctl := f (fst (bus_read bus (hw s) EMMC_CONTROL1))\<rparr>"
    using control1_up[OF assms] by blast
  obtain s' where s': "run_state (wait_msec bus 10) t = ((), s')" "calm t s'"
    using wait_up[OF moved_resting[OF t(2)]] by blast
  have "same_counts s s'" "ctl (cs (hw s')) = f (fst (bus_read bus (hw s) EMMC_CONTROL1))"
    using t(2,3) s'(2) by (auto simp: same_counts_def calm_def intro: moved_trans)
  then show ?thesis using t(1) s'(1) by blast
qed

lemma sd_clk_up:
  assumes "resting s"
  shows "\<exists>s'. run_state (sd_clk bus f) s = (SD_OK, s') \<and> same_counts s s'"
proof -
  let ?cond = "status_bits bus (SR_CMD_INHIBIT OR SR_DAT_INHIBIT)"
  have busy: "v AND busy_bits \<noteq> 0" if "v AND (SR_CMD_INHIBIT OR SR_DAT_INHIBIT) \<noteq> 0" for v
    using that by (auto simp: busy_bits_def bit.conj_disj_distrib or_eq_0_iff)
  have cond: "calm s (snd (run_state ?cond t)) \<and> late (hw (snd (run_state ?cond t))) \<le> late (hw t)"
    if "calm s t" for t
    using calm_read_late[OF that reads_mem(1)] by (simp add: status_bits_def run_simps)
  have late: "0 < late (hw (snd (run_state ?cond t)))" if "calm s t" "fst (run_state ?cond t)" for t
    using that(2) status_law[OF restingD[OF calm_resting[OF that(1)]]] busy
    by (simp add: status_bits_def run_simps)
  obtain c t0 where t0: "run_state (poll 100000 ?cond (wait_msec bus 1)) s = (c, t0)" "0 < c" "calm s t0"
    using poll_up[where cond = ?cond and ms = 1 and n = 100000, OF assms _ _ cond late] by auto
  obtain t1 u1 where t1: "run_state (update32 bus EMMC_CONTROL1 (\<lambda>v. v AND NOT C1_CLK_EN)) t0 = ((), u1)"
    "run_state (wait_msec bus 10) u1 = ((), t1)" "same_counts t0 t1"
    using control1_wait[OF calm_resting[OF t0(3)]] by blast
  let ?f = "\<lambda>v. (v AND 0xffff003f) OR clk_bits (sd_hv t1) (clk_divisor (sd_hv t1) (41666666 div f))"
  obtain t2 u2 where t2: "run_state (update32 bus EMMC_CONTROL1 ?f) t1 = ((), u2)"
    "run_state (wait_msec bus 10) u2 = ((), t2)" "same_counts t1 t2"
    using control1_wait[OF same_counts_resting[OF t1(3)]] by blast
  obtain t3 u3 where t3: "run_state (update32 bus EMMC_CONTROL1 (\<lambda>v. v OR C1_CLK_EN)) t2 = ((), u3)"
    "run_state (wait_msec bus 10) u3 = ((), t3)" "same_counts t2 t3"
    "ctl (cs (hw t3)) = fst (bus_read bus (hw t2) EMMC_CONTROL1) OR C1_CLK_EN"
    using control1_wait[OF same_counts_resting[OF t2(3)], of "\<lambda>v. v OR C1_CLK_EN"] by blast
  have "ctl (cs (hw t3)) AND C1_CLK_EN \<noteq> 0"
    by (simp add: t3(4) bit.conj_disj_distrib2 or_eq_0_iff) (simp add: C1_CLK_EN_def)
  then obtain c2 s' where s': "run_state (poll 10000 (negate (control1_bits bus C1_CLK_STABLE)) (wait_msec bus 10)) t3
      = (c2, s')" "0 < c2" "calm t3 s'"
    using control1_poll[of t3 10000 False C1_CLK_STABLE "negate (control1_bits bus C1_CLK_STABLE)"]
      same_counts_resting[OF t3(3)] stable_law by auto
  have "same_counts s s'"
    using calm_same_counts[OF t0(3)] t1(3) t2(3) t3(3) calm_same_counts[OF s'(3)]
    by (blast intro: same_counts_trans)
  moreover have "run_state (sd_clk bus f) s = (SD_OK, s')"
    using t0(1,2) t1(1,2) t2(1,2) t3(1,2) s'(1,2) by (simp add: sd_clk_def)
  ultimately show ?thesis by blast
qed

lemma sd_reset_up:
  assumes "resting s"
  shows "\<exists>c s'. run_state (sd_reset bus) s = (c, s') \<and> \<not> c \<le> 0 \<and> same_counts s s'"
proof -
  obtain t0 where t0: "run_state (put32 bus EMMC_CONTROL0 0) s = ((), t0)" "calm s t0"
    using calm_runs(2)[OF assms writes_mem(3), of 0] by (cases "run_state (put32 bus EMMC_CONTROL0 0) s") auto
  obtain t1 u1 where t1: "run_state (update32 bus EMMC_CONTROL1 (\<lambda>v. v OR C1_SRST_HC)) t0 = ((), u1)"
    "run_state (wait_msec bus 10) u1 = ((), t1)" "same_counts t0 t1"
    using control1_wait[OF calm_resting[OF t0(2)]] by blast
  obtain c s' where s': "run_state (poll 10000 (control1_bits bus C1_SRST_HC) (wait_msec bus 10)) t1 = (c, s')"
    "0 < c" "c \<le> 10000" "calm t1 s'"
    using control1_poll[of t1 10000 True C1_SRST_HC "control1_bits bus C1_SRST_HC"]
      same_counts_resting[OF t1(3)] reset_law by auto
  have "(word_of_int c :: u64) \<noteq> 0"
    using s'(2,3) by (simp add: word_of_int_eq_0_iff dvd_imp_le_int) (auto dest!: zdvd_imp_le)
  moreover have "same_counts s s'"
    using calm_same_counts[OF t0(2)] t1(3) calm_same_counts[OF s'(4)] by (blast intro: same_counts_trans)
  ultimately show ?thesis using t0(1) t1(1,2) s'(1) by (simp add: sd_reset_def)
qed

section \<open>Identifying and selecting the card\<close>

lemma answered_moved: "answered code (hw s) h \<Longrightarrow> moved s (s\<lparr>hw := h\<rparr>)"
  by (auto simp: answered_def moved_upd)

text \<open>The response the driver is left with keeps the bits it tests.\<close>

lemma masked_tests:
  fixes r :: u32
  defines "v \<equiv> scast (r AND CMD_ERRORS_MASK) :: u64"
  shows "v AND ucast ACMD41_CMD_COMPLETE \<noteq> 0 \<longleftrightarrow> r AND ACMD41_CMD_COMPLETE \<noteq> 0"
    "v AND ucast ACMD41_VOLTAGE \<noteq> 0 \<longleftrightarrow> r AND (ACMD41_VOLTAGE AND CMD_ERRORS_MASK) \<noteq> 0"
    "v AND ucast ACMD41_CMD_CCS \<noteq> 0 \<longleftrightarrow> r AND ACMD41_CMD_CCS \<noteq> 0"
proof -
  have low: "(scast w :: u64) AND ucast m = ucast (w AND m)" for w m :: u32
    by (rule bit_word_eqI) (auto simp: bit_simps dest: bit_imp_le_length)
  have z: "(ucast w :: u64) = 0 \<longleftrightarrow> w = 0" for w :: u32
  proof -
    have "unat w < 2 ^ 64" using unsigned_less[of w, where ?'a = nat] by simp
    then show ?thesis by (simp add: word_unat_eq_iff unsigned_ucast_eq take_bit_nat_eq_self)
  qed
  show "v AND ucast ACMD41_CMD_COMPLETE \<noteq> 0 \<longleftrightarrow> r AND ACMD41_CMD_COMPLETE \<noteq> 0"
    "v AND ucast ACMD41_VOLTAGE \<noteq> 0 \<longleftrightarrow> r AND (ACMD41_VOLTAGE AND CMD_ERRORS_MASK) \<noteq> 0"
    "v AND ucast ACMD41_CMD_CCS \<noteq> 0 \<longleftrightarrow> r AND ACMD41_CMD_CCS \<noteq> 0"
    unfolding v_def low z
    by (simp_all add: and.assoc ACMD41_CMD_COMPLETE_def ACMD41_VOLTAGE_def ACMD41_CMD_CCS_def CMD_ERRORS_MASK_def)
qed

text \<open>The card comes up before the last attempt.\<close>

lemma op_cond_up:
  assumes "resting s" "r AND ucast ACMD41_CMD_COMPLETE = 0" "tries (cs (hw s)) + 1 < n" "n \<le> 6"
  shows "\<exists>q k h. run_state (op_cond_loop bus n r) s = (Inr (q, k), s\<lparr>sd_err := 0, hw := h\<rparr>)
    \<and> op_cond_result q k = Inr (if ccs then SCR_SUPP_CCS else 0) \<and> quiet_to phase ok disk (hw s) h"
  using assms
proof (induction n arbitrary: s r)
  case 0
  then show ?case by simp
next
  case (Suc n)
  obtain s1 where s1: "run_state (wait_cycles bus 400) s = ((), s1)" "calm s s1"
    using calm_runs(4)[OF Suc.prems(1), of 400] by (cases "run_state (wait_cycles bus 400) s") auto
  obtain h1 where h1: "s1 = s\<lparr>hw := h1\<rparr>" "quiet_to phase ok disk (hw s) h1" "cs h1 = cs (hw s)"
    using s1(2) by (rule calmE)
  have op: "CMD_SEND_OP_COND = app_op_cond OR CMD_NEED_APP"
    by (simp add: CMD_SEND_OP_COND_def app_op_cond_def)
  obtain v h2 where h2: "run_state (sd_cmd bus CMD_SEND_OP_COND ACMD41_ARG_HC) s1 = (v, s1\<lparr>sd_err := 0, hw := h2\<rparr>)"
    "answered app_op_cond h1 h2" "v = resp (cs h2) AND CMD_ERRORS_MASK"
    using sd_cmd_app_up[OF calm_resting[OF s1(2)], of app_op_cond ACMD41_ARG_HC] h1(1) unfolding op by auto
  have step: "run_state (op_cond_loop bus (Suc n) r) s = run_state (op_cond_loop bus n (scast v)) (s\<lparr>sd_err := 0, hw := h2\<rparr>)"
    using Suc.prems(2) s1(1) h2(1) h1(1) by (subst op_cond_loop.simps) (simp add: SD_OK_def)
  have q2: "quiet_to phase ok disk (hw s) h2" using h1(2) h2(2) by (auto simp: answered_def quiet_to_def)
  note t = masked_tests[of "resp (cs h2)", folded h2(3)]
  have g: "good_response ccs app_op_cond (cs (hw s)) (resp (cs h2))" "tries (cs h2) = tries (cs (hw s)) - 1"
    using h2(2) h1(3) by (simp_all add: answered_def)
  show ?case
  proof (cases "tries (cs (hw s)) = 0")
    case True
    then have c: "scast v AND ucast ACMD41_CMD_COMPLETE \<noteq> (0 :: u64)" "scast v AND ucast ACMD41_VOLTAGE \<noteq> (0 :: u64)"
      "scast v AND ucast ACMD41_CMD_CCS \<noteq> (0 :: u64) \<longleftrightarrow> ccs"
      using g(1) t by (simp_all add: good_response_def)
    have "run_state (op_cond_loop bus n (scast v)) (s\<lparr>sd_err := 0, hw := h2\<rparr>) =
        (Inr (scast v, of_nat n), s\<lparr>sd_err := 0, hw := h2\<rparr>)"
      using c(1) by (subst op_cond_loop.simps) simp
    moreover have "(of_nat n :: u64) \<noteq> 0"
      using Suc.prems(3,4) True unat_of_nat_small[of n, where ?'a = 64] by (auto simp: word_unat_eq_iff)
    ultimately show ?thesis using step q2 c by (auto simp: op_cond_result_def intro!: exI[of _ h2])
  next
    case False
    then have c: "scast v AND ucast ACMD41_CMD_COMPLETE = (0 :: u64)"
      using g(1) t by (simp add: good_response_def)
    have "resting (s\<lparr>sd_err := 0, hw := h2\<rparr>)" using q2 by (simp add: resting_def quiet_to_def)
    moreover have "tries (cs (hw (s\<lparr>sd_err := 0, hw := h2\<rparr>))) + 1 < n" using g(2) False Suc.prems(3) by simp
    ultimately obtain q k h where
      "run_state (op_cond_loop bus n (scast v)) (s\<lparr>sd_err := 0, hw := h2\<rparr>) = (Inr (q, k), s\<lparr>sd_err := 0, hw := h\<rparr>)"
      "op_cond_result q k = Inr (if ccs then SCR_SUPP_CCS else 0)" "quiet_to phase ok disk h2 h"
      using Suc.IH[OF _ c, of "s\<lparr>sd_err := 0, hw := h2\<rparr>"] Suc.prems(4) by auto
    then show ?thesis using step q2 by (auto simp: quiet_to_def)
  qed
qed

lemma plain_cmds:
  "CMD_GO_IDLE \<in> setup_cmds" "CMD_GO_IDLE AND CMD_NEED_APP = 0"
  "CMD_SEND_IF_COND \<in> setup_cmds" "CMD_SEND_IF_COND AND CMD_NEED_APP = 0"
  "CMD_ALL_SEND_CID \<in> setup_cmds" "CMD_ALL_SEND_CID AND CMD_NEED_APP = 0"
  "CMD_SEND_REL_ADDR \<in> setup_cmds" "CMD_SEND_REL_ADDR AND CMD_NEED_APP = 0"
  "CMD_CARD_SELECT \<in> setup_cmds" "CMD_CARD_SELECT AND CMD_NEED_APP = 0"
  "CMD_GO_IDLE \<noteq> app_op_cond" "CMD_SEND_IF_COND \<noteq> app_op_cond"
  by (simp_all add: setup_cmds_def command_defs CMD_CARD_SELECT_def app_op_cond_def)

lemma sd_identify_up:
  assumes "resting s" "tries (cs (hw s)) < 5"
  shows "\<exists>h. run_state (sd_identify bus) s = (Inr (if ccs then SCR_SUPP_CCS else 0), s\<lparr>sd_err := 0, hw := h\<rparr>)
    \<and> quiet_to phase ok disk (hw s) h"
proof -
  obtain v1 h1 where 1: "run_state (sd_cmd bus CMD_GO_IDLE 0) s = (v1, s\<lparr>sd_err := 0, hw := h1\<rparr>)"
    "answered CMD_GO_IDLE (hw s) h1"
    using sd_cmd_up[OF assms(1) plain_cmds(1,2)] by blast
  have r1: "resting (s\<lparr>sd_err := 0, hw := h1\<rparr>)" using answeredD(1,2)[OF 1(2)] by (simp add: resting_def)
  obtain v2 h2 where 2: "run_state (sd_cmd bus CMD_SEND_IF_COND 0x1AA) (s\<lparr>sd_err := 0, hw := h1\<rparr>) =
      (v2, s\<lparr>sd_err := 0, hw := h2\<rparr>)" "answered CMD_SEND_IF_COND h1 h2"
    using sd_cmd_up[OF r1 plain_cmds(3,4), of "0x1AA"] by auto
  have r2: "resting (s\<lparr>sd_err := 0, hw := h2\<rparr>)" using answeredD(1,2)[OF 2(2)] by (simp add: resting_def)
  have t: "tries (cs h2) < 5" "quiet_to phase ok disk (hw s) h2"
    using 1(2) 2(2) assms(2) plain_cmds(11,12) by (auto simp: answered_def quiet_to_def)
  obtain q k h where 3: "run_state (op_cond_loop bus 6 0) (s\<lparr>sd_err := 0, hw := h2\<rparr>) = (Inr (q, k), s\<lparr>sd_err := 0, hw := h\<rparr>)"
    "op_cond_result q k = Inr (if ccs then SCR_SUPP_CCS else 0)" "quiet_to phase ok disk h2 h"
    using op_cond_up[OF r2, of 0 6] t(1) by auto
  have "run_state (sd_identify bus) s = (Inr (if ccs then SCR_SUPP_CCS else 0), s\<lparr>sd_err := 0, hw := h\<rparr>)"
    by (simp add: sd_identify_def unless_err_def 1(1) 2(1) 3(1,2))
  then show ?thesis using t(2) 3(3) by (auto simp: quiet_to_def)
qed

lemma put_up: "resting s \<Longrightarrow> a \<in> setup_writes \<Longrightarrow> \<exists>s'. run_state (put32 bus a v) s = ((), s') \<and> calm s s'"
  using calm_runs(2)[of s a v] by (cases "run_state (put32 bus a v) s") auto

lemma get_up: "resting s \<Longrightarrow> a \<in> setup_reads \<Longrightarrow> \<exists>w s'. run_state (get32 bus a) s = (w, s') \<and> calm s s'"
  using calm_runs(1)[of s a] by (cases "run_state (get32 bus a) s") auto

lemma same_countsE:
  assumes "same_counts s t"
  obtains h where "t = s\<lparr>hw := h\<rparr>" "quiet_to phase ok disk (hw s) h" "tries (cs h) = tries (cs (hw s))"
  using assms by (auto simp: same_counts_def moved_def)

lemma sd_select_up:
  assumes "resting s"
  shows "\<exists>h rca. run_state (sd_select bus) s = (Inr (), s\<lparr>sd_err := 0, sd_rca := rca, hw := h\<rparr>)
    \<and> quiet_to phase ok disk (hw s) h \<and> scr_left (cs h) = 2"
proof -
  obtain v1 h1 where 1: "run_state (sd_cmd bus CMD_ALL_SEND_CID 0) s = (v1, s\<lparr>sd_err := 0, hw := h1\<rparr>)"
    "quiet_to phase ok disk (hw s) h1"
    using sd_cmd_up[OF assms plain_cmds(5,6)] answeredD(4) by blast
  have r1: "resting (s\<lparr>sd_err := 0, hw := h1\<rparr>)" using 1(2) by (simp add: resting_def quiet_to_def)
  obtain v2 h2 where 2: "run_state (sd_cmd bus CMD_SEND_REL_ADDR 0) (s\<lparr>sd_err := 0, hw := h1\<rparr>) =
      (v2, s\<lparr>sd_err := 0, hw := h2\<rparr>)" "quiet_to phase ok disk h1 h2"
    using sd_cmd_up[OF r1 plain_cmds(7,8), of 0] answeredD(4) by auto
  define t where "t = s\<lparr>sd_err := 0, hw := h2, sd_rca := scast v2\<rparr>"
  have rt: "resting t" using 2(2) by (simp add: t_def resting_def quiet_to_def)
  obtain t3 where 3: "run_state (sd_clk bus 25000000) t = (SD_OK, t3)" "same_counts t t3"
    using sd_clk_up[OF rt] by blast
  obtain h3 where h3: "t3 = t\<lparr>hw := h3\<rparr>" "quiet_to phase ok disk (hw t) h3" using 3(2) by (rule same_countsE)
  obtain v4 h4 where 4: "run_state (sd_cmd bus CMD_CARD_SELECT (ucast (sd_rca t3))) t3 = (v4, t3\<lparr>sd_err := 0, hw := h4\<rparr>)"
    "quiet_to phase ok disk h3 h4"
    using sd_cmd_up[OF same_counts_resting[OF 3(2)] plain_cmds(9,10), of "ucast (sd_rca t3)"] answeredD(4) h3(1) by auto
  have r4: "resting (t3\<lparr>sd_err := 0, hw := h4\<rparr>)" using 4(2) by (simp add: resting_def quiet_to_def)
  obtain t5 where 5: "run_state (sd_status bus SR_DAT_INHIBIT) (t3\<lparr>sd_err := 0, hw := h4\<rparr>) = (SD_OK, t5)"
    "calm (t3\<lparr>sd_err := 0, hw := h4\<rparr>) t5"
    using sd_status_up[OF r4 cmd_inhibit(2)] by blast
  obtain t6 where 6: "run_state (put32 bus EMMC_BLKSIZECNT (push_bit 16 1 OR 8)) t5 = ((), t6)" "calm t5 t6"
    using put_up[OF calm_resting[OF 5(2)] writes_mem(2)] by blast
  obtain h6 where h6: "t6 = t\<lparr>sd_err := 0, hw := h6\<rparr>" "quiet_to phase ok disk h4 h6"
    using calm_trans[OF 5(2) 6(2)] h3(1) by (auto elim!: calmE)
  have scr: "CMD_SEND_SCR = app_send_scr OR CMD_NEED_APP" by (simp add: CMD_SEND_SCR_def app_send_scr_def)
  obtain v7 h7 where 7: "run_state (sd_cmd bus CMD_SEND_SCR 0) t6 = (v7, t6\<lparr>sd_err := 0, hw := h7\<rparr>)"
    "answered app_send_scr h6 h7"
    using sd_cmd_app_up[OF calm_resting[OF 6(2)], of app_send_scr 0] h6(1) unfolding scr by auto
  have r7: "resting (t6\<lparr>sd_err := 0, hw := h7\<rparr>)" using answeredD(1,2)[OF 7(2)] by (simp add: resting_def)
  have d7: "due (cs h7) = INT_READ_RDY" "scr_left (cs h7) = 2" using 7(2) by (auto simp: answered_def)
  obtain h8 where 8: "run_state (sd_int bus INT_READ_RDY) (t6\<lparr>sd_err := 0, hw := h7\<rparr>) = (0, t6\<lparr>sd_err := 0, hw := h8\<rparr>)"
    "quiet_to phase ok disk h7 h8" "scr_left (cs h8) = 2"
    using sd_int_up[OF r7, of INT_READ_RDY] d7 by (auto simp: INT_READ_RDY_def)
  have "quiet_to phase ok disk (hw s) h8"
    using 1(2) 2(2) h3(2) 4(2) h6(2) answeredD(4)[OF 7(2)] 8(2) by (auto simp: quiet_to_def t_def)
  moreover have "run_state (sd_select bus) s = (Inr (), s\<lparr>sd_err := 0, sd_rca := scast v2, hw := h8\<rparr>)"
    using 3(1) 4(1) 5(1) 6(1) 7(1) 8(1)
    by (simp add: sd_select_def unless_err_def 1(1) 2(1) h3(1) h6(1) SD_OK_def flip: t_def) (simp add: t_def)
  ultimately show ?thesis using 8(3) by blast
qed

section \<open>sd_init\<close>

lemma read_scr_up:
  assumes "resting s" "r + scr_left (cs (hw s)) = 2" "r \<le> 2"
  shows "\<exists>x y h. read_scr bus r s = Some (s\<lparr>sd_scr0 := x, sd_scr1 := y, hw := h\<rparr>) \<and> quiet_to phase ok disk (hw s) h"
  using assms
proof (induction "2 - r" arbitrary: r s)
  case 0
  then have "read_scr bus r s = Some s" by (subst read_scr.simps) simp
  then show ?case
    using "0.prems"(1)
    by (simp add: resting_def quiet_to_def)
       (rule exI[of _ "sd_scr0 s"], rule exI[of _ "sd_scr1 s"], rule exI[of _ "hw s"], simp)
next
  case (Suc k)
  have r: "r < 2" and k: "k = 2 - Suc r" using Suc.hyps(2) by simp_all
  note IH = Suc.hyps(1)[of "Suc r"] and prems = Suc.prems
  show ?case using prems
  proof (induction "late (hw s)" arbitrary: s rule: less_induct)
    case less
    let ?h1 = "snd (bus_read bus (hw s) EMMC_STATUS)"
    note rd = setup_read[OF restingD[OF less.prems(1)] reads_mem(1)]
    have h1: "ok ?h1" "phase ?h1 = Quiet" "disk ?h1 = disk (hw s)" "cs ?h1 = cs (hw s)" "late ?h1 \<le> late (hw s)"
      using rd by (simp_all add: quiet_to_def)
    have left: "0 < scr_left (cs (hw s))" using less.prems(2) r by simp
    show ?case
    proof (cases "fst (bus_read bus (hw s) EMMC_STATUS) AND SR_READ_AVAILABLE = 0")
      case True
      let ?h2 = "bus_wait bus ?h1 1000"
      have pos: "0 < late ?h1" using scr_ready[OF restingD[OF less.prems(1)] left True] .
      have h2: "ok ?h2" "phase ?h2 = Quiet" "disk ?h2 = disk (hw s)" "cs ?h2 = cs (hw s)" "late ?h2 < late (hw s)"
        using wait_law[OF h1(1), of 1000] wait_progress[OF h1(1) pos] wait_cs[OF h1(1,2)] h1 by simp_all
      have "read_scr bus r s = read_scr bus r (s\<lparr>hw := ?h2\<rparr>)"
        using r True by (subst read_scr.simps) (simp add: run_simps)
      then show ?thesis
        using less.hyps[of "s\<lparr>hw := ?h2\<rparr>"] less.prems h2 by (auto simp: resting_def quiet_to_def)
    next
      case False
      let ?h2 = "snd (bus_read bus ?h1 EMMC_DATA)" and ?w = "fst (bus_read bus ?h1 EMMC_DATA)"
      define s2 where "s2 = (if r = 0 then s\<lparr>hw := ?h2, sd_scr0 := ?w\<rparr> else s\<lparr>hw := ?h2, sd_scr1 := ?w\<rparr>)"
      have q: "quiet_to phase ok disk (hw s) ?h2" "scr_left (cs ?h2) = scr_left (cs (hw s)) - 1"
        using scr_data[OF h1(1,2)] left h1(3,4) by (simp_all add: quiet_to_def)
      have "read_scr bus r s = read_scr bus (Suc r) s2"
        using r False by (subst read_scr.simps) (simp add: run_simps s2_def)
      moreover have "hw s2 = ?h2" by (simp add: s2_def)
      moreover have "resting s2" using q(1) by (auto simp: s2_def resting_def quiet_to_def)
      ultimately obtain x y h where "read_scr bus r s = Some (s2\<lparr>sd_scr0 := x, sd_scr1 := y, hw := h\<rparr>)"
        "quiet_to phase ok disk ?h2 h"
        using IH[OF k, of s2] less.prems(2) q(2) left r by auto
      then show ?thesis using q(1) by (auto simp: s2_def quiet_to_def split: if_splits)
    qed
  qed
qed

lemma sd_init_to_scr_up:
  assumes "resting s" "tries (cs (hw s)) < 5"
  shows "\<exists>s'. run_state (sd_init_to_scr bus) s = (Inr (if ccs then SCR_SUPP_CCS else 0), s')
    \<and> quiet_to phase ok disk (hw s) (hw s') \<and> scr_left (cs (hw s')) = 2"
proof -
  obtain s1 where 1: "run_state (sd_gpio bus) s = ((), s1)" "calm s s1"
    using calmsD[OF calms_gpio assms(1)] by (cases "run_state (sd_gpio bus) s") auto
  obtain ver s2 where 2: "run_state (get32 bus EMMC_SLOTISR_VER) s1 = (ver, s2)" "calm s1 s2"
    using get_up[OF calm_resting[OF 1(2)] reads_mem(9)] by blast
  define t2 where "t2 = s2\<lparr>sd_hv := drop_bit 16 (ver AND HOST_SPEC_NUM)\<rparr>"
  have t2: "resting t2" "hw t2 = hw s2" using calm_resting[OF 2(2)] by (simp_all add: t2_def resting_def)
  obtain c s3 where 3: "run_state (sd_reset bus) t2 = (c, s3)" "\<not> c \<le> 0" "same_counts t2 s3"
    using sd_reset_up[OF t2(1)] by blast
  obtain u4 s4 where 4: "run_state (update32 bus EMMC_CONTROL1 (\<lambda>v. v OR (C1_CLK_INTLEN OR C1_TOUNIT_MAX))) s3 = ((), u4)"
    "run_state (wait_msec bus 10) u4 = ((), s4)" "same_counts s3 s4"
    using control1_wait[OF same_counts_resting[OF 3(3)]] by blast
  obtain s5 where 5: "run_state (sd_clk bus 400000) s4 = (SD_OK, s5)" "same_counts s4 s5"
    using sd_clk_up[OF same_counts_resting[OF 4(3)]] by blast
  obtain s6 where 6: "run_state (put32 bus EMMC_INT_EN 0xffffffff) s5 = ((), s6)" "calm s5 s6"
    using put_up[OF same_counts_resting[OF 5(2)] writes_mem(4)] by blast
  obtain s7 where 7: "run_state (put32 bus EMMC_INT_MASK 0xffffffff) s6 = ((), s7)" "calm s6 s7"
    using put_up[OF calm_resting[OF 6(2)] writes_mem(5)] by blast
  have "same_counts t2 s7"
    using 3(3) 4(3) 5(2) calm_same_counts[OF 6(2)] calm_same_counts[OF 7(2)] by (blast intro: same_counts_trans)
  moreover have "same_counts s s2"
    using calm_same_counts[OF 1(2)] calm_same_counts[OF 2(2)] by (blast intro: same_counts_trans)
  ultimately have g7: "quiet_to phase ok disk (hw s) (hw s7)" "tries (cs (hw s7)) < 5"
    using t2(2) assms(2) by (auto simp: quiet_to_def elim!: same_countsE)
  define t7 where "t7 = s7\<lparr>sd_scr0 := 0, sd_scr1 := 0, sd_rca := 0, sd_err := 0\<rparr>"
  have t7: "resting t7" "hw t7 = hw s7" using g7(1) by (simp_all add: t7_def resting_def quiet_to_def)
  obtain h8 where 8: "run_state (sd_identify bus) t7 = (Inr (if ccs then SCR_SUPP_CCS else 0), t7\<lparr>sd_err := 0, hw := h8\<rparr>)"
    "quiet_to phase ok disk (hw t7) h8"
    using sd_identify_up[OF t7(1)] t7(2) g7(2) by auto
  have r8: "resting (t7\<lparr>sd_err := 0, hw := h8\<rparr>)" using 8(2) by (simp add: resting_def quiet_to_def)
  obtain h9 rca where 9: "run_state (sd_select bus) (t7\<lparr>sd_err := 0, hw := h8\<rparr>) =
      (Inr (), t7\<lparr>sd_err := 0, hw := h8\<rparr>\<lparr>sd_err := 0, sd_rca := rca, hw := h9\<rparr>)"
    "quiet_to phase ok disk h8 h9" "scr_left (cs h9) = 2"
    using sd_select_up[OF r8] by auto
  define c8 where "c8 = (if ccs then SCR_SUPP_CCS else 0)"
  have "run_state (sd_init_to_scr bus) s = (Inr c8,
      t7\<lparr>sd_err := 0, hw := h8\<rparr>\<lparr>sd_err := 0, sd_rca := rca, hw := h9\<rparr>)"
    using 3(2) 8(1)[folded c8_def] 9(1) unfolding sd_init_to_scr_def
    by (simp add: 1(1) 2(1) 3(1) 4(1,2) 5(1) 6(1) 7(1) SD_OK_def del: drop_bit_and flip: t2_def t7_def)
  then show ?thesis using g7(1) t7(2) 8(2) 9(2,3) by (auto simp: quiet_to_def c8_def)
qed

lemma scr_ccs:
  "((x AND NOT SCR_SUPP_CCS) OR (if c then SCR_SUPP_CCS else 0)) AND SCR_SUPP_CCS \<noteq> (0 :: u32) \<longleftrightarrow> c"
  by (simp add: bit.conj_disj_distrib2 and.assoc) (simp add: SCR_SUPP_CCS_def)

lemma sd_init_from_scr_up:
  assumes "resting s"
  shows "\<exists>s'. run_state (sd_init_from_scr bus (if ccs then SCR_SUPP_CCS else 0)) s = (SD_OK, s')
    \<and> at_rest phase ok ccs s' \<and> disk (hw s') = disk (hw s)"
proof -
  let ?c = "if ccs then SCR_SUPP_CCS else 0"
  let ?fin = "\<lambda>t. t\<lparr>sd_scr0 := (sd_scr0 t AND NOT SCR_SUPP_CCS) OR ?c\<rparr>"
  have fin: "at_rest phase ok ccs (?fin t) \<and> disk (hw (?fin t)) = disk (hw s)" if "quiet_to phase ok disk (hw s) (hw t)" for t
    using that scr_ccs by (simp add: at_rest_def quiet_to_def supp_ccs_def)
  have bw: "CMD_SET_BUS_WIDTH = app_bus_width OR CMD_NEED_APP" by (simp add: CMD_SET_BUS_WIDTH_def app_bus_width_def)
  obtain v h where 1: "run_state (sd_cmd bus CMD_SET_BUS_WIDTH (ucast (sd_rca s) OR 2)) s = (v, s\<lparr>sd_err := 0, hw := h\<rparr>)"
    "answered app_bus_width (hw s) h"
    using sd_cmd_app_up[OF assms, of app_bus_width "ucast (sd_rca s) OR 2"] unfolding bw by auto
  have r1: "resting (s\<lparr>sd_err := 0, hw := h\<rparr>)" using answeredD(1,2)[OF 1(2)] by (simp add: resting_def)
  obtain s2 where 2: "run_state (update32 bus EMMC_CONTROL0 (\<lambda>v. v OR C0_HCTL_DWITDH)) (s\<lparr>sd_err := 0, hw := h\<rparr>) = ((), s2)"
    "calm (s\<lparr>sd_err := 0, hw := h\<rparr>) s2"
    using calmsD[OF calms_update[OF reads_mem(7) writes_mem(3)] r1, of "\<lambda>v. v OR C0_HCTL_DWITDH"]
    by (cases "run_state (update32 bus EMMC_CONTROL0 (\<lambda>v. v OR C0_HCTL_DWITDH)) (s\<lparr>sd_err := 0, hw := h\<rparr>)") auto
  have q2: "quiet_to phase ok disk (hw s) (hw s2)"
    using 2(2) answeredD(4)[OF 1(2)] by (auto simp: quiet_to_def elim!: calmE)
  show ?thesis
  proof (cases "sd_scr0 s AND SCR_SD_BUS_WIDTH_4 = 0")
    case True
    then have "run_state (sd_init_from_scr bus ?c) s = (SD_OK, ?fin s)"
      by (simp add: sd_init_from_scr_def del: if_split)
    then show ?thesis using fin[of s] moved_refl[OF assms] assms by (auto simp: resting_def quiet_to_def)
  next
    case False
    then have "run_state (sd_init_from_scr bus ?c) s = (SD_OK, ?fin s2)"
      using 1(1) 2(1) by (simp add: sd_init_from_scr_def del: if_split)
    then show ?thesis using fin[OF q2] by blast
  qed
qed

lemma sd_init_up:
  assumes "resting s" "tries (cs (hw s)) < 5"
  shows "\<exists>s'. sd_init bus s = Some (SD_OK, s') \<and> at_rest phase ok ccs s' \<and> disk (hw s') = disk (hw s)"
proof -
  obtain s1 where 1: "run_state (sd_init_to_scr bus) s = (Inr (if ccs then SCR_SUPP_CCS else 0), s1)"
    "quiet_to phase ok disk (hw s) (hw s1)" "scr_left (cs (hw s1)) = 2"
    using sd_init_to_scr_up[OF assms] by blast
  have "resting s1" using 1(2) by (simp add: resting_def quiet_to_def)
  then obtain s2 where 2: "read_scr bus 0 s1 = Some s2" "quiet_to phase ok disk (hw s1) (hw s2)"
    using read_scr_up[of s1 0] 1(3) by auto
  have "resting s2" using 2(2) by (simp add: resting_def quiet_to_def)
  then obtain s3 where 3: "run_state (sd_init_from_scr bus (if ccs then SCR_SUPP_CCS else 0)) s2 = (SD_OK, s3)"
    "at_rest phase ok ccs s3" "disk (hw s3) = disk (hw s2)"
    using sd_init_from_scr_up by blast
  then show ?thesis
    using 1 2 by (simp add: sd_init_def quiet_to_def del: if_split)
qed

end

end
