(* ===== verification/Sd_Ready.thy ===== *)
theory Sd_Ready
  imports Sd_Up
begin

text \<open>
  The driver after \<open>sd_init\<close>: it has come up and is ready for transfers. A simulated card that has to be
  set up shows that the laws of \<open>sd_host\<close> can hold.
\<close>

section \<open>A simulated card that has to be set up\<close>

text \<open>
  The controller of \<open>Sd_Card\<close> with the registers of the set-up: each command and each change of the
  clock takes two milliseconds, and the card answers "busy" as often as \<open>tries\<close> says.
\<close>

record sd_sim = sim +
  sm_cs :: ctl_state

definition sim_response :: "u32 \<Rightarrow> sd_sim \<Rightarrow> u32" where
  "sim_response code h =
     (if code = CMD_APP_CMD OR CMD_RSPNS_48 then SR_APP_CMD
      else if code = CMD_SEND_REL_ADDR then 0x10000
      else if code = CMD_SEND_IF_COND then sm_arg h
      else if code = app_op_cond then (if tries (sm_cs h) = 0 then 0xc0ff8000 else 0x00ff8000)
      else 0)"

definition sd_sim_read :: "sd_sim \<Rightarrow> u32 \<Rightarrow> u32 \<times> sd_sim" where
  "sd_sim_read h a =
     (if a = EMMC_STATUS then
        (if sm_late h = 0 then (if 0 < scr_left (sm_cs h) then SR_READ_AVAILABLE else 0) else SR_CMD_INHIBIT, h)
      else if a = EMMC_INTERRUPT then (if sm_late h = 0 then flag_of (sm_phase h) OR due (sm_cs h) else 0, h)
      else if a = EMMC_DATA then
        (case sm_phase h of
           ReadData l k \<Rightarrow> (words_of_bytes (sm_disk h l) ! k,
             h\<lparr>sm_phase := if k = 127 then Quiet else ReadData l (k + 1)\<rparr>)
         | _ \<Rightarrow> (SCR_SD_BUS_WIDTH_4, h\<lparr>sm_cs := (sm_cs h)\<lparr>scr_left := scr_left (sm_cs h) - 1\<rparr>\<rparr>))
      else if a = EMMC_RESP0 then (resp (sm_cs h), h)
      else if a = EMMC_CONTROL1 then
        (if sm_late h = 0 then (ctl (sm_cs h) AND NOT C1_SRST_HC) OR C1_CLK_STABLE else ctl (sm_cs h), h)
      else (0, h))"

definition sd_sim_write :: "sd_sim \<Rightarrow> u32 \<Rightarrow> u32 \<Rightarrow> sd_sim" where
  "sd_sim_write h a v =
     (if a = EMMC_INTERRUPT then
        h\<lparr>sm_phase := if v AND flag_of (sm_phase h) \<noteq> 0 then ack (sm_phase h) else sm_phase h,
          sm_cs := (sm_cs h)\<lparr>due := due (sm_cs h) AND NOT v\<rparr>\<rparr>
      else if a = EMMC_ARG1 then h\<lparr>sm_arg := v\<rparr>
      else if a = EMMC_CMDTM then
        (if v = CMD_READ_SINGLE then h\<lparr>sm_phase := ReadPending (sm_arg h), sm_late := 2\<rparr>
         else if v = CMD_WRITE_SINGLE then h\<lparr>sm_phase := WritePending (sm_arg h), sm_late := 2\<rparr>
         else h\<lparr>sm_cs := asked v (sm_cs h) (sim_response v h), sm_late := 2\<rparr>)
      else if a = EMMC_CONTROL1 then h\<lparr>sm_cs := (sm_cs h)\<lparr>ctl := v\<rparr>, sm_late := 2\<rparr>
      else if a = EMMC_DATA then
        (case sm_phase h of
           WriteData l ws \<Rightarrow>
             if length ws = 127
             then h\<lparr>sm_phase := WriteDone, sm_disk := (sm_disk h)(l := bytes_of_words (ws @ [v])), sm_late := 2\<rparr>
             else h\<lparr>sm_phase := WriteData l (ws @ [v])\<rparr>
         | _ \<Rightarrow> h)
      else h)"

definition sd_sim_bus :: "sd_sim bus" where
  "sd_sim_bus = \<lparr>bus_read = sd_sim_read, bus_write = sd_sim_write,
     bus_wait = (\<lambda>h us. h\<lparr>sm_late := sm_late h - 1\<rparr>), bus_spin = (\<lambda>h n. h)\<rparr>"

definition sd_sim_ok :: "sd_sim \<Rightarrow> bool" where
  "sd_sim_ok h \<longleftrightarrow> ram_invar (sm_disk h) \<and> sm_late h \<le> 2 \<and> due (sm_cs h) AND 0x21 = due (sm_cs h)"

lemmas setup_defs =
  register_defs EMMC_RESP1_def EMMC_RESP2_def EMMC_RESP3_def EMMC_CONTROL0_def EMMC_CONTROL1_def
  EMMC_SLOTISR_VER_def EMMC_INT_EN_def EMMC_INT_MASK_def GPFSEL4_def GPFSEL5_def GPHEN1_def GPPUD_def
  GPPUDCLK1_def

lemmas cmd_code_defs =
  command_defs CMD_CARD_SELECT_def app_op_cond_def app_send_scr_def app_bus_width_def
  CMD_READ_SINGLE_def CMD_WRITE_SINGLE_def

lemma due_bits:
  assumes "(d :: u32) AND 0x21 = d"
  shows "(d AND NOT v) AND 0x21 = d AND NOT v" "d AND (INT_ERROR_MASK OR INT_CMD_TIMEOUT) = 0"
proof -
  have "(d AND NOT v) AND 0x21 = (d AND 0x21) AND NOT v" by (simp add: ac_simps)
  then show "(d AND NOT v) AND 0x21 = d AND NOT v" by (simp add: assms)
  have "d AND (INT_ERROR_MASK OR INT_CMD_TIMEOUT) = d AND (0x21 AND (INT_ERROR_MASK OR INT_CMD_TIMEOUT))"
    by (subst assms[symmetric]) (simp only: and.assoc)
  then show "d AND (INT_ERROR_MASK OR INT_CMD_TIMEOUT) = 0"
    by (simp add: INT_ERROR_MASK_def INT_CMD_TIMEOUT_def)
qed

lemma sim_asked_due: "due (asked code g r) AND 0x21 = due (asked code g r)"
  by (simp add: asked_def INT_CMD_DONE_def INT_READ_RDY_def)

lemmas sd_sim_defs = sd_sim_bus_def sd_sim_read_def sd_sim_write_def sd_sim_ok_def quiet_to_def

lemma sd_sim_regs:
  "bus_read sd_sim_bus h EMMC_STATUS = (if sm_late h = 0 then (if 0 < scr_left (sm_cs h) then SR_READ_AVAILABLE else 0)
     else SR_CMD_INHIBIT, h)"
  "bus_read sd_sim_bus h EMMC_INTERRUPT = (if sm_late h = 0 then flag_of (sm_phase h) OR due (sm_cs h) else 0, h)"
  "bus_read sd_sim_bus h EMMC_RESP0 = (resp (sm_cs h), h)"
  "bus_read sd_sim_bus h EMMC_CONTROL1 =
     (if sm_late h = 0 then (ctl (sm_cs h) AND NOT C1_SRST_HC) OR C1_CLK_STABLE else ctl (sm_cs h), h)"
  "a \<in> setup_reads \<Longrightarrow> snd (bus_read sd_sim_bus h a) = h"
  by (auto simp: sd_sim_defs setup_defs setup_reads_def)

lemma sd_sim_status_bits:
  "SR_READ_AVAILABLE AND busy_bits = 0" "SR_READ_AVAILABLE \<noteq> 0" "EMMC_DATA \<noteq> EMMC_CONTROL1"
  by (simp_all add: busy_bits_def SR_READ_AVAILABLE_def SR_CMD_INHIBIT_def SR_DAT_INHIBIT_def
      SR_WRITE_AVAILABLE_def setup_defs)

lemma sd_sim_control_bits:
  "((c AND NOT C1_SRST_HC) OR C1_CLK_STABLE) AND C1_SRST_HC = (0 :: u32)"
  "((c AND NOT C1_SRST_HC) OR C1_CLK_STABLE) AND C1_CLK_STABLE \<noteq> (0 :: u32)"
  by (simp_all add: bit.conj_disj_distrib2 and.assoc or_eq_0_iff) (simp_all add: C1_SRST_HC_def C1_CLK_STABLE_def)

lemma sim_response_good:
  assumes "code \<in> setup_cmds"
  shows "good_response True code (sm_cs h) (sim_response code h)"
  using assms
  by (auto simp: setup_cmds_def good_response_def sim_response_def cmd_code_defs SR_APP_CMD_def
      ACMD41_CMD_COMPLETE_def ACMD41_VOLTAGE_def ACMD41_CMD_CCS_def)

lemma setup_cmds_plain: "code \<in> setup_cmds \<Longrightarrow> code \<noteq> CMD_READ_SINGLE \<and> code \<noteq> CMD_WRITE_SINGLE"
  by (auto simp: setup_cmds_def cmd_code_defs)

lemma done_nonzero: "INT_CMD_DONE \<noteq> 0" "INT_DATA_DONE \<noteq> 0"
  by (simp_all add: INT_CMD_DONE_def INT_DATA_DONE_def)

interpretation sd_sim: sd_host sd_sim_bus sm_phase sm_disk sm_arg sm_late sd_sim_ok "\<lambda>a. a" True "\<lambda>_. True" sm_cs
proof (unfold_locales, goal_cases)
  case (8 h)
  then show ?case
    by (simp add: sd_sim_regs sd_sim_ok_def bit.conj_disj_distrib2 or_eq_0_iff due_bits flag_values)
next
  case (11 h)
  then show ?case
    by (cases "sm_phase h") (auto simp: sd_sim_defs due_bits done_nonzero)
next
  case (23 h a)
  then show ?case by (simp add: sd_sim_regs quiet_to_def)
next
  case (25 h v)
  then show ?case by (auto simp: sd_sim_defs setup_defs)
next
  case (26 h)
  then show ?case by (auto simp: sd_sim_regs sd_sim_control_bits split: if_splits)
next
  case (27 h)
  then show ?case by (auto simp: sd_sim_regs C1_CLK_STABLE_def split: if_splits)
next
  case (24 h a v)
  then show ?case by (auto simp: setup_writes_def sd_sim_defs setup_defs)
next
  case (28 h code)
  then show ?case
    using setup_cmds_plain[of code] sim_response_good[of code h]
    by (simp add: sd_sim_defs register_distinct sim_asked_due) (simp add: asked_def)
qed (auto simp: sd_sim_regs sd_sim_defs register_distinct register_distinct[THEN not_sym] flag_values(2) due_bits
       ram_invar_def length_bytes_block sd_sim_status_bits sd_sim_control_bits
       split: if_splits)

section \<open>The card comes up\<close>

text \<open>
  C8: on a controller and card that keep the protocol, \<open>sd_init\<close> returns \<open>SD_OK\<close>, whatever the
  driver's globals hold, provided the card answers the request for its operating conditions with
  "busy" at most four times. The driver is then ready for transfers, knows whether the card addresses
  blocks or bytes, and no block of the card has changed.
\<close>

theorem sd_init_comes_up:
  assumes "sd_host bus phase disk arg1 late ok sect ccs good cs"
    and "ok (hw s)" "phase (hw s) = Quiet" "tries (cs (hw s)) < 5"
  shows "\<exists>s'. sd_init bus s = Some (SD_OK, s') \<and> at_rest phase ok ccs s' \<and> disk (hw s') = disk (hw s)"
  using sd_host.sd_init_up[OF assms(1)] sd_host.resting_def[OF assms(1)] assms(2-4) by simp

text \<open>A card that is busy for four rounds, after power-up.\<close>

definition cold_card :: "nat \<Rightarrow> (u32 \<Rightarrow> bytes) \<Rightarrow> sd_sim" where
  "cold_card n d = \<lparr>sm_phase = Quiet, sm_disk = d, sm_arg = 0, sm_late = 0,
     sm_cs = \<lparr>ctl = 0, due = 0, resp = 0, tries = n, scr_left = 0\<rparr>\<rparr>"

lemma cold_card_ok: "ram_invar d \<Longrightarrow> sd_sim_ok (cold_card n d)"
  by (simp add: cold_card_def sd_sim_ok_def)

theorem sd_init_comes_up_witness:
  "\<exists>s'. sd_init sd_sim_bus \<lparr>hw = cold_card 4 (\<lambda>_. replicate 512 7), sd_scr0 = 9, sd_scr1 = 9, sd_err = 9,
        sd_hv = 9, sd_rca = 9\<rparr> = Some (SD_OK, s')
    \<and> at_rest sm_phase sd_sim_ok True s' \<and> sm_disk (hw s') = (\<lambda>_. replicate 512 7)"
  using sd_init_comes_up [OF sd_sim.sd_host_axioms, where s = "\<lparr>hw = cold_card 4 (\<lambda>_. replicate 512 7), sd_scr0 = 9,
      sd_scr1 = 9, sd_err = 9, sd_hv = 9, sd_rca = 9\<rparr>"] cold_card_ok[of "\<lambda>_. replicate 512 7" 4]
  by (simp add: cold_card_def ram_invar_def)

end
