(* ===== verification/Pi_Start.thy ===== *)
theory Pi_Start
  imports Boot_New Sd_Ready
begin

text \<open>
  \<open>_cstart\<close> of \<open>src/pi-src/main.c\<close>: clearing the bss, setting the card up, and \<open>entry\<close> on the SD driver.
  With it the whole program of a Pi is one definition over an arbitrary controller, and the path
  of an id is followed from power-up to power-up.
\<close>

section \<open>The C runtime\<close>

text \<open>
  The static variables of \<open>fat32.c\<close> and \<open>bzt-sd.c\<close> lie in the bss, which \<open>memset\<close> clears; \<open>r0\<close> and \<open>w0\<close> are
  what null pointers are as functions. The rest of memory and the controller stay as they are.
\<close>

definition clear_bss :: "'h sd read_fn \<Rightarrow> 'h sd write_fn \<Rightarrow> 'h sd fs \<Rightarrow> 'h sd fs" where
  "clear_bss r0 w0 s = boot_fs r0 w0 (mem s)
     \<lparr>hw = hw (dev s), sd_scr0 = 0, sd_scr1 = 0, sd_err = 0, sd_hv = 0, sd_rca = 0\<rparr>"

text \<open>What \<open>sd_init\<close> returns is not looked at.\<close>

definition cstart ::
  "'h bus \<Rightarrow> 'h sd read_fn \<Rightarrow> 'h sd write_fn \<Rightarrow> bytes \<Rightarrow> bytes \<Rightarrow> bytes \<Rightarrow> bytes
    \<Rightarrow> ('h sd fs, unit) serial" where
  "cstart bus r0 w0 name0 b1 b2 sec0 p =
     (let s = clear_bss r0 w0 (env p) in
      case sd_init bus (dev s) of
        None \<Rightarrow> (Diverged, p\<lparr>env := s\<rparr>)
      | Some (r, d) \<Rightarrow>
          entry (sd_read_fn bus) (sd_write_fn bus) name0 b1 b2 sec0 (p\<lparr>env := s\<lparr>dev := d\<rparr>\<rparr>))"

lemma cstart_entry:
  assumes "sd_init bus (dev (clear_bss r0 w0 s)) = Some (r, d)"
  shows "cstart bus r0 w0 name0 b1 b2 sec0 (fresh s Y) =
    entry (sd_read_fn bus) (sd_write_fn bus) name0 b1 b2 sec0 (fresh (boot_fs r0 w0 (mem s) d) Y)"
  using assms by (simp add: cstart_def fresh_def) (simp add: clear_bss_def boot_fs_def)

lemma boot_agrees_cong:
  assumes "\<And>Y. prog (fresh s Y) = prog' (fresh s' Y)"
  shows "boot_agrees nm a h prog s claimed a' t = boot_agrees nm a h prog' s' claimed a' t"
proof -
  have "sent prog s = sent prog' s'" by (intro ext) (simp add: sent_def assms)
  then show ?thesis by (simp add: boot_agrees_def assms)
qed

section \<open>From power-up\<close>

text \<open>A controller and card as they are when the program starts.\<close>

definition powered_up :: "('h \<Rightarrow> xfer) \<Rightarrow> ('h \<Rightarrow> bool) \<Rightarrow> ('h \<Rightarrow> ctl_state) \<Rightarrow> 'h \<Rightarrow> bool" where
  "powered_up phase ok cs h \<longleftrightarrow> ok h \<and> phase h = Quiet \<and> tries (cs h) < 5"

lemma cstart_comes_up:
  assumes "sd_host bus phase disk arg1 late ok sect ccs good cs" "powered_up phase ok cs (hw (dev s))"
  obtains d where "at_rest phase ok ccs d" "disk (hw d) = disk (hw (dev s))"
    "\<And>name0 b1 b2 sec0 nm a h claimed a' t.
      boot_agrees nm a h (cstart bus r0 w0 name0 b1 b2 sec0) s claimed a' t =
      boot_agrees nm a h (entry (sd_read_fn bus) (sd_write_fn bus) name0 b1 b2 sec0)
        (boot_fs r0 w0 (mem s) d) claimed a' t"
proof -
  let ?d0 = "dev (clear_bss r0 w0 s)"
  have h: "hw ?d0 = hw (dev s)" by (simp add: clear_bss_def boot_fs_def)
  have "sd_host.resting phase ok ?d0" "tries (cs (hw ?d0)) < 5"
    using assms(2) by (simp_all add: sd_host.resting_def[OF assms(1)] powered_up_def h)
  then obtain d where d: "sd_init bus ?d0 = Some (SD_OK, d)" "at_rest phase ok ccs d" "disk (hw d) = disk (hw ?d0)"
    using sd_host.sd_init_up[OF assms(1)] by blast
  show thesis
    by (rule that[OF d(2)]) (use d(3) h in simp, rule boot_agrees_cong, rule cstart_entry[OF d(1)])
qed

text \<open>What a second boot tells the host, whatever device it starts on, it tells after a power cycle.\<close>

lemma told_after_cycle:
  assumes "sd_host bus phase disk arg1 late ok sect ccs good cs"
    and "\<And>h. ok h \<Longrightarrow> powered_up phase ok cs (cycle h) \<and> disk (cycle h) = disk h"
    and "at_rest phase ok ccs (dev s)"
    and "\<And>d2 r1 w1 m1. at_rest phase ok ccs d2 \<Longrightarrow> disk (hw d2) = disk (hw (dev s)) \<Longrightarrow>
      \<exists>claimed t. boot_agrees nm a h (entry (sd_read_fn bus) (sd_write_fn bus) name0 b1 b2 sec0)
          (boot_fs r1 w1 m1 d2) claimed a t \<and> claimed AND 0xff = v"
  shows "\<exists>claimed t. boot_agrees nm a h (cstart bus r1 w1 name0 b1 b2 sec0)
      (u\<lparr>dev := (dev u)\<lparr>hw := cycle (hw (dev s))\<rparr>\<rparr>) claimed a t \<and> claimed AND 0xff = v"
proof -
  let ?u = "u\<lparr>dev := (dev u)\<lparr>hw := cycle (hw (dev s))\<rparr>\<rparr>"
  have ok: "ok (hw (dev s))" using assms(3) by (simp add: at_rest_def)
  then have up: "powered_up phase ok cs (hw (dev ?u))" using assms(2) by simp
  obtain d2 where d2: "at_rest phase ok ccs d2" "disk (hw d2) = disk (hw (dev ?u))"
    "\<And>claimed a' t. boot_agrees nm a h (cstart bus r1 w1 name0 b1 b2 sec0) ?u claimed a' t =
      boot_agrees nm a h (entry (sd_read_fn bus) (sd_write_fn bus) name0 b1 b2 sec0)
        (boot_fs r1 w1 (mem ?u) d2) claimed a' t"
    using cstart_comes_up[OF assms(1) up, where ?r0.0 = r1 and ?w0.0 = w1] by metis
  have "disk (hw d2) = disk (hw (dev s))" using d2(2) assms(2)[OF ok] by simp
  then show ?thesis using assms(4)[OF d2(1)] unfolding d2(3) by blast
qed

text \<open>
  C4: the id a Pi is given survives power cycles, from the reset of the processor on and over the SD driver. A Pi whose
  card has no entry for the store yet and a free one is powered up and boots: the host's next id becomes
  its id, and the other entries of the card are as they were. After any power cycle, with
  whatever the memory then holds and any host offering any id, the Pi tells that host the same id.
\<close>

theorem id_survives_power_cycle:
  assumes "sd_host bus phase disk arg1 late ok sect ccs good cs" "powered_up phase ok cs (hw (dev s))"
    and "\<And>h. ok h \<Longrightarrow> powered_up phase ok cs (cycle h) \<and> disk (cycle h) = disk h"
    and "D = disk (hw (dev s))" "dfs_card D p cfg" "\<And>l. l \<in> boot_lbas D p cfg \<Longrightarrow> good l"
    and "length b1 = 512" "length sec0 = 512" "connected h" "whole_name nm" "length name0 = 30"
    and "lba = cluster_lba D p cfg" "lba \<notin> header_lbas D p"
    and "n < 16" "\<And>i. i < n \<Longrightarrow> other_entry (D lba) nm i" "dfs_id (D lba) n ! 0 = 0" "str_of nm \<noteq> []"
    and "length b1' = 512" "length sec0' = 512" "connected h2" "length name0' = 30"
  shows "\<exists>claimed s' claimed2 s2.
      boot_agrees nm a h (cstart bus r0 w0 name0 b1 b2 sec0) s claimed (a + 1) s'
    \<and> claimed AND 0xff = a AND 0xff
    \<and> (\<forall>i < 16. i \<noteq> n \<longrightarrow> dfs_id (disk (hw (dev s')) lba) i = dfs_id (D lba) i
          \<and> entry_id (disk (hw (dev s')) lba) i = entry_id (D lba) i)
    \<and> boot_agrees nm a2 h2 (cstart bus r1 w1 name0' b1' b2' sec0')
        (t\<lparr>dev := (dev t)\<lparr>hw := cycle (hw (dev s'))\<rparr>\<rparr>) claimed2 a2 s2
    \<and> claimed2 AND 0xff = a AND 0xff"
proof -
  note drv = emmc_host.driver_device[OF sd_host.axioms(1)[OF assms(1)]]
  obtain d where d: "at_rest phase ok ccs d" "disk (hw d) = D"
    "\<And>claimed a' t. boot_agrees nm a h (cstart bus r0 w0 name0 b1 b2 sec0) s claimed a' t =
      boot_agrees nm a h (entry (sd_read_fn bus) (sd_write_fn bus) name0 b1 b2 sec0)
        (boot_fs r0 w0 (mem s) d) claimed a' t"
    using cstart_comes_up[OF assms(1,2), where ?r0.0 = r0 and ?w0.0 = w0] assms(4) by metis
  obtain claimed s' where 1:
    "boot_agrees nm a h (entry (sd_read_fn bus) (sd_write_fn bus) name0 b1 b2 sec0)
      (boot_fs r0 w0 (mem s) d) claimed (a + 1) s'"
    "claimed AND 0xff = a AND 0xff" "at_rest phase ok ccs (dev s')"
    "same_other_entries n (D lba) (disk (hw (dev s')) lba)"
    and again: "\<And>d2 r1 w1 m1. at_rest phase ok ccs d2 \<Longrightarrow> disk (hw d2) = disk (hw (dev s')) \<Longrightarrow>
      \<exists>claimed2 s2. boot_agrees nm a2 h2 (entry (sd_read_fn bus) (sd_write_fn bus) name0' b1' b2' sec0')
          (boot_fs r1 w1 m1 d2) claimed2 a2 s2 \<and> claimed2 AND 0xff = a AND 0xff"
    using id_survives_reboot[OF drv d(1), unfolded d(2), OF assms(5-12) refl assms(13-17)] assms(18-21) by metis
  obtain claimed2 s2 where 2: "boot_agrees nm a2 h2 (cstart bus r1 w1 name0' b1' b2' sec0')
      (t\<lparr>dev := (dev t)\<lparr>hw := cycle (hw (dev s'))\<rparr>\<rparr>) claimed2 a2 s2" "claimed2 AND 0xff = a AND 0xff"
    using told_after_cycle[OF assms(1,3) 1(3) again, of r1 w1 t] by blast
  show ?thesis
    using 1(1,2) 1(4)[unfolded same_other_entries_def] 2 d(3)
    by (intro exI[of _ claimed] exI[of _ s'] exI[of _ claimed2] exI[of _ s2]) simp
qed

text \<open>A Pi with a card without entries, asked to join as number 5; it comes up after four rounds.\<close>

definition demo_pi :: "sd_sim sd fs" where
  "demo_pi = boot_fs (sd_read_fn sd_sim_bus) (sd_write_fn sd_sim_bus) (\<lambda>_. 7)
     \<lparr>hw = cold_card 4 (store_card []), sd_scr0 = 1, sd_scr1 = 2, sd_err = 3, sd_hv = 4, sd_rca = 5\<rparr>"

lemma demo_power:
  "sd_sim_ok h \<Longrightarrow> powered_up sm_phase sd_sim_ok sm_cs (cold_card 2 (sm_disk h)) \<and> sm_disk (cold_card 2 (sm_disk h)) = sm_disk h"
  by (simp add: powered_up_def cold_card_def sd_sim_ok_def)

theorem id_survives_power_cycle_witness:
  "\<exists>claimed s' claimed2 s2.
      boot_agrees (ascii ''abcd'') 5 demo_host (cstart sd_sim_bus (sd_read_fn sd_sim_bus) (sd_write_fn sd_sim_bus)
        (replicate 30 0) (replicate 512 0) [] (replicate 512 0)) demo_pi claimed (5 + 1) s'
    \<and> claimed AND 0xff = 5 AND 0xff
    \<and> (\<forall>i < 16. i \<noteq> 0 \<longrightarrow> dfs_id (sm_disk (hw (dev s')) 45) i = dfs_id (store_card [] 45) i
          \<and> entry_id (sm_disk (hw (dev s')) 45) i = entry_id (store_card [] 45) i)
    \<and> boot_agrees (ascii ''abcd'') 9 demo_host (cstart sd_sim_bus (sd_read_fn sd_sim_bus) (sd_write_fn sd_sim_bus)
        (replicate 30 1) (replicate 512 1) [] (replicate 512 1))
        (demo_pi\<lparr>dev := (dev demo_pi)\<lparr>hw := cold_card 2 (sm_disk (hw (dev s')))\<rparr>\<rparr>) claimed2 9 s2
    \<and> claimed2 AND 0xff = 5 AND 0xff"
proof -
  have hw: "hw (dev demo_pi) = cold_card 4 (store_card [])" by (simp add: demo_pi_def boot_fs_def)
  have D: "sm_disk (cold_card 4 (store_card [])) = store_card []" by (simp add: cold_card_def)
  have up: "powered_up sm_phase sd_sim_ok sm_cs (hw (dev demo_pi))"
    using cold_card_ok[OF store_card_invar[of "[]"]] unfolding hw by (simp add: powered_up_def cold_card_def)
  have "lba_begin (partition_at demo_card 0) \<noteq> 45" by code_simp
  moreover have "43 + of_nat k \<noteq> (45 :: u32)" if "k < 2" for k
    using that by (auto simp: less_2_cases_iff)
  ultimately have "45 \<notin> header_lbas (store_card []) 0"
    by (force simp: header_lbas_def store_card_layout demo_card_volume cluster_lba_def
        FAT32_ROOT_CLUSTER_NO_def)
  then show ?thesis
    by (intro id_survives_power_cycle [OF sd_sim.sd_host_axioms up demo_power, where D = "store_card []" and p = 0
          and cfg = 3 and n = 0 and a = 5 and lba = 45])
       (simp_all add: hw D store_card_dfs store_card_layout store_card_config store_config_entry abcd demo_host_def)
qed

section \<open>A new card\<close>

lemma new_card_first_boot:
  assumes "sd_host bus phase disk arg1 late ok sect ccs good cs" "powered_up phase ok cs (hw (dev s))"
    and "D = disk (hw (dev s))" "new_card D p" "\<And>l. l \<in> mount_lbas D p \<union> data_lbas D p \<Longrightarrow> good l"
    and "length b1 = 512" "length b2 = 512" "length sec0 = 512"
    and "connected h" "whole_name nm" "length name0 = 30" "str_of nm \<noteq> []"
    and "lba = cluster_lba D p (hd (new_clusters D p))"
  obtains claimed s' where "boot_agrees nm a h (cstart bus r0 w0 name0 b1 b2 sec0) s claimed (a + 1) s'"
    "claimed AND 0xff = a AND 0xff" "at_rest phase ok ccs (dev s')"
    "config_added D p (disk (hw (dev s')))" "holds_id (disk (hw (dev s')) lba) nm 0 a"
    "\<And>d2 h2 a2 name0' b1' b2' sec0' r1 w1 m1. at_rest phase ok ccs d2 \<Longrightarrow> disk (hw d2) = disk (hw (dev s'))
      \<Longrightarrow> connected h2 \<Longrightarrow> length b1' = 512 \<Longrightarrow> length sec0' = 512 \<Longrightarrow> length name0' = 30 \<Longrightarrow>
      \<exists>claimed2 s2. boot_agrees nm a2 h2 (entry (sd_read_fn bus) (sd_write_fn bus) name0' b1' b2' sec0')
          (boot_fs r1 w1 m1 d2) claimed2 a2 s2 \<and> claimed2 AND 0xff = a AND 0xff"
proof -
  note drv = emmc_host.driver_device[OF sd_host.axioms(1)[OF assms(1)]]
  obtain d where d: "at_rest phase ok ccs d" "disk (hw d) = D"
    "\<And>claimed a' t. boot_agrees nm a h (cstart bus r0 w0 name0 b1 b2 sec0) s claimed a' t =
      boot_agrees nm a h (entry (sd_read_fn bus) (sd_write_fn bus) name0 b1 b2 sec0)
        (boot_fs r0 w0 (mem s) d) claimed a' t"
    using cstart_comes_up[OF assms(1,2), where ?r0.0 = r0 and ?w0.0 = w0] assms(3) by metis
  show thesis
    by (rule new_card_boots[OF drv d(1), unfolded d(2), OF assms(4-13), where ?r0.0 = r0 and ?w0.0 = w0
          and m = "mem s" and a = a], assumption, rule that, simp only: d(3), assumption+)
qed

text \<open>
  C3: a Pi with a new card joins the store. The card has a FAT32 volume with room for a file in the
  root directory and two free clusters among the entries that mounting loads, but no configuration
  file. On its first boot the Pi creates the file in the two lowest free clusters and takes the host's
  next id, recorded in the first entry. On the card the two clusters are a chain, no other entry of the
  first table sector has changed, every file of the root directory is still found at its cluster,
  and no sector has changed but that one, the directory's and the first ones of the new clusters.
  After any power cycle the Pi tells any host that id.
\<close>

theorem new_card_joins_store:
  assumes "sd_host bus phase disk arg1 late ok sect ccs good cs" "powered_up phase ok cs (hw (dev s))"
    and "\<And>h. ok h \<Longrightarrow> powered_up phase ok cs (cycle h) \<and> disk (cycle h) = disk h"
    and "D = disk (hw (dev s))" "new_card D p" "\<And>l. l \<in> mount_lbas D p \<union> data_lbas D p \<Longrightarrow> good l"
    and "length b1 = 512" "length b2 = 512" "length sec0 = 512"
    and "connected h" "whole_name nm" "length name0 = 30" "str_of nm \<noteq> []"
    and "lba = cluster_lba D p (hd (new_clusters D p))"
    and "length b1' = 512" "length sec0' = 512" "connected h2" "length name0' = 30"
  shows "\<exists>claimed s' claimed2 s2.
      boot_agrees nm a h (cstart bus r0 w0 name0 b1 b2 sec0) s claimed (a + 1) s'
    \<and> claimed AND 0xff = a AND 0xff
    \<and> config_added D p (disk (hw (dev s'))) \<and> holds_id (disk (hw (dev s')) lba) nm 0 a
    \<and> boot_agrees nm a2 h2 (cstart bus r1 w1 name0' b1' b2' sec0')
        (t\<lparr>dev := (dev t)\<lparr>hw := cycle (hw (dev s'))\<rparr>\<rparr>) claimed2 a2 s2
    \<and> claimed2 AND 0xff = a AND 0xff"
proof -
  obtain claimed s' where 1: "boot_agrees nm a h (cstart bus r0 w0 name0 b1 b2 sec0) s claimed (a + 1) s'"
    "claimed AND 0xff = a AND 0xff" "at_rest phase ok ccs (dev s')"
    "config_added D p (disk (hw (dev s')))" "holds_id (disk (hw (dev s')) lba) nm 0 a"
    and again: "\<And>d2 r1 w1 m1. at_rest phase ok ccs d2 \<Longrightarrow> disk (hw d2) = disk (hw (dev s')) \<Longrightarrow>
      \<exists>claimed2 s2. boot_agrees nm a2 h2 (entry (sd_read_fn bus) (sd_write_fn bus) name0' b1' b2' sec0')
          (boot_fs r1 w1 m1 d2) claimed2 a2 s2 \<and> claimed2 AND 0xff = a AND 0xff"
    using new_card_first_boot[OF assms(1,2,4-14)] assms(15-18) by metis
  obtain claimed2 s2 where 2: "boot_agrees nm a2 h2 (cstart bus r1 w1 name0' b1' b2' sec0')
      (t\<lparr>dev := (dev t)\<lparr>hw := cycle (hw (dev s'))\<rparr>\<rparr>) claimed2 a2 s2" "claimed2 AND 0xff = a AND 0xff"
    using told_after_cycle[OF assms(1,3) 1(3) again, of r1 w1 t] by blast
  show ?thesis
    using 1(1,2,4,5) 2 by (intro exI[of _ claimed] exI[of _ s'] exI[of _ claimed2] exI[of _ s2]) simp
qed

definition new_pi :: "sd_sim sd fs" where
  "new_pi = demo_pi\<lparr>dev := (dev demo_pi)\<lparr>hw := cold_card 4 fresh_card\<rparr>\<rparr>"

theorem new_card_joins_store_witness:
  "\<exists>claimed s' claimed2 s2.
      boot_agrees (ascii ''abcd'') 5 demo_host (cstart sd_sim_bus (sd_read_fn sd_sim_bus) (sd_write_fn sd_sim_bus)
        (replicate 30 0) (replicate 512 0) (replicate 512 0) (replicate 512 0)) new_pi claimed (5 + 1) s'
    \<and> claimed AND 0xff = 5 AND 0xff
    \<and> config_added fresh_card 0 (sm_disk (hw (dev s')))
    \<and> holds_id (sm_disk (hw (dev s')) 45) (ascii ''abcd'') 0 5
    \<and> boot_agrees (ascii ''abcd'') 9 demo_host (cstart sd_sim_bus (sd_read_fn sd_sim_bus) (sd_write_fn sd_sim_bus)
        (replicate 30 1) (replicate 512 1) [] (replicate 512 1))
        (new_pi\<lparr>dev := (dev new_pi)\<lparr>hw := cold_card 2 (sm_disk (hw (dev s')))\<rparr>\<rparr>) claimed2 9 s2
    \<and> claimed2 AND 0xff = 5 AND 0xff"
proof -
  have hw: "hw (dev new_pi) = cold_card 4 fresh_card" by (simp add: new_pi_def)
  have D: "sm_disk (cold_card 4 fresh_card) = fresh_card" by (simp add: cold_card_def)
  have up: "powered_up sm_phase sd_sim_ok sm_cs (hw (dev new_pi))"
    using cold_card_ok[OF fresh_card_invar] unfolding hw by (simp add: powered_up_def cold_card_def)
  show ?thesis
    by (intro new_card_joins_store [OF sd_sim.sd_host_axioms up demo_power, where D = fresh_card and p = 0
          and a = 5 and lba = 45])
       (simp_all add: hw D fresh_card_new fresh_card_clusters fresh_card_layout abcd demo_host_def)
qed

end
