(* ===== verification/Pi_Fleet.thy ===== *)
theory Pi_Fleet
  imports Pi_Install Pi_Start
begin

text \<open>
  A new store: the host program \<open>src/mac-src/pi-install.c\<close> on one side of each serial line, the program of
  \<open>src/pi-src/main.c\<close>, started by a boot loader, with its SD driver, file system and card on the other.
\<close>

section \<open>One Pi on its line\<close>

text \<open>
  A Pi as the host sees it and as it starts: the serial device, the state of its memory and controller at
  power-up, the partition of its card, what its stack holds (\<open>dfs_name\<close> and the buffers of the routines
  called), and the bytes of \<open>dfs_boot\<close> that reach it.
\<close>

record 'h member =
  m_device :: device
  m_start :: "'h sd fs"
  m_part :: nat
  m_name0 :: bytes
  m_b1 :: bytes
  m_b2 :: bytes
  m_sec0 :: bytes
  m_host :: bytes

definition m_program ::
  "'h bus \<Rightarrow> 'h sd read_fn \<Rightarrow> 'h sd write_fn \<Rightarrow> 'h member \<Rightarrow> ('h sd fs, unit) serial" where
  "m_program bus r0 w0 u = cstart bus r0 w0 (m_name0 u) (m_b1 u) (m_b2 u) (m_sec0 u)"

definition m_after :: "'h bus \<Rightarrow> 'h sd read_fn \<Rightarrow> 'h sd write_fn \<Rightarrow> 'h member \<Rightarrow> 'h sd fs" where
  "m_after bus r0 w0 u = env (snd (m_program bus r0 w0 u (fresh (m_start u) (m_host u))))"

text \<open>
  A device the host can open, and buffers of their sizes. Then a new card in a Pi that has just been powered
  up; and a Pi powered up again, by \<open>cycle\<close>, after it was left in the state \<open>s\<close>, whatever its memory holds.
\<close>

definition ready_member :: "'h member \<Rightarrow> bool" where
  "ready_member u \<longleftrightarrow> length (m_name0 u) = 30 \<and> length (m_b1 u) = 512 \<and> length (m_b2 u) = 512 \<and> length (m_sec0 u) = 512
     \<and> (\<exists>fd. open_device (m_device u) = Ret fd \<and> fd \<noteq> - 1) \<and> dev_ready (m_device u) = 1"

definition new_member ::
  "('h \<Rightarrow> xfer) \<Rightarrow> ('h \<Rightarrow> u32 \<Rightarrow> bytes) \<Rightarrow> ('h \<Rightarrow> bool) \<Rightarrow> (u32 \<Rightarrow> bool) \<Rightarrow> ('h \<Rightarrow> ctl_state) \<Rightarrow> 'h member \<Rightarrow> bool" where
  "new_member phase disk ok good cs u \<longleftrightarrow>
     (let D = disk (hw (dev (m_start u))); p = m_part u
      in powered_up phase ok cs (hw (dev (m_start u))) \<and> new_card D p
         \<and> (\<forall>l \<in> mount_lbas D p \<union> data_lbas D p. good l)
         \<and> ready_member u)"

definition back_up :: "('h \<Rightarrow> 'h) \<Rightarrow> 'h sd fs \<Rightarrow> 'h member \<Rightarrow> bool" where
  "back_up cycle s v \<longleftrightarrow> hw (dev (m_start v)) = cycle (hw (dev s)) \<and> ready_member v"

text \<open>The host once the loader has reported success.\<close>

definition opened :: pi where
  "opened = \<lparr>pi_open = True, connected = True, shown = []\<rparr>"

text \<open>
  The line of the Pi: the boot loader asks for the program and starts it, then the program and \<open>dfs_boot\<close>,
  offering \<open>a\<close>, talk to each other in some order of deliveries until nothing is left to deliver.
\<close>

definition on_line ::
  "'h bus \<Rightarrow> 'h sd read_fn \<Rightarrow> 'h sd write_fn \<Rightarrow> bytes \<Rightarrow> u32 \<Rightarrow> 'h member \<Rightarrow> bool" where
  "on_line bus r0 w0 nm a u \<longleftrightarrow> (\<exists>noise k junk X. quiet noise \<and> BOOT_SUCCESS \<notin> set junk \<and> length junk \<le> 0xFFFF0001
     \<and> dev_line (m_device u) = loader_says noise k junk @ X
     \<and> line_runs (host_sends nm a opened) (sent (m_program bus r0 w0 u) (m_start u)) ([], []) (X, m_host u)
     \<and> all_delivered (host_sends nm a opened) (sent (m_program bus r0 w0 u) (m_start u)) (X, m_host u))"

lemma inevitable_unique:
  assumes "inevitable f g S" "line_runs f g ([], []) T" "all_delivered f g T"
  shows "T = S"
proof -
  have "(line_step f g)\<^sup>*\<^sup>* T S" using assms(1,2) unfolding inevitable_def line_runs_def by blast
  then show ?thesis
  proof (cases rule: converse_rtranclpE)
    case (step U)
    obtain xs ys where T: "T = (xs, ys)" by force
    have "\<not> prefix (zs @ [b]) zs" for zs and b :: u8 by (auto dest: prefix_length_le)
    then show ?thesis using step(1) assms(3) unfolding T all_delivered_def by auto
  qed simp
qed

lemma boot_then_agree:
  assumes "quiet noise" "BOOT_SUCCESS \<notin> set junk" "length junk \<le> 0xFFFF0001" "unat n \<le> length prog"
    and "\<forall>os. \<exists>p. dfs_boot k (name_to_send nm) (words_to_send nm) a \<lparr>inp = X, outp = os, env = opened\<rparr> =
      (Ret (0, claimed, a'), p) \<and> inp p = ascii done_line"
  shows "fst (boot_pi prog n nm k a (fresh \<lparr>pi_open = False, connected = True, shown = []\<rparr>
      (loader_says noise j junk @ X))) = Ret (True, claimed, a')"
proof -
  let ?w = "\<lparr>pi_open = False, connected = True, shown = []\<rparr>"
  have w: "connected ?w" by simp
  note b = boot_run[OF w assms(1,4,2,3), of j X]
  have e: "?w\<lparr>pi_open := True\<rparr> = opened" by (simp add: opened_def)
  show ?thesis
    unfolding boot_pi_def fresh_def andthen_def[of "boot prog n"] b e prod.case outcome.case
    using assms(5)[rule_format, of "words [PUT_PROG_INFO, ARMBASE, n, crc32_bitwise (take (unat n) prog), PUT_CODE]
         @ take (unat n) prog"]
    by (auto simp: andthen_def)
qed

definition m_disk :: "('h \<Rightarrow> u32 \<Rightarrow> bytes) \<Rightarrow> 'h member \<Rightarrow> u32 \<Rightarrow> bytes" where
  "m_disk disk u = disk (hw (dev (m_start u)))"

text \<open>The first sector of the configuration file, once it exists.\<close>

definition m_config :: "('h \<Rightarrow> u32 \<Rightarrow> bytes) \<Rightarrow> 'h bus \<Rightarrow> 'h sd read_fn \<Rightarrow> 'h sd write_fn \<Rightarrow> 'h member \<Rightarrow> bytes" where
  "m_config disk bus r0 w0 u = disk (hw (dev (m_after bus r0 w0 u)))
     (cluster_lba (m_disk disk u) (m_part u) (hd (new_clusters (m_disk disk u) (m_part u))))"

lemma on_line_after:
  assumes "boot_agrees nm a opened (m_program bus r0 w0 u) (m_start u) claimed a' s'" "on_line bus r0 w0 nm a u"
  shows "m_after bus r0 w0 u = s'"
    and "ready_member u \<Longrightarrow> unat n \<le> length prog \<Longrightarrow> claimed AND 0xff = b AND 0xff \<Longrightarrow>
      answers_boot prog n nm a a' b (m_device u)"
proof -
  obtain X Y q where r: "inevitable (host_sends nm a opened) (sent (m_program bus r0 w0 u) (m_start u)) (X, Y)"
    "\<forall>os. \<exists>p. dfs_boot 1 (name_to_send nm) (words_to_send nm) a \<lparr>inp = X, outp = os, env = opened\<rparr> =
      (Ret (0, claimed, a'), p) \<and> inp p = ascii done_line"
    "m_program bus r0 w0 u (fresh (m_start u) Y) = (Ret (), q)" "env q = s'"
    using assms(1) unfolding boot_agrees_def by blast
  obtain noise k junk X' where l: "quiet noise" "BOOT_SUCCESS \<notin> set junk" "length junk \<le> 0xFFFF0001"
    "dev_line (m_device u) = loader_says noise k junk @ X'"
    "line_runs (host_sends nm a opened) (sent (m_program bus r0 w0 u) (m_start u)) ([], []) (X', m_host u)"
    "all_delivered (host_sends nm a opened) (sent (m_program bus r0 w0 u) (m_start u)) (X', m_host u)"
    using assms(2) unfolding on_line_def by blast
  have XY: "X' = X" "m_host u = Y" using inevitable_unique[OF r(1) l(5,6)] by simp_all
  show "m_after bus r0 w0 u = s'" using r(3,4) XY by (simp add: m_after_def)
  assume u: "ready_member u" "unat n \<le> length prog" "claimed AND 0xff = b AND 0xff"
  have ready: "dev_ready (m_device u) = 1" using u(1) by (simp add: ready_member_def)
  obtain fd where "open_device (m_device u) = Ret fd" "fd \<noteq> - 1" using u(1) by (auto simp: ready_member_def)
  then show "answers_boot prog n nm a a' b (m_device u)"
    unfolding answers_boot_def ready l(4) XY using boot_then_agree[OF l(1-3) u(2) r(2)] u(3) by blast
qed

text \<open>A new Pi takes the id it is offered, and claims it after every power cycle.\<close>

lemma member_joins:
  assumes "sd_host bus phase disk arg1 late ok sect ccs good cs" "new_member phase disk ok good cs u"
    and "whole_name nm" "str_of nm \<noteq> []" "on_line bus r0 w0 nm a u"
  shows "unat n \<le> length prog \<Longrightarrow> answers_boot prog n nm a (a + 1) a (m_device u)"
    and "config_added (m_disk disk u) (m_part u) (disk (hw (dev (m_after bus r0 w0 u))))"
    and "holds_id (m_config disk bus r0 w0 u) nm 0 a"
    and "(\<And>h. ok h \<Longrightarrow> powered_up phase ok cs (cycle h) \<and> disk (cycle h) = disk h) \<Longrightarrow>
      back_up cycle (m_after bus r0 w0 u) v \<Longrightarrow>
      \<exists>claimed t. boot_agrees nm a2 opened (m_program bus r1 w1 v) (m_start v) claimed a2 t \<and> claimed AND 0xff = a AND 0xff"
    and "(\<And>h. ok h \<Longrightarrow> powered_up phase ok cs (cycle h) \<and> disk (cycle h) = disk h) \<Longrightarrow>
      back_up cycle (m_after bus r0 w0 u) v \<Longrightarrow> on_line bus r1 w1 nm a2 v \<Longrightarrow> unat n \<le> length prog \<Longrightarrow>
      answers_boot prog n nm a2 a2 a (m_device v)"
proof -
  let ?D = "m_disk disk u" and ?p = "m_part u"
  note nm = assms(2)[unfolded new_member_def Let_def, folded m_disk_def]
  have h: "connected opened" by (simp add: opened_def)
  have up: "powered_up phase ok cs (hw (dev (m_start u)))" and card: "new_card ?D ?p"
    and good: "\<And>l. l \<in> mount_lbas ?D ?p \<union> data_lbas ?D ?p \<Longrightarrow> good l" and ready: "ready_member u"
    using nm by blast+
  have len: "length (m_b1 u) = 512" "length (m_b2 u) = 512" "length (m_sec0 u) = 512" "length (m_name0 u) = 30"
    using ready by (simp_all add: ready_member_def)
  obtain claimed s' where s': "boot_agrees nm a opened (m_program bus r0 w0 u) (m_start u) claimed (a + 1) s'"
    "claimed AND 0xff = a AND 0xff" "at_rest phase ok ccs (dev s')" "config_added ?D ?p (disk (hw (dev s')))"
    "holds_id (disk (hw (dev s')) (cluster_lba ?D ?p (hd (new_clusters ?D ?p)))) nm 0 a"
    and again: "\<And>d2 name0' b1' b2' sec0' r1 w1 m1. at_rest phase ok ccs d2 \<Longrightarrow> disk (hw d2) = disk (hw (dev s'))
      \<Longrightarrow> length b1' = 512 \<Longrightarrow> length sec0' = 512 \<Longrightarrow> length name0' = 30 \<Longrightarrow>
      \<exists>claimed2 s2. boot_agrees nm a2 opened (entry (sd_read_fn bus) (sd_write_fn bus) name0' b1' b2' sec0')
          (boot_fs r1 w1 m1 d2) claimed2 a2 s2 \<and> claimed2 AND 0xff = a AND 0xff"
    unfolding m_program_def
    using new_card_first_boot[OF assms(1) up m_disk_def card good len(1-3) h assms(3) len(4) assms(4) refl,
        where a = a and ?r0.0 = r0 and ?w0.0 = w0] h by metis
  note after = on_line_after(1)[OF s'(1) assms(5)]
  show "answers_boot prog n nm a (a + 1) a (m_device u)" if "unat n \<le> length prog"
    using on_line_after(2)[OF s'(1) assms(5) ready that s'(2)] .
  show "config_added ?D ?p (disk (hw (dev (m_after bus r0 w0 u))))" "holds_id (m_config disk bus r0 w0 u) nm 0 a"
    using s'(4,5) by (simp_all add: m_config_def after)
  show again': "\<exists>claimed t. boot_agrees nm a2 opened (m_program bus r1 w1 v) (m_start v) claimed a2 t \<and> claimed AND 0xff = a AND 0xff"
    if c: "\<And>h. ok h \<Longrightarrow> powered_up phase ok cs (cycle h) \<and> disk (cycle h) = disk h"
      and v: "back_up cycle (m_after bus r0 w0 u) v"
  proof -
    have v': "ready_member v" "hw (dev (m_start v)) = cycle (hw (dev s'))" using v by (simp_all add: back_up_def after)
    have len: "length (m_b1 v) = 512" "length (m_sec0 v) = 512" "length (m_name0 v) = 30"
      using v'(1) by (simp_all add: ready_member_def)
    have "m_start v = (m_start v)\<lparr>dev := (dev (m_start v))\<lparr>hw := cycle (hw (dev s'))\<rparr>\<rparr>"
      unfolding v'(2)[symmetric] by simp
    then show ?thesis
      using told_after_cycle[OF assms(1) c s'(3) again[OF _ _ len],
          where ?r1.0 = r1 and ?w1.0 = w1 and u = "m_start v" and ?b2.0 = "m_b2 v"]
      unfolding m_program_def by metis
  qed
  show "answers_boot prog n nm a2 a2 a (m_device v)"
    if c: "\<And>h. ok h \<Longrightarrow> powered_up phase ok cs (cycle h) \<and> disk (cycle h) = disk h"
      and v: "back_up cycle (m_after bus r0 w0 u) v" and l: "on_line bus r1 w1 nm a2 v" and n: "unat n \<le> length prog"
  proof -
    have "ready_member v" using v by (simp add: back_up_def)
    then show ?thesis using again'[OF c v] on_line_after(2)[OF _ l _ n] by blast
  qed
qed

section \<open>A store of new Pis\<close>

lemma entry_ids_distinct:
  assumes "length us \<le> 256" "\<And>i. i < length us \<Longrightarrow> entry_id (c (us ! i)) 0 = ucast ((a + of_nat i) AND 0xff :: u32)"
  shows "distinct (map (\<lambda>u. entry_id (c u) 0) us)"
proof -
  let ?f = "\<lambda>v. (ucast (v :: u16) :: u32) AND 0xff"
  have "map (\<lambda>u. entry_id (c u) 0) us = map (\<lambda>i. ucast ((a + of_nat i) AND 0xff :: u32)) [0..<length us]"
    using assms(2) by (intro nth_equalityI) simp_all
  then have "map ?f (map (\<lambda>u. entry_id (c u) 0) us) = map (\<lambda>i. (a + of_nat i) AND 0xff) [0..<length us]"
    by (simp add: low_byte_id)
  then have "distinct (map ?f (map (\<lambda>u. entry_id (c u) 0) us))" using low_ids_distinct[OF assms(1)] by metis
  then show ?thesis unfolding distinct_map[of ?f] by blast
qed

text \<open>A run over new Pis only.\<close>

lemma new_members_run:
  assumes "sd_host bus phase disk arg1 late ok sect ccs good cs"
    and "2 < length argv" "nm = argv ! 2" "f = fs nm" "progs (argv ! 1) = Some prog"
    and "init_dfs (f_opened f) (f_content f) (f_stack f) = Some (df, c0)" "a = u32_at df 0"
    and "whole_name nm" "str_of nm \<noteq> []"
    and "\<And>u. u \<in> set us \<Longrightarrow> new_member phase disk ok good cs u"
    and "\<And>i. i < length us \<Longrightarrow> on_line bus r0 w0 nm (a + of_nat i) (us ! i)"
  obtains s where "install argv fs progs (Some (map m_device us)) = (Some (Ret (True, s)),
      Some (if us = [] then c0 else write_back (splice 0 (bytes32 (a + of_nat (length us))) df) c0))"
    "taken (boots s) = map (\<lambda>i. a + of_nat i) [0..<length us]"
    "\<And>i. i < length us \<Longrightarrow> b_claimed (boots s ! i) AND 0xff = (a + of_nat i) AND 0xff"
proof -
  let ?n = "of_nat (length prog) :: u32"
  have n: "unat ?n \<le> length prog" by (simp add: unat_of_nat)
  note joins = member_joins[OF assms(1) assms(10)[OF nth_mem] assms(8,9) assms(11)]
  have ans: "answers_boot prog ?n nm (a + of_nat i) (a + of_nat (Suc i)) (a + of_nat i) (map m_device us ! i)"
    if "i < length (map m_device us)" for i
    using joins(1)[of i, OF _ _ n] that by (simp add: ac_simps)
  have a0: "a + of_nat 0 = u32_at df 0" using assms(7) by simp
  obtain s where s0: "boot_connected_pies (Some (map m_device us)) (Some prog) nm (u32_at df 0) = Ret (True, s)"
    "install argv fs progs (Some (map m_device us)) = (Some (Ret (True, s)),
       Some (if \<exists>i < length (map m_device us). a + of_nat i \<noteq> a + of_nat (Suc i)
         then write_back (splice 0 (bytes32 (a + of_nat (length (map m_device us)))) df) c0 else c0))"
    "\<And>i. i < length (map m_device us) \<Longrightarrow> b_before (boots s ! i) = a + of_nat i \<and> b_after (boots s ! i) = a + of_nat (Suc i)
        \<and> b_claimed (boots s ! i) AND 0xff = (a + of_nat i) AND 0xff"
    "length (taken (boots s)) = length (filter (\<lambda>i. a + of_nat i \<noteq> a + of_nat (Suc i)) [0..<length (map m_device us)])"
    by (rule install_answers[where progs = progs and fs = fs and a = "\<lambda>i. a + of_nat i", OF assms(2-6) a0 ans]) blast+
  have s: "install argv fs progs (Some (map m_device us)) = (Some (Ret (True, s)),
      Some (if us = [] then c0 else write_back (splice 0 (bytes32 (a + of_nat (length us))) df) c0))"
    "length (taken (boots s)) = length us"
    "\<And>i. i < length us \<Longrightarrow> b_claimed (boots s ! i) AND 0xff = (a + of_nat i) AND 0xff"
    using s0(2-4) by auto
  have t: "taken (boots s) = map (\<lambda>i. a + of_nat i) [0..<length us]"
    using boot_connected_ok[OF s0(1)] s(2) assms(7) by (simp add: ids_ok_def)
  show thesis by (rule that[OF s(1) t s(3)])
qed

text \<open>
  C1: a store of new Pis comes into being. The host program is run for a store whose name is made of
  whole words, with at most 256 Pis connected, each just powered up, with a new card and a boot loader that
  loads programs; the bytes on each line may be delivered in any order. Then the host program boots all
  of them and writes back, in the file of the store, the first id that is still free; the ids it gave
  out, from the one the file held on, are the ones the Pis claim; each is recorded on the Pi's card, in a
  configuration file created there without damage to what the card held; and no two cards record the
  same id.
\<close>

theorem new_store_boots:
  assumes "sd_host bus phase disk arg1 late ok sect ccs good cs"
    and "2 < length argv" "nm = argv ! 2" "f = fs nm" "progs (argv ! 1) = Some prog"
    and "init_dfs (f_opened f) (f_content f) (f_stack f) = Some (df, c0)" "a = u32_at df 0"
    and "whole_name nm" "str_of nm \<noteq> []" "length us \<le> 256"
    and "\<And>u. u \<in> set us \<Longrightarrow> new_member phase disk ok good cs u"
    and "\<And>i. i < length us \<Longrightarrow> on_line bus r0 w0 nm (a + of_nat i) (us ! i)"
  shows "\<exists>s. install argv fs progs (Some (map m_device us)) = (Some (Ret (True, s)),
        Some (if us = [] then c0 else write_back (splice 0 (bytes32 (a + of_nat (length us))) df) c0))
    \<and> taken (boots s) = map (\<lambda>i. a + of_nat i) [0..<length us]
    \<and> (\<forall>i < length us. b_claimed (boots s ! i) AND 0xff = (a + of_nat i) AND 0xff
        \<and> config_added (m_disk disk (us ! i)) (m_part (us ! i)) (disk (hw (dev (m_after bus r0 w0 (us ! i)))))
        \<and> holds_id (m_config disk bus r0 w0 (us ! i)) nm 0 (a + of_nat i))
    \<and> distinct (map (\<lambda>u. entry_id (m_config disk bus r0 w0 u) 0) us)"
proof -
  note joins = member_joins[OF assms(1) assms(11)[OF nth_mem] assms(8,9) assms(12)]
  obtain s where s: "install argv fs progs (Some (map m_device us)) = (Some (Ret (True, s)),
      Some (if us = [] then c0 else write_back (splice 0 (bytes32 (a + of_nat (length us))) df) c0))"
    "taken (boots s) = map (\<lambda>i. a + of_nat i) [0..<length us]"
    "\<And>i. i < length us \<Longrightarrow> b_claimed (boots s ! i) AND 0xff = (a + of_nat i) AND 0xff"
    by (rule new_members_run[where fs = fs and progs = progs, OF assms(1-9,11,12)]) blast+
  have "entry_id (m_config disk bus r0 w0 (us ! i)) 0 = ucast ((a + of_nat i) AND 0xff)" if "i < length us" for i
    using joins(3)[OF that that] by (simp add: holds_id_def)
  then have "distinct (map (\<lambda>u. entry_id (m_config disk bus r0 w0 u) 0) us)"
    by (rule entry_ids_distinct[OF assms(10)])
  then show ?thesis using s joins(2,3) by (intro exI[of _ s]) simp
qed

text \<open>Two Pis with freshly formatted cards join a store whose file says that 5 is the next id.\<close>

definition demo_member :: "sd_sim sd fs \<Rightarrow> bytes \<times> bytes \<Rightarrow> sd_sim member" where
  "demo_member s XY = \<lparr>m_device = (demo_device True 0)\<lparr>dev_line := loader_says [] 0 [] @ fst XY\<rparr>, m_start = s,
     m_part = 0, m_name0 = replicate 30 0, m_b1 = replicate 512 0, m_b2 = replicate 512 0,
     m_sec0 = replicate 512 0, m_host = snd XY\<rparr>"

lemma demo_member_ready: "ready_member (demo_member s XY)"
proof -
  have "open_device (m_device (demo_member s XY)) = Ret 3"
    using demo_device_open[of True 0] by (simp add: open_device_def demo_member_def)
  then show ?thesis by (simp add: ready_member_def) (simp add: demo_member_def demo_device_def)
qed

lemma demo_member_new: "new_member sm_phase sm_disk sd_sim_ok (\<lambda>_. True) sm_cs (demo_member new_pi XY)"
proof -
  have "hw (dev (m_start (demo_member new_pi XY))) = cold_card 4 fresh_card" by (simp add: demo_member_def new_pi_def)
  then show ?thesis
    using fresh_card_new cold_card_ok[OF fresh_card_invar] demo_member_ready[of new_pi XY]
    by (simp add: new_member_def powered_up_def Let_def) (simp add: demo_member_def cold_card_def)
qed

text \<open>The bytes on the line of such a Pi, from the end that every order of deliveries has.\<close>

abbreviation demo_program :: "sd_sim member \<Rightarrow> (sd_sim sd fs, unit) serial" where
  "demo_program \<equiv> m_program sd_sim_bus (sd_read_fn sd_sim_bus) (sd_write_fn sd_sim_bus)"

abbreviation demo_on_line :: "u32 \<Rightarrow> sd_sim member \<Rightarrow> bool" where
  "demo_on_line \<equiv> on_line sd_sim_bus (sd_read_fn sd_sim_bus) (sd_write_fn sd_sim_bus) (ascii ''abcd'')"

lemma demo_line:
  assumes "boot_agrees (ascii ''abcd'') a opened (demo_program (demo_member s XY0)) s claimed a' s'"
  shows "\<exists>XY. demo_on_line a (demo_member s XY)"
proof -
  have P: "demo_program (demo_member s XY) = demo_program (demo_member s XY0)" for XY
    by (simp add: m_program_def demo_member_def)
  obtain X Y where "inevitable (host_sends (ascii ''abcd'') a opened) (sent (demo_program (demo_member s XY0)) s) (X, Y)"
    using assms unfolding boot_agrees_def by blast
  then have r: "line_runs (host_sends (ascii ''abcd'') a opened) (sent (demo_program (demo_member s XY0)) s) ([], []) (X, Y)"
    "all_delivered (host_sends (ascii ''abcd'') a opened) (sent (demo_program (demo_member s XY0)) s) (X, Y)"
    by (simp_all add: inevitable_def line_runs_def)
  have "quiet []" by (simp add: quiet_def)
  then have "demo_on_line a (demo_member s (X, Y))"
    using r unfolding on_line_def P[of "(X, Y)"]
    by (intro exI[of _ "[]"] exI[of _ 0] exI[of _ X]) (simp add: demo_member_def)
  then show ?thesis by blast
qed

lemma demo_member_line: "\<exists>XY. demo_on_line a (demo_member new_pi XY)"
proof -
  have up: "powered_up sm_phase sd_sim_ok sm_cs (hw (dev new_pi))"
    using cold_card_ok[OF fresh_card_invar] by (simp add: new_pi_def powered_up_def cold_card_def)
  have D: "fresh_card = sm_disk (hw (dev new_pi))" by (simp add: new_pi_def cold_card_def)
  have c: "connected opened" by (simp add: opened_def)
  have l: "length (replicate 512 (0 :: u8)) = 512" "length (replicate 30 (0 :: u8)) = 30" by simp_all
  obtain claimed s' where "boot_agrees (ascii ''abcd'') a opened (cstart sd_sim_bus (sd_read_fn sd_sim_bus)
      (sd_write_fn sd_sim_bus) (replicate 30 0) (replicate 512 0) (replicate 512 0) (replicate 512 0))
      new_pi claimed (a + 1) s'"
    using new_card_first_boot[OF sd_sim.sd_host_axioms up D fresh_card_new TrueI l(1) l(1) l(1) c abcd(1) l(2) abcd(3) refl,
        where a = a] by metis
  then have "boot_agrees (ascii ''abcd'') a opened (demo_program (demo_member new_pi ([], []))) new_pi claimed (a + 1) s'"
    by (simp add: m_program_def demo_member_def)
  then show ?thesis by (rule demo_line)
qed

theorem new_store_boots_witness:
  "\<exists>us. length us = 2 \<and> (\<exists>s. install demo_argv (demo_files demo_store_file) demo_progs (Some (map m_device us)) =
      (Some (Ret (True, s)), Some (if us = [] then demo_store_file
         else write_back (splice 0 (bytes32 (5 + of_nat (length us))) demo_store_file) demo_store_file))
    \<and> taken (boots s) = map (\<lambda>i. 5 + of_nat i) [0..<length us]
    \<and> (\<forall>i < length us. b_claimed (boots s ! i) AND 0xff = (5 + of_nat i) AND 0xff
        \<and> config_added (m_disk sm_disk (us ! i)) (m_part (us ! i)) (sm_disk (hw (dev
             (m_after sd_sim_bus (sd_read_fn sd_sim_bus) (sd_write_fn sd_sim_bus) (us ! i)))))
        \<and> holds_id (m_config sm_disk sd_sim_bus (sd_read_fn sd_sim_bus) (sd_write_fn sd_sim_bus) (us ! i))
             (ascii ''abcd'') 0 (5 + of_nat i))
    \<and> distinct (map (\<lambda>u. entry_id (m_config sm_disk sd_sim_bus (sd_read_fn sd_sim_bus) (sd_write_fn sd_sim_bus) u) 0) us))"
proof -
  obtain XY XY' where l: "on_line sd_sim_bus (sd_read_fn sd_sim_bus) (sd_write_fn sd_sim_bus) (ascii ''abcd'') 5 (demo_member new_pi XY)"
    "on_line sd_sim_bus (sd_read_fn sd_sim_bus) (sd_write_fn sd_sim_bus) (ascii ''abcd'') 6 (demo_member new_pi XY')"
    using demo_member_line by metis
  let ?us = "[demo_member new_pi XY, demo_member new_pi XY']"
  have on: "on_line sd_sim_bus (sd_read_fn sd_sim_bus) (sd_write_fn sd_sim_bus) (ascii ''abcd'') (5 + of_nat i) (?us ! i)"
    if "i < length ?us" for i
    using that l by (auto simp: less_Suc_eq)
  have new: "new_member sm_phase sm_disk sd_sim_ok (\<lambda>_. True) sm_cs u" if "u \<in> set ?us" for u
    using that demo_member_new[of XY] demo_member_new[of XY'] by auto
  have f: "init_dfs (f_opened (demo_files demo_store_file (ascii ''abcd''))) (f_content (demo_files demo_store_file (ascii ''abcd'')))
      (f_stack (demo_files demo_store_file (ascii ''abcd''))) = Some (demo_store_file, demo_store_file)"
    using demo_init[OF demo_store_start(2)] by (simp add: demo_files_def)
  have p: "demo_progs (demo_argv ! 1) = Some [1, 2, 3]" by (simp add: demo_argv_def demo_progs_def)
  have len: "length ?us \<le> 256" by simp
  from new_store_boots [where argv = demo_argv and progs = demo_progs and fs = "demo_files demo_store_file" and nm = "ascii ''abcd''" and us = ?us
      and f = "demo_files demo_store_file (ascii ''abcd'')" and a = 5 and ?r0.0 = "sd_read_fn sd_sim_bus"
      and ?w0.0 = "sd_write_fn sd_sim_bus",
      OF sd_sim.sd_host_axioms demo_argv_nth(3) demo_argv_nth(1)[symmetric] refl p f
      demo_store_start(1)[symmetric] abcd(1,3) len new on]
  show ?thesis by (intro exI[of _ ?us] conjI) simp
qed

section \<open>A store that comes back and grows\<close>

text \<open>
  The devices of a later run, in the order in which the host finds them: \<open>Some k\<close> is the Pi that was
  number \<open>k\<close> of the first run, \<open>None\<close> one with a new card. Offered an id is every Pi; it is the first free
  one and goes up with each new Pi.
\<close>

definition offered :: "u32 \<Rightarrow> nat option list \<Rightarrow> nat \<Rightarrow> u32" where
  "offered a os j = a + of_nat (length (filter (\<lambda>x. x = None) (take j os)))"

lemma offered_steps:
  "offered a os 0 = a"
  "j < length os \<Longrightarrow> offered a os (Suc j) = offered a os j + (if os ! j = None then 1 else 0)"
  "offered a os (length os) = a + of_nat (length (filter (\<lambda>x. x = None) os))"
  by (simp_all add: offered_def take_Suc_conv_app_nth)

lemma offered_changes:
  "length (filter (\<lambda>j. offered a os j \<noteq> offered a os (Suc j)) [0..<length os]) = length (filter (\<lambda>x. x = None) os)"
proof -
  have "filter (\<lambda>j. offered a os j \<noteq> offered a os (Suc j)) [0..<length os] = filter (\<lambda>j. os ! j = None) [0..<length os]"
    by (rule filter_cong) (auto simp: offered_steps(2))
  moreover have "filter (\<lambda>x. x = None) os = map ((!) os) (filter (\<lambda>j. os ! j = None) [0..<length os])"
    using filter_map[of "\<lambda>x. x = None" "(!) os" "[0..<length os]"] by (simp add: map_nth comp_def)
  ultimately show ?thesis by simp
qed

text \<open>
  C2: a store comes back and grows. After a first run over new Pis the power goes off and on; the host
  program is run again on the file it left, over any of these Pis and any further ones with new cards, in
  any order. It boots all of them: a Pi of the first run claims the id it claimed then, although
  another one is offered, and the new ones take the next ids, which their cards record; together the ids
  of the two runs are consecutive from the one the file held at first, and the file then holds the
  first id that is still free.
\<close>

theorem store_comes_back:
  assumes "sd_host bus phase disk arg1 late ok sect ccs good cs"
    and "\<And>h. ok h \<Longrightarrow> powered_up phase ok cs (cycle h) \<and> disk (cycle h) = disk h"
    and "2 < length argv" "nm = argv ! 2" "f = fs nm" "progs (argv ! 1) = Some prog"
    and "store_file (f_content f)" "length (f_stack f) = 512"
    and "init_dfs (f_opened f) (f_content f) (f_stack f) = Some (df, c0)" "a = u32_at df 0"
    and "whole_name nm" "str_of nm \<noteq> []"
    and "\<And>u. u \<in> set us \<Longrightarrow> new_member phase disk ok good cs u"
    and "\<And>i. i < length us \<Longrightarrow> on_line bus r0 w0 nm (a + of_nat i) (us ! i)"
    and "install argv fs progs (Some (map m_device us)) = (r, Some c1)"
    and "fs' nm = \<lparr>f_opened = True, f_content = c1, f_stack = st\<rparr>" "length st = 512" "progs' (argv ! 1) = Some prog'"
    and "length os = length vs" "b = a + of_nat (length us)"
    and "\<And>j k. j < length vs \<Longrightarrow> os ! j = Some k \<Longrightarrow> k < length us \<and> back_up cycle (m_after bus r0 w0 (us ! k)) (vs ! j)"
    and "\<And>j. j < length vs \<Longrightarrow> os ! j = None \<Longrightarrow> new_member phase disk ok good cs (vs ! j)"
    and "\<And>j. j < length vs \<Longrightarrow> on_line bus r1 w1 nm (offered b os j) (vs ! j)"
  shows "\<exists>s s' c2. r = Some (Ret (True, s))
    \<and> install argv fs' progs' (Some (map m_device vs)) = (Some (Ret (True, s')), Some c2)
    \<and> taken (boots s) @ taken (boots s') =
        map (\<lambda>i. a + of_nat i) [0..<length us + length (filter (\<lambda>x. x = None) os)]
    \<and> (\<forall>j < length vs. case os ! j of
          Some k \<Rightarrow> b_claimed (boots s' ! j) AND 0xff = b_claimed (boots s ! k) AND 0xff
        | None \<Rightarrow> b_claimed (boots s' ! j) AND 0xff = offered b os j AND 0xff
            \<and> config_added (m_disk disk (vs ! j)) (m_part (vs ! j)) (disk (hw (dev (m_after bus r1 w1 (vs ! j)))))
            \<and> holds_id (m_config disk bus r1 w1 (vs ! j)) nm 0 (offered b os j))
    \<and> (\<exists>df2. init_dfs True c2 st = Some (df2, c2)
        \<and> u32_at df2 0 = a + of_nat (length us + length (filter (\<lambda>x. x = None) os)))"
proof -
  let ?n = "of_nat (length prog') :: u32" and ?news = "length (filter (\<lambda>x. x = None) os)"
  let ?b = "\<lambda>j. case os ! j of Some k \<Rightarrow> a + of_nat k | None \<Rightarrow> offered b os j"
  have n: "unat ?n \<le> length prog'" by (simp add: unat_of_nat)
  have z: "sizeof_dfs_file = 512" by (simp add: sizeof_dfs_file_def)
  obtain s where s: "install argv fs progs (Some (map m_device us)) = (Some (Ret (True, s)),
      Some (if us = [] then c0 else write_back (splice 0 (bytes32 (a + of_nat (length us))) df) c0))"
    "taken (boots s) = map (\<lambda>i. a + of_nat i) [0..<length us]"
    "\<And>i. i < length us \<Longrightarrow> b_claimed (boots s ! i) AND 0xff = (a + of_nat i) AND 0xff"
    by (rule new_members_run[where fs = fs and progs = progs, OF assms(1,3-6,9-14)]) blast+
  have c1: "c1 = (if us \<noteq> [] then write_back (splice 0 (bytes32 b) df) c0 else c0)" and r: "r = Some (Ret (True, s))"
    using s(1) assms(15,20) by auto
  obtain df1 where d1: "init_dfs True c1 st = Some (df1, c1)" "store_file c1" "u32_at df1 0 = b"
    using kept_id[OF assms(7,9) _ _ c1, of st] assms(8,10,17,20) z by auto
  have ans: "answers_boot prog' ?n nm (offered b os j) (offered b os (Suc j)) (?b j) (map m_device vs ! j)"
    if "j < length (map m_device vs)" for j
  proof (cases "os ! j")
    case None
    then show ?thesis
      using member_joins(1)[OF assms(1,22,11,12,23) n, of j] that assms(19) by (simp add: offered_steps(2))
  next
    case (Some k)
    then have k: "k < length us" "back_up cycle (m_after bus r0 w0 (us ! k)) (vs ! j)"
      using assms(21)[of j k] that by simp_all
    show ?thesis
      using member_joins(5)[OF assms(1) assms(13)[OF nth_mem[OF k(1)]] assms(11,12) assms(14)[OF k(1)] assms(2) k(2) assms(23) n]
        that Some assms(19) by (simp add: offered_steps(2))
  qed
  have b0: "offered b os 0 = u32_at df1 0" using d1(3) by (simp add: offered_steps(1))
  have f': "init_dfs (f_opened (fs' nm)) (f_content (fs' nm)) (f_stack (fs' nm)) = Some (df1, c1)"
    using d1(1) assms(16) by simp
  let ?ch = "\<exists>j < length (map m_device vs). offered b os j \<noteq> offered b os (Suc j)"
  obtain s' where s': "boot_connected_pies (Some (map m_device vs)) (Some prog') nm (u32_at df1 0) = Ret (True, s')"
    "install argv fs' progs' (Some (map m_device vs)) = (Some (Ret (True, s')),
       Some (if ?ch then write_back (splice 0 (bytes32 (offered b os (length (map m_device vs)))) df1) c1 else c1))"
    "\<And>j. j < length (map m_device vs) \<Longrightarrow> b_before (boots s' ! j) = offered b os j \<and> b_after (boots s' ! j) = offered b os (Suc j)
        \<and> b_claimed (boots s' ! j) AND 0xff = ?b j AND 0xff"
    "length (taken (boots s')) = length (filter (\<lambda>j. offered b os j \<noteq> offered b os (Suc j)) [0..<length (map m_device vs)])"
    by (rule install_answers[where progs = progs' and fs = fs' and a = "offered b os", OF assms(3,4) refl assms(18) f' b0 ans]) blast+
  have len: "length (taken (boots s')) = ?news" using s'(4) offered_changes[of b os] assms(19) by simp
  have ch: "?ch \<longleftrightarrow> ?news \<noteq> 0"
    unfolding offered_changes[of b os, symmetric] length_0_conv filter_empty_conv length_map assms(19) set_upt by auto
  have "taken (boots s') = map (\<lambda>i. b + of_nat i) [0..<?news]"
    using boot_connected_ok[OF s'(1)] len d1(3) by (simp add: ids_ok_def)
  then have t: "taken (boots s) @ taken (boots s') = map (\<lambda>i. a + of_nat i) [0..<length us + ?news]"
    unfolding s(2) ids_append assms(20) by simp
  have last: "offered b os (length vs) = a + of_nat (length us + ?news)"
    using offered_steps(3)[of b os] assms(19,20) by simp
  note run = s'(2)[unfolded ch, unfolded length_map last]
  obtain c2 where c2: "c2 = (if ?news \<noteq> 0 then write_back (splice 0 (bytes32 (a + of_nat (length us + ?news))) df1) c1 else c1)"
    by simp
  obtain df2 where d2: "init_dfs True c2 st = Some (df2, c2)" "u32_at df2 0 = a + of_nat (length us + ?news)"
    using kept_id[OF d1(2,1) _ _ c2, of st] assms(17,20) z d1(3) by (cases "?news = 0") auto
  have "case os ! j of
          Some k \<Rightarrow> b_claimed (boots s' ! j) AND 0xff = b_claimed (boots s ! k) AND 0xff
        | None \<Rightarrow> b_claimed (boots s' ! j) AND 0xff = offered b os j AND 0xff
            \<and> config_added (m_disk disk (vs ! j)) (m_part (vs ! j)) (disk (hw (dev (m_after bus r1 w1 (vs ! j)))))
            \<and> holds_id (m_config disk bus r1 w1 (vs ! j)) nm 0 (offered b os j)" if j: "j < length vs" for j
  proof -
    have claims: "b_claimed (boots s' ! j) AND 0xff = ?b j AND 0xff" using s'(3)[of j] j by simp
    show ?thesis
    proof (cases "os ! j")
      case None
      show ?thesis
        using member_joins(2,3)[OF assms(1) assms(22)[OF j None] assms(11,12) assms(23)[OF j]] claims
        unfolding None option.case by blast
    next
      case (Some k)
      show ?thesis using s(3)[OF conjunct1[OF assms(21)[OF j Some]]] claims unfolding Some option.case by simp
    qed
  qed
  then show ?thesis
    using r run[folded c2] t d2 by (intro exI[of _ s] exI[of _ s'] exI[of _ c2]) blast
qed

text \<open>A Pi of the first run powered up again, and its line.\<close>

abbreviation demo_after :: "sd_sim member \<Rightarrow> sd_sim sd fs" where
  "demo_after \<equiv> m_after sd_sim_bus (sd_read_fn sd_sim_bus) (sd_write_fn sd_sim_bus)"

definition demo_back :: "sd_sim member \<Rightarrow> sd_sim sd fs" where
  "demo_back u = new_pi\<lparr>dev := (dev new_pi)\<lparr>hw := cold_card 2 (sm_disk (hw (dev (demo_after u))))\<rparr>\<rparr>"

lemma demo_back_up: "back_up (\<lambda>h. cold_card 2 (sm_disk h)) (demo_after u) (demo_member (demo_back u) XY)"
  using demo_member_ready by (simp add: back_up_def) (simp add: demo_member_def demo_back_def)

lemma demo_back_line:
  assumes "demo_on_line a u" "u = demo_member new_pi XY0"
  shows "\<exists>XY. demo_on_line a2 (demo_member (demo_back u) XY)"
proof -
  have new: "new_member sm_phase sm_disk sd_sim_ok (\<lambda>_. True) sm_cs u" unfolding assms(2) by (rule demo_member_new)
  have v: "m_start (demo_member (demo_back u) ([], [])) = demo_back u" by (simp add: demo_member_def)
  have "\<exists>claimed t. boot_agrees (ascii ''abcd'') a2 opened (demo_program (demo_member (demo_back u) ([], [])))
      (m_start (demo_member (demo_back u) ([], []))) claimed a2 t \<and> claimed AND 0xff = a AND 0xff"
    by (rule member_joins(4)[OF sd_sim.sd_host_axioms new abcd(1,3) assms(1) demo_power demo_back_up])
  then obtain claimed t where "boot_agrees (ascii ''abcd'') a2 opened (demo_program (demo_member (demo_back u) ([], [])))
      (demo_back u) claimed a2 t"
    unfolding v by (elim exE conjE)
  then show ?thesis by (rule demo_line)
qed

theorem store_comes_back_witness:
  "\<exists>(u :: sd_sim member) (v :: sd_sim member) (w :: sd_sim member) c1 s s' c2.
      install demo_argv (demo_files demo_store_file) demo_progs (Some [m_device u]) = (Some (Ret (True, s)), Some c1)
    \<and> install demo_argv (demo_files c1) demo_progs (Some [m_device v, m_device w]) = (Some (Ret (True, s')), Some c2)
    \<and> taken (boots s) @ taken (boots s') = [5, 6]
    \<and> b_claimed (boots s' ! 0) AND 0xff = 6 \<and> b_claimed (boots s' ! 1) AND 0xff = b_claimed (boots s ! 0) AND 0xff"
proof -
  let ?F = "demo_files demo_store_file" and ?nm = "ascii ''abcd''"
  obtain XY where l: "demo_on_line 5 (demo_member new_pi XY)" using demo_member_line by metis
  define u where "u = demo_member new_pi XY"
  obtain XV XW where lv: "demo_on_line 6 (demo_member new_pi XV)" "demo_on_line 7 (demo_member (demo_back u) XW)"
    using demo_member_line demo_back_line[OF l[folded u_def] u_def] by metis
  let ?vs = "[demo_member new_pi XV, demo_member (demo_back u) XW]" and ?os = "[None, Some (0 :: nat)]"
  have new: "new_member sm_phase sm_disk sd_sim_ok (\<lambda>_. True) sm_cs u'" if "u' \<in> set [u]" for u'
    using that demo_member_new[of XY] by (simp add: u_def)
  have on: "demo_on_line (5 + of_nat i) ([u] ! i)" if "i < length [u]" for i
    using that l by (simp add: u_def)
  have f: "init_dfs (f_opened (?F ?nm)) (f_content (?F ?nm)) (f_stack (?F ?nm)) = Some (demo_store_file, demo_store_file)"
    using demo_init[OF demo_store_start(2)] by (simp add: demo_files_def)
  have p: "demo_progs (demo_argv ! 1) = Some [1, 2, 3]" by (simp add: demo_argv_def demo_progs_def)
  obtain s where run: "install demo_argv ?F demo_progs (Some (map m_device [u])) = (Some (Ret (True, s)),
      Some (if [u] = [] then demo_store_file
        else write_back (splice 0 (bytes32 (5 + of_nat (length [u]))) demo_store_file) demo_store_file))"
    by (rule new_members_run[where progs = demo_progs and fs = ?F and nm = ?nm, OF sd_sim.sd_host_axioms demo_argv_nth(3)
          demo_argv_nth(1)[symmetric] refl p f demo_store_start(1)[symmetric] abcd(1,3) new on]) blast+
  let ?c1 = "if [u] = [] then demo_store_file
        else write_back (splice 0 (bytes32 (5 + of_nat (length [u]))) demo_store_file) demo_store_file"
  have f': "demo_files ?c1 ?nm = \<lparr>f_opened = True, f_content = ?c1, f_stack = replicate 512 0\<rparr>"
    by (simp add: demo_files_def)
  have backs: "k < length [u] \<and> back_up (\<lambda>h. cold_card 2 (sm_disk h)) (demo_after ([u] ! k)) (?vs ! j)"
    if "j < length ?vs" "?os ! j = Some k" for j k
    using that demo_back_up[of u XW] by (auto simp: less_Suc_eq)
  have new': "new_member sm_phase sm_disk sd_sim_ok (\<lambda>_. True) sm_cs (?vs ! j)" if "j < length ?vs" "?os ! j = None" for j
    using that demo_member_new[of XV] by (auto simp: less_Suc_eq)
  have on': "demo_on_line (offered 6 ?os j) (?vs ! j)" if "j < length ?vs" for j
    using that lv by (auto simp: less_Suc_eq offered_def)
  have st: "store_file (f_content (?F ?nm))" "length (f_stack (?F ?nm)) = 512" "length (replicate 512 (0 :: u8)) = 512"
    "length ?os = length ?vs" "6 = 5 + (of_nat (length [u]) :: u32)"
    by (simp_all add: demo_files_def store_file_def sizeof_dfs_file_def demo_store_start)
  have "\<exists>s1 s' c2. Some (Ret (True, s)) = Some (Ret (True, s1))
    \<and> install demo_argv (demo_files ?c1) demo_progs (Some (map m_device ?vs)) = (Some (Ret (True, s')), Some c2)
    \<and> taken (boots s1) @ taken (boots s') = map (\<lambda>i. 5 + of_nat i) [0..<length [u] + length (filter (\<lambda>x. x = None) ?os)]
    \<and> (\<forall>j < length ?vs. case ?os ! j of
        Some k \<Rightarrow> b_claimed (boots s' ! j) AND 0xff = b_claimed (boots s1 ! k) AND 0xff
      | None \<Rightarrow> b_claimed (boots s' ! j) AND 0xff = offered 6 ?os j AND 0xff
          \<and> config_added (m_disk sm_disk (?vs ! j)) (m_part (?vs ! j)) (sm_disk (hw (dev (demo_after (?vs ! j)))))
          \<and> holds_id (m_config sm_disk sd_sim_bus (sd_read_fn sd_sim_bus) (sd_write_fn sd_sim_bus) (?vs ! j)) ?nm 0 (offered 6 ?os j))
    \<and> (\<exists>df2. init_dfs True c2 (replicate 512 0) = Some (df2, c2)
        \<and> u32_at df2 0 = 5 + of_nat (length [u] + length (filter (\<lambda>x. x = None) ?os)))"
    by (rule store_comes_back [where fs = ?F and progs = demo_progs and progs' = demo_progs and nm = ?nm and a = 5
      and us = "[u]" and vs = ?vs and os = ?os and b = 6 and fs' = "demo_files ?c1" and st = "replicate 512 0"
      and cycle = "\<lambda>h. cold_card 2 (sm_disk h)",
      OF sd_sim.sd_host_axioms demo_power demo_argv_nth(3) demo_argv_nth(1)[symmetric] refl p st(1,2) f
      demo_store_start(1)[symmetric] abcd(1,3) new on run f' st(3) p st(4,5) backs new' on']) assumption+
  then obtain s1 s' c2 where r: "Some (Ret (True, s)) = Some (Ret (True, s1))"
    "install demo_argv (demo_files ?c1) demo_progs (Some (map m_device ?vs)) = (Some (Ret (True, s')), Some c2)"
    "taken (boots s1) @ taken (boots s') = map (\<lambda>i. 5 + of_nat i) [0..<length [u] + length (filter (\<lambda>x. x = None) ?os)]"
    "\<forall>j < length ?vs. case ?os ! j of
        Some k \<Rightarrow> b_claimed (boots s' ! j) AND 0xff = b_claimed (boots s1 ! k) AND 0xff
      | None \<Rightarrow> b_claimed (boots s' ! j) AND 0xff = offered 6 ?os j AND 0xff
          \<and> config_added (m_disk sm_disk (?vs ! j)) (m_part (?vs ! j)) (sm_disk (hw (dev (demo_after (?vs ! j)))))
          \<and> holds_id (m_config sm_disk sd_sim_bus (sd_read_fn sd_sim_bus) (sd_write_fn sd_sim_bus) (?vs ! j)) ?nm 0 (offered 6 ?os j)"
    by (elim exE conjE) (rule that)
  have z: "0 < length ?vs" "1 < length ?vs" by simp_all
  have run1: "install demo_argv ?F demo_progs (Some [m_device u]) = (Some (Ret (True, s1)), Some ?c1)"
    using run r(1) by simp
  have run2: "install demo_argv (demo_files ?c1) demo_progs (Some [m_device (demo_member new_pi XV),
      m_device (demo_member (demo_back u) XW)]) = (Some (Ret (True, s')), Some c2)"
    using r(2) unfolding list.map .
  have "taken (boots s1) @ taken (boots s') = [5, 6]" using r(3) by (simp add: upt_rec)
  moreover have "b_claimed (boots s' ! 0) AND 0xff = 6" using r(4)[rule_format, OF z(1)] by (simp add: offered_def)
  moreover have "b_claimed (boots s' ! 1) AND 0xff = b_claimed (boots s1 ! 0) AND 0xff" using r(4)[rule_format, OF z(2)] by simp
  ultimately show ?thesis by (intro exI conjI) (rule run1, rule run2)
qed

end
