(* ===== verification/Boot_Names.thy ===== *)
theory Boot_Names
  imports Protocol
begin












end
