(* ===== verification/Pi_Output.thy ===== *)
theory Pi_Output
  imports Printk "HOL-Library.Sublist"
begin

text \<open>
  The host reads what the Pis print: \<open>src/mac-src/get-pi-output.c\<close>. \<open>select\<close> and \<open>read\<close> of the operating
  system are the parameters \<open>select_fds\<close> and \<open>read_fd\<close>, functions of the system's state \<open>'e\<close>; a read
  gives the C result and the bytes stored. The state keeps the static \<open>idx\<close> of \<open>pi_done_scan\<close>, the
  array of Pis and what has been written to \<open>unifiedfd\<close>.
\<close>

section \<open>The exit string\<close>

definition exit_string :: bytes where "exit_string = cstr done_line"

text \<open>\<open>None\<close> is a read behind the string: its terminating 0 is element 8.\<close>

definition pi_done_scan :: "u8 \<Rightarrow> nat \<Rightarrow> (bool \<times> nat) option" where
  "pi_done_scan c i =
     (case rd_at exit_string i of
        None \<Rightarrow> None
      | Some e \<Rightarrow>
          (let i' = if c = e then i + 1 else if c = exit_string ! 0 then 1 else 0
           in Some (i' = length exit_string - 1, i')))"

section \<open>Reading the Pis\<close>

record slot =
  slot_open :: bool
  slot_fd :: int

record 'e out_state =
  idx :: nat
  pies :: "slot list"
  unified :: bytes
  os :: 'e

record 'e posix =
  select_fds :: "int set \<Rightarrow> 'e \<Rightarrow> int \<times> 'e"
  read_fd :: "int \<Rightarrow> nat \<Rightarrow> 'e \<Rightarrow> int \<times> bytes \<times> 'e"

definition PI_READ_SIZE :: nat where "PI_READ_SIZE = 4096"

definition reap_pi :: "nat \<Rightarrow> 'e out_state \<Rightarrow> 'e out_state" where
  "reap_pi selected_pi s = s\<lparr>pies := (pies s)[selected_pi := (pies s ! selected_pi)\<lparr>slot_open := False\<rparr>]\<rparr>"

text \<open>The scan of the bytes read, which stops at the first \<open>done\<close>.\<close>

fun scan_data :: "bytes \<Rightarrow> nat \<Rightarrow> (bool \<times> nat) option" where
  "scan_data [] i = Some (False, i)"
| "scan_data (c # cs) i =
     (case pi_done_scan c i of
        None \<Rightarrow> None
      | Some (done, i') \<Rightarrow> if done then Some (True, i') else scan_data cs i')"

text \<open>
  The inner \<open>while(1)\<close>: \<open>None\<close> is that it never ends. The data of a read is its first \<open>n\<close> bytes, which
  has room for the 0 stored behind them.
\<close>

partial_function (option) drain_pi :: "'e posix \<Rightarrow> nat \<Rightarrow> int \<Rightarrow> 'e out_state \<Rightarrow> 'e out_state res option" where
  "drain_pi sys selected_pi fd s =
     (let (n, data, e) = read_fd sys fd (PI_READ_SIZE - 1) (os s); s1 = s\<lparr>os := e\<rparr> in
      if n < 0 then Some (Inr (reap_pi selected_pi s1))
      else if n = 0 then Some (Inr s1)
      else
        (case scan_data data (idx s1) of
           None \<Rightarrow> Some (Inl Undef)
         | Some (done, i') \<Rightarrow>
             (let s2 = s1\<lparr>idx := i', unified := unified s1 @ data\<rparr> in
              if done then Some (Inr (reap_pi selected_pi s2))
              else
                (let (r, e') = select_fds sys {fd} (os s2); s3 = s2\<lparr>os := e'\<rparr> in
                 if r = 0 then Some (Inr s3) else drain_pi sys selected_pi fd s3))))"

text \<open>The choice of the next Pi: \<open>do ... while\<close> around the array, from \<open>selected_pi\<close>.\<close>

partial_function (option) next_pi :: "slot list \<Rightarrow> int \<Rightarrow> int \<Rightarrow> int option" where
  "next_pi ps prev_pi selected_pi =
     (let s1 = selected_pi + 1; s2 = if s1 = int (length ps) then 0 else s1 in
      if s2 \<noteq> prev_pi \<and> \<not> slot_open (ps ! nat s2) then next_pi ps prev_pi s2 else Some s2)"

definition open_fds :: "slot list \<Rightarrow> int set" where
  "open_fds ps = slot_fd ` {p \<in> set ps. slot_open p}"

text \<open>
  One turn of the outer loop; \<open>True\<close> is its \<open>break\<close>. \<open>prev_pi\<close> is never assigned, so it is -1 in every turn.
\<close>

definition output_turn :: "'e posix \<Rightarrow> 'e out_state \<Rightarrow> (bool \<times> 'e out_state) res option" where
  "output_turn sys s =
     (let fds = open_fds (pies s); maxfd = Max (insert (- 1) fds) in
      if maxfd = - 1 then Some (Inr (True, s))
      else
        (let (num_ready, e) = select_fds sys fds (os s); s1 = s\<lparr>os := e\<rparr> in
         if num_ready = 0 then Some (Inr (True, s1))
         else
           (case next_pi (pies s1) (- 1) (- 1) of
              None \<Rightarrow> None
            | Some selected_pi \<Rightarrow>
                (case drain_pi sys (nat selected_pi) (slot_fd (pies s1 ! nat selected_pi)) s1 of
                   None \<Rightarrow> None
                 | Some (Inl f) \<Rightarrow> Some (Inl f)
                 | Some (Inr s2) \<Rightarrow> Some (Inr (False, s2))))))"

fun output_turns :: "nat \<Rightarrow> 'e posix \<Rightarrow> 'e out_state \<Rightarrow> 'e out_state res option" where
  "output_turns 0 sys s = Some (Inr s)"
| "output_turns (Suc n) sys s =
     (case output_turn sys s of
        None \<Rightarrow> None
      | Some (Inl f) \<Rightarrow> Some (Inl f)
      | Some (Inr (stop, s')) \<Rightarrow> if stop then Some (Inr s') else output_turns n sys s')"

definition get_pi_output :: "'e posix \<Rightarrow> 'e out_state \<Rightarrow> 'e out_state res option" where
  "get_pi_output sys s = output_turns 10 sys s"

section \<open>The scan finds the exit string\<close>

text \<open>How much of the exit string the text read so far ends with.\<close>

definition matched :: "bytes \<Rightarrow> nat \<Rightarrow> bool" where
  "matched seen i \<longleftrightarrow> suffix (take i (ascii done_line)) seen
     \<and> (\<forall>j \<le> 8. suffix (take j (ascii done_line)) seen \<longrightarrow> j \<le> i)"

lemma exit_string_eq: "exit_string = ascii done_line @ [0]" "length (ascii done_line) = 8"
  "exit_string ! 0 = 0x44"
  by (simp_all add: exit_string_def cstr_def ascii_def done_line_def nl_def)

lemma done_letters: "j < 8 \<Longrightarrow> ascii done_line ! j = 0x44 \<longleftrightarrow> j = 0" "j < 8 \<Longrightarrow> ascii done_line ! j \<noteq> 0"
proof -
  have a: "ascii done_line = [0x44, 0x4f, 0x4e, 0x45, 0x21, 0x21, 0x21, 0x0a]"
    by (simp add: ascii_def done_line_def nl_def)
  have "j < 8 \<longleftrightarrow> j \<in> {0, 1, 2, 3, 4, 5, 6, 7}" by auto
  then show "j < 8 \<Longrightarrow> ascii done_line ! j = 0x44 \<longleftrightarrow> j = 0" "j < 8 \<Longrightarrow> ascii done_line ! j \<noteq> 0"
    unfolding a by auto
qed

lemma pi_done_scan_eq:
  assumes "i < 8" "c \<noteq> 0"
  shows "pi_done_scan c i =
    (let i' = if c = ascii done_line ! i then i + 1 else if c = 0x44 then 1 else 0 in Some (i' = 8, i'))"
    "pi_done_scan c 8 = (let i' = if c = 0x44 then 1 else 0 in Some (i' = (8 :: nat), i'))"
  using assms done_letters(1)[of 0] exit_string_eq(2)
  by (simp_all add: pi_done_scan_def exit_string_eq(1) nth_append rd_at_def Let_def)

lemma suffix_take_snoc:
  assumes "k < 8"
  shows "suffix (take (Suc k) (ascii done_line)) (seen @ [c]) \<longleftrightarrow>
    suffix (take k (ascii done_line)) seen \<and> ascii done_line ! k = c"
  using assms exit_string_eq(2) by (simp add: take_Suc_conv_app_nth conj_commute)

text \<open>A border of a part of the exit string would start with its first letter, which occurs only once.\<close>

lemma no_border:
  assumes "suffix (take i (ascii done_line)) seen" "suffix (take k (ascii done_line)) seen" "k < i" "i \<le> 8"
  shows "k = 0"
proof (rule ccontr)
  assume "k \<noteq> 0"
  let ?D = "ascii done_line"
  have "suffix (take k ?D) (take i ?D)"
    using assms exit_string_eq(2) by (intro suffix_length_suffix[OF assms(2,1)]) simp
  then obtain ys where "take i ?D = ys @ take k ?D" by (auto simp: suffix_def)
  moreover from this have "length ys = i - k" using assms exit_string_eq(2) by (metis add_diff_cancel_right' length_append length_take min.absorb2 less_imp_le_nat le_trans)
  ultimately have "take i ?D ! (i - k) = ?D ! 0"
    using \<open>k \<noteq> 0\<close> assms(3,4) exit_string_eq(2) by (simp add: nth_append)
  then have "?D ! (i - k) = 0x44" using done_letters(1)[of 0] assms(3,4) \<open>k \<noteq> 0\<close> by simp
  then show False using done_letters(1)[of "i - k"] assms(3,4) \<open>k \<noteq> 0\<close> by simp
qed

lemma matched_step:
  assumes "matched seen i" "i < 8" "c \<noteq> 0"
  obtains i' where "pi_done_scan c i = Some (i' = 8, i')" "matched (seen @ [c]) i'" "i' \<le> 8"
proof -
  let ?D = "ascii done_line"
  define i' where "i' = (if c = ?D ! i then i + 1 else if c = 0x44 then 1 else 0)"
  have run: "pi_done_scan c i = Some (i' = 8, i')"
    using assms by (simp add: pi_done_scan_eq i'_def Let_def)
  have m: "suffix (take i ?D) seen" "\<And>j. j \<le> 8 \<Longrightarrow> suffix (take j ?D) seen \<Longrightarrow> j \<le> i"
    using assms(1) by (auto simp: matched_def)
  have d0: "?D ! 0 = 0x44" using done_letters(1)[of 0] by simp
  have longest: "j \<le> i'" if j: "j \<le> 8" "suffix (take j ?D) (seen @ [c])" for j
  proof (cases j)
    case (Suc k)
    then have k: "k < 8" "suffix (take k ?D) seen" "?D ! k = c" using j suffix_take_snoc by auto
    then have "k \<le> i" using m(2) by simp
    show ?thesis
    proof (cases "c = ?D ! i")
      case True
      then show ?thesis using \<open>k \<le> i\<close> Suc by (simp add: i'_def)
    next
      case False
      then have "k < i" using k(3) \<open>k \<le> i\<close> by (cases "k = i") auto
      then have "k = 0" using no_border[OF m(1) k(2)] assms(2) by simp
      then show ?thesis using False k(3) d0 Suc by (simp add: i'_def)
    qed
  qed simp
  have "suffix (take i' ?D) (seen @ [c])"
  proof (cases "c = ?D ! i")
    case True
    then show ?thesis using suffix_take_snoc[OF assms(2), of seen c] m(1) by (simp add: i'_def)
  next
    case False
    have "c = 0x44 \<Longrightarrow> suffix (take (Suc 0) ?D) (seen @ [c])"
      by (rule suffix_take_snoc[THEN iffD2]) (simp_all add: d0)
    then show ?thesis using False by (simp add: i'_def del: suffix_snoc)
  qed
  moreover have "i' \<le> 8" using assms(2) by (simp add: i'_def)
  ultimately show thesis using that run longest by (auto simp: matched_def)
qed

lemma matched_done: "matched seen i \<Longrightarrow> i \<le> 8 \<Longrightarrow> i = 8 \<longleftrightarrow> suffix (ascii done_line) seen"
  using exit_string_eq(2) unfolding matched_def by (metis le_antisym order_refl take_all)

lemma matched_Nil: "matched [] 0"
  using exit_string_eq(2) by (auto simp: matched_def)

text \<open>Scanning \<open>cs\<close> after the text \<open>seen\<close>, in which the exit string has not been seen.\<close>

lemma scan_after:
  assumes "matched seen i" "i \<le> 8" "0 \<notin> set cs" "\<not> sublist (ascii done_line) seen"
  obtains b j where "scan_data cs i = Some (b, j)" "b = sublist (ascii done_line) (seen @ cs)"
    "j \<le> 8" "\<not> b \<Longrightarrow> matched (seen @ cs) j"
proof -
  let ?D = "ascii done_line"
  have "\<exists>b j. scan_data cs i = Some (b, j) \<and> b = sublist ?D (seen @ cs) \<and> j \<le> 8 \<and> (\<not> b \<longrightarrow> matched (seen @ cs) j)"
    using assms
  proof (induction cs arbitrary: seen i)
    case (Cons c cs)
    have "i \<noteq> 8" using matched_done[OF Cons.prems(1,2)] Cons.prems(4) suffix_imp_sublist by blast
    then have i: "i < 8" using Cons.prems(2) by simp
    have "c \<noteq> 0" using Cons.prems(3) by auto
    then obtain i' where i': "pi_done_scan c i = Some (i' = 8, i')" "matched (seen @ [c]) i'" "i' \<le> 8"
      using matched_step[OF Cons.prems(1) i] by blast
    show ?case
    proof (cases "i' = 8")
      case True
      then have "sublist ?D (seen @ [c])"
        using matched_done[OF i'(2,3)] suffix_imp_sublist by blast
      then have "sublist ?D ((seen @ [c]) @ cs)" by (metis sublist_append)
      then show ?thesis using i'(1) True by (intro exI[of _ True] exI[of _ 8]) simp
    next
      case False
      then have "\<not> suffix ?D (seen @ [c])" using matched_done[OF i'(2,3)] by simp
      then have "\<not> sublist ?D (seen @ [c])" using Cons.prems(4) by (simp add: sublist_snoc)
      then show ?thesis using Cons.IH[OF i'(2,3)] Cons.prems(3) i'(1) False by simp
    qed
  qed auto
  then show thesis using that by blast
qed

text \<open>
  C19: the scan recognises the exit string wherever reads split it. After text without the exit string
  and without zeros, the scan of the next bytes stops exactly if the exit string occurs in the whole text.
\<close>

theorem pi_done_scan_correct:
  assumes "0 \<notin> set (xs @ ys)" "\<not> sublist (ascii done_line) xs"
  shows "\<exists>i j. scan_data xs 0 = Some (False, i)
    \<and> scan_data ys i = Some (sublist (ascii done_line) (xs @ ys), j)"
proof -
  have e: "\<not> sublist (ascii done_line) []" using exit_string_eq(2) by auto
  obtain b i where i: "scan_data xs 0 = Some (b, i)" "b = sublist (ascii done_line) ([] @ xs)" "i \<le> 8"
    "\<not> b \<Longrightarrow> matched ([] @ xs) i"
    using scan_after[OF matched_Nil _ _ e, of xs] assms(1) by auto
  have nb: "\<not> b" using i(2) assms(2) by simp
  then have m: "matched xs i" using i(4) by simp
  obtain b' j where "scan_data ys i = Some (b', j)" "b' = sublist (ascii done_line) (xs @ ys)"
    using scan_after[OF m i(3) _ assms(2), of ys thesis] assms(1) by simp
  then show ?thesis using i(1) nb by auto
qed

theorem pi_done_scan_correct_witness:
  "\<exists>i j. scan_data (ascii ''ok DONE'') 0 = Some (False, i)
    \<and> scan_data (ascii (''!!!'' @ nl)) i = Some (sublist (ascii done_line) (ascii ''ok DONE'' @ ascii (''!!!'' @ nl)), j)"
proof -
  have "\<not> sublist (ascii done_line) (ascii ''ok DONE'')" by code_simp
  then show ?thesis
    by (intro pi_done_scan_correct) (simp_all add: ascii_def nl_def)
qed

text \<open>A zero right after the exit string lets the index run off the end of the string.\<close>

lemma pi_done_scan_overrun: "pi_done_scan 0 8 = Some (False, 9)" "pi_done_scan c 9 = None"
  using exit_string_eq(2) done_letters(1)[of 0]
  by (simp_all add: pi_done_scan_def exit_string_eq(1) nth_append rd_at_def)

section \<open>Which Pi is read\<close>

text \<open>The search ends, as a Pi is open when it starts, and always at the first open one.\<close>

lemma next_pi_first:
  assumes "m < length ps" "slot_open (ps ! m)" "\<And>j. j < m \<Longrightarrow> \<not> slot_open (ps ! j)"
  shows "next_pi ps (- 1) (- 1) = Some (int m)"
proof -
  have "next_pi ps (- 1) (int k - 1) = Some (int m)" if "k \<le> m" for k
    using that
  proof (induction "m - k" arbitrary: k)
    case 0
    then show ?case using assms(1,2) by (subst next_pi.simps) simp
  next
    case (Suc n)
    then have k: "k < m" by simp
    then have "next_pi ps (- 1) (int (Suc k) - 1) = Some (int m)" using Suc.hyps(1)[of "Suc k"] Suc.hyps(2) by simp
    then show ?case using k assms(1) assms(3)[OF k] by (subst next_pi.simps) simp
  qed
  from this[of 0] show ?thesis by simp
qed

lemma open_fds_single [simp]: "open_fds [p] = (if slot_open p then {slot_fd p} else {})"
  by (auto simp: open_fds_def)

lemma open_fds_max:
  assumes "m < length ps" "slot_open (ps ! m)" "0 \<le> slot_fd (ps ! m)"
  shows "Max (insert (- 1) (open_fds ps)) \<noteq> - 1" "slot_fd (ps ! m) \<in> open_fds ps"
proof -
  show i: "slot_fd (ps ! m) \<in> open_fds ps" using assms(1,2) by (auto simp: open_fds_def)
  have "finite (insert (- 1) (open_fds ps))" by (simp add: open_fds_def)
  then have "slot_fd (ps ! m) \<le> Max (insert (- 1) (open_fds ps))" using i by (intro Max_ge) auto
  then show "Max (insert (- 1) (open_fds ps)) \<noteq> - 1" using assms(3) by linarith
qed

text \<open>
  C35: the search is no round robin. While the first open Pi is silent, so that its reads give no
  byte, every turn reads that Pi again, whatever the others have to say: after the ten turns the
  function returns with all Pis still open and not a byte of output.
\<close>

theorem get_pi_output_starves:
  assumes "m < length (pies s)" "slot_open (pies s ! m)" "\<And>j. j < m \<Longrightarrow> \<not> slot_open (pies s ! j)"
    and "0 \<le> slot_fd (pies s ! m)" "silent (os s)"
    and "\<And>e. silent e \<Longrightarrow> \<exists>e'. read_fd sys (slot_fd (pies s ! m)) 4095 e = (0, [], e') \<and> silent e'"
    and "\<And>e. silent e \<Longrightarrow> silent (snd (select_fds sys (open_fds (pies s)) e))"
  shows "\<exists>s'. get_pi_output sys s = Some (Inr s') \<and> pies s' = pies s \<and> unified s' = unified s"
proof -
  have turn: "\<exists>stop t'. output_turn sys t = Some (Inr (stop, t')) \<and> pies t' = pies t \<and> unified t' = unified t \<and> silent (os t')"
    if t: "pies t = pies s" "silent (os t)" for t
  proof -
    obtain r e where r: "select_fds sys (open_fds (pies s)) (os t) = (r, e)" by force
    have e: "silent e" using assms(7)[OF t(2)] r by simp
    obtain e' where e': "read_fd sys (slot_fd (pies s ! m)) 4095 e = (0, [], e')" "silent e'"
      using assms(6)[OF e] by blast
    have d: "drain_pi sys m (slot_fd (pies s ! m)) (t\<lparr>os := e\<rparr>) = Some (Inr (t\<lparr>os := e'\<rparr>))"
      using e'(1) by (subst drain_pi.simps) (simp add: PI_READ_SIZE_def)
    show ?thesis
      using t r e e' d open_fds_max(1)[OF assms(1,2,4)] next_pi_first[OF assms(1-3)]
      by (intro exI[of _ "r = 0"] exI[of _ "if r = 0 then t\<lparr>os := e\<rparr> else t\<lparr>os := e'\<rparr>"])
         (simp add: output_turn_def)
  qed
  have "\<exists>s'. output_turns n sys t = Some (Inr s') \<and> pies s' = pies s \<and> unified s' = unified t"
    if "pies t = pies s" "silent (os t)" for n t
    using that
  proof (induction n arbitrary: t)
    case (Suc n)
    obtain stop t' where t': "output_turn sys t = Some (Inr (stop, t'))" "pies t' = pies t"
      "unified t' = unified t" "silent (os t')"
      using turn[OF Suc.prems] by blast
    then show ?case using Suc.IH[of t'] Suc.prems(1) by (cases stop) auto
  qed simp
  then show ?thesis using assms(5) by (simp add: get_pi_output_def)
qed

text \<open>
  An operating system whose state is the reads still to come, for each descriptor; \<open>select\<close> says
  that something is ready while anything is left.
\<close>

definition script_os :: "(int \<Rightarrow> bytes list) posix" where
  "script_os = \<lparr>
     select_fds = (\<lambda>fds e. (if \<exists>fd \<in> fds. e fd \<noteq> [] then 1 else 0, e)),
     read_fd = (\<lambda>fd n e. case e fd of [] \<Rightarrow> (0, [], e) | c # cs \<Rightarrow> (int (length c), c, e(fd := cs)))\<rparr>"

definition two_pies :: "(int \<Rightarrow> bytes list) \<Rightarrow> (int \<Rightarrow> bytes list) out_state" where
  "two_pies e = \<lparr>idx = 0, pies = [\<lparr>slot_open = True, slot_fd = 3\<rparr>, \<lparr>slot_open = True, slot_fd = 4\<rparr>],
     unified = [], os = e\<rparr>"

theorem get_pi_output_starves_witness:
  "\<exists>s'. get_pi_output script_os (two_pies ((\<lambda>_. [])(4 := [ascii ''hello'', ascii done_line]))) = Some (Inr s')
    \<and> pies s' = pies (two_pies ((\<lambda>_. [])(4 := [ascii ''hello'', ascii done_line]))) \<and> unified s' = []"
  using get_pi_output_starves [where m = 0 and sys = script_os and silent = "\<lambda>e. e 3 = []"
      and s = "two_pies ((\<lambda>_. [])(4 := [ascii ''hello'', ascii done_line]))"]
  by (simp add: two_pies_def script_os_def)

section \<open>The output of one Pi\<close>






end
