(* ===== verification/Pi_Deploy.thy ===== *)
theory Pi_Deploy
  imports Pi_Install Pi_Output
begin

text \<open>
  The whole \<open>main\<close> of \<open>src/mac-src/pi-install.c\<close>: booting all Pis, writing the file of the store back,
  and reading what the booted Pis print. A Pi that stops with \<open>panic\<close> (\<open>src/pi-src/error.c\<close>) ends its
  output with the line the host waits for.
\<close>







end
