(* ===== verification/Spec2Isabelle.thy ===== *)
theory Spec2Isabelle
  imports Cstring Fat32_Dump Fat32_Types Crc32 Timer Gpio Pi_Fleet Boot_Names Pi_Deploy
begin

text \<open>
  A verification development of a distributed file store over bare-metal Raspberry Pis: a program that
  runs on every Pi (\<open>src/pi-src\<close>) and a program on the host that boots the Pis over serial lines
  (\<open>src/mac-src\<close>).

  \<^bold>\<open>The program.\<close> The host (\<open>pi-install.c\<close>) opens the serial device of every connected Pi, sends each
  the program (\<open>boot\<close> of \<open>bootpi.c\<close>, to the boot loader on the Pi), and then makes the Pi a member of a
  store (\<open>dfs_boot\<close>): it sends the name of the store and the next free id, and the Pi answers with its
  own id. On the Pi, \<open>_cstart\<close> of \<open>main.c\<close> clears the statics and sets the SD card up (\<open>bzt-sd.c\<close>);
  \<open>entry\<close> serves the words of the host, mounts the FAT32 volume (\<open>fat32.c\<close>), finds or creates the
  configuration file (\<open>fat32-dfs.c\<close>) and looks its id up there, or records the one offered
  (\<open>id_for_dfs\<close>). Afterwards the host copies what the Pis print to its own output
  (\<open>get-pi-output.c\<close>) until each has printed its last line, which \<open>entry\<close> and \<open>panic\<close> both do.

  \<^bold>\<open>How code becomes definitions.\<close> C integers are words of their width. A C object is the list of its
  bytes, and an access outside of it is the failure \<open>Undef\<close>, or \<open>None\<close> in the string routines. A
  \<open>panic\<close> is the failure \<open>Panic\<close> with its message (\<open>fault\<close> in \<open>Prelude\<close>). Static variables are the
  fields of a record that is passed along; arrays on the stack, which the code does not initialise,
  are arguments. A loop that may not end is a partial function into \<open>option\<close>; the loops over
  timeouts recurse on their counter, which they test as the code does, so no bound is chosen
  by the model. Hardware is a parameter: \<open>bus\<close> in \<open>Mmio\<close> reads and writes registers and lets time
  pass on any state. So are the operating system of the host and the two sector functions the
  FAT32 code calls through pointers.

  \<^bold>\<open>Theories\<close>, in the order they build on each other. The names of definitions are those of the C
  functions; a loop of a function has a definition of its own.

  \<^item> \<open>Prelude\<close>: integer types, failures, little-endian words and bytes, overwriting part of a buffer.
  \<^item> \<open>Cstring\<close>: \<open>string.c\<close> and \<open>memset.c\<close>. Names are compared as prefixes: \<open>strncmp\<close> stops with "equal"
    at the end of the shorter string.
  \<^item> \<open>Block_Device\<close>: the contract of the two sector functions, \<open>block_device\<close>, interpreted on a disk
    in memory and, in \<open>Sd_Card\<close>, on the driver.
  \<^item> \<open>Fat32_Layout\<close>, \<open>Fat32_Table\<close>, \<open>Fat32_Alloc\<close>, \<open>Fat32_Disk\<close>: \<open>fat32.h\<close>, and the table of \<open>fat32.c\<close>:
    following, finding, linking and writing through. Chains are abstracted to lists of clusters;
    \<open>link_table\<close> is what linking promises to allocation. Allocating builds a chain of the length
    asked for, changes no other chain, and leaves the disk's copy of the table up to date.
  \<^item> \<open>Fat32_Dir\<close>, \<open>Fat32_Insert\<close>, \<open>Fat32_Cluster\<close>: the root directory as the list of its records. Lookup is
    a search of that list; a file allocated is found again and no other is disturbed; whole clusters
    are written and read back. The exceptions have theorems too: a full directory makes lookup loop,
    a full table destroys a table sector, a sector that begins with a long name is duplicated.
  \<^item> \<open>Fat32_Init\<close>: \<open>fat32_init\<close> picks the partition and loads the table. The state it leaves is given
    exactly, including that only a quarter of the memory of the table is filled.
  \<^item> \<open>Fat32_Dump\<close>: the routines that print directories and chains, with their text.
  \<^item> \<open>Dfs\<close>: the configuration file and \<open>id_for_dfs\<close>.
  \<^item> \<open>Fat32_Types\<close>: any sequence of calls of the public routines as a step relation, \<open>fs_step\<close>, and
    the typing of the statics it preserves, over any device.
  \<^item> \<open>Mmio\<close>, \<open>Timer\<close>, \<open>Gpio\<close>: registers, the delays of \<open>timer.c\<close> and \<open>rpi-misc.c\<close> over a clock that
    keeps running (\<open>running_clock\<close>), the pins of \<open>gpio.c\<close> over a register block (\<open>gpio_block\<close>).
  \<^item> \<open>Sd\<close>, \<open>Sd_Init\<close>: \<open>bzt-sd.c\<close>, register access by register access, on any controller, and what its
    counters miss. \<open>Sd_Card\<close> states the protocol of a transfer as \<open>emmc_host\<close> and refines the driver to
    \<open>block_device\<close>; \<open>Sd_Host\<close> extends it by the protocol of the set-up, \<open>sd_host\<close>, and \<open>Sd_Up\<close> and
    \<open>Sd_Ready\<close> show that \<open>sd_init\<close> comes up. Delays of a controller are bounded by 10000 polls, the least
    of the code's limits in milliseconds; a card may be busy four times, since the code treats
    success at its sixth attempt as a failure.
  \<^item> \<open>Crc32\<close>, \<open>Printk\<close>: the checksum against the bitwise division, and the formatters.
  \<^item> \<open>Serial\<close>: programs on one end of a serial line, and two of them on one line. \<open>line_step\<close> delivers
    a byte in either direction; for two programs that only add to what they send (\<open>causal\<close>), the locale
    \<open>duplex\<close> proves that every order of deliveries leads to the same end.
  \<^item> \<open>Boot_Defs\<close>, \<open>Host_Boot\<close>, \<open>Boot_Program\<close>: the words of the protocol, \<open>bootpi.c\<close>, and the loading of
    a program by a boot loader that asks for it.
  \<^item> \<open>Pi_Main\<close>, \<open>Protocol\<close>, \<open>Boot_Names\<close>, \<open>Boot_Store\<close>: \<open>entry\<close>, its runs against \<open>dfs_boot\<close> (\<open>serves\<close> is
    an inductive account of a Pi that answers words), the deadlock for names whose length is not
    divisible by four, and the path of an id from the host to the card and back.
  \<^item> \<open>Boot_New\<close>: the first boot of a card without a configuration file, which creates one.
  \<^item> \<open>Pi_Start\<close>: \<open>_cstart\<close>, the whole program of a Pi over the SD driver, that an id survives power
    cycles, and that a new card keeps the id it was given at its first boot.
  \<^item> \<open>Set_Tty\<close>, \<open>Pi_Install\<close>, \<open>Pi_Output\<close>, \<open>Pi_Deploy\<close>: the host program with the file of the store
    between runs, the terminals, and the output of the Pis up to their last line; a Pi that
    panics ends the session cleanly.
  \<^item> \<open>Pi_Fleet\<close>: both programs together. The host boots any number of Pis with new cards over their
    lines, and each ends with an id of its own on its card; after a power cycle it boots these and
    further ones again, and no id changes.

  \<^bold>\<open>What the main theorems assume.\<close> The FAT32 theorems assume a volume with sectors of 512 bytes whose
  table fits the 30-bit word addresses of the memory behind the kernel, and a root directory at
  cluster 2. The theorems about an id assume a name whose length is divisible by four (for others
  the protocol deadlocks), and a card that keeps the protocol. The configuration file is either on
  the card already, or the card is new (\<open>new_card\<close>): there is no such file, the first cluster of the
  root has room for its record, and the part of the table that \<open>fat32_init\<close> loads has two free
  clusters. The simulated devices that satisfy every hypothesis are part of the theories, and every property
  with a hypothesis is applied to one of them.

  \<^bold>\<open>Not modelled.\<close> The assembly start-up and \<open>put32\<close>, \<open>get32\<close> and the barriers (\<open>start.S\<close>, \<open>mem-barrier.S\<close>,
  \<open>rpi-asm.h\<close>): not C, and a register access is what \<open>bus\<close> is. The UART (\<open>ext-bin/uart.o\<close>) has no source.
  The code under \<open>#if 0\<close>, about a third of \<open>fat32.c\<close>, and \<open>throwaway/\<close> are not compiled, and neither is the progress text of \<open>fat32.c\<close> and
  \<open>fat32-dfs.c\<close>, since no build defines \<open>DEBUG\<close>. What the host prints about itself is left out, as are
  the lines \<open>fat32.c\<close> prints just before it panics over a sector size, a sector or a cluster;
  the debug output of \<open>bzt-sd.c\<close> is compiled to calls of an empty function. The memory behind the
  kernel is kept apart from the stack and the statics; closing files and freeing memory have no
  effect in the model; of the orders in which C may read the four bytes of a word in \<open>get32\<close> of
  \<open>bootpi.c\<close> the model has the one from left to right.
\<close>

end
